(* ===== verification/Prelude.thy ===== *)
theory Prelude
  imports Main "HOL-Library.AList" "HOL-Library.Word" "HOL-Library.Multiset"
begin

text \<open>
  What every component of the soc_perf model shares: the failures a C++ expression of this program
  can run into, the sequencing of computations that may fail, a small logic for them
  (\<open>okE\<close>: returns normally with a property), loops over containers, the narrowing of
  integers to 32 and 64 bits, and the behaviour of \<open>std::unordered_map\<close> with possibly null
  pointers as values.

  Integer fields declared \<open>int32_t\<close> or \<open>int64_t\<close> are \<open>int\<close>; wherever the code
  narrows a value or computes a value that can leave the range, the model applies \<open>to_int32\<close>,
  \<open>to_int64\<close> or \<open>to_uint64\<close>. Unsigned counters and unsigned clock values are words.
\<close>

subsection \<open>Automation of the development\<close>

named_theorems okE_rules \<open>introduction rules of the logic of computations that may fail\<close>
named_theorems frame_simps \<open>fields an operation leaves unchanged\<close>

subsection \<open>Failures\<close>

datatype error =
    NullDeref        \<comment> \<open>a null \<open>shared_ptr\<close> or a null C string is dereferenced\<close>
  | OutOfRange       \<comment> \<open>a vector is indexed outside its size\<close>
  | BadCast          \<comment> \<open>\<open>static_pointer_cast\<close> to a class the object does not have\<close>
  | NoReturn         \<comment> \<open>a loop that never ends\<close>

definition bindE :: "error + 'a \<Rightarrow> ('a \<Rightarrow> error + 'b) \<Rightarrow> error + 'b" where
  "bindE m f = (case m of Inl e \<Rightarrow> Inl e | Inr x \<Rightarrow> f x)"

lemma bindE_simps [simp]:
  "bindE (Inl e) f = Inl e"
  "bindE (Inr x) f = f x"
  by (simp_all add: bindE_def)

lemma bindE_assoc: "bindE (bindE m f) g = bindE m (\<lambda>x. bindE (f x) g)"
  by (simp add: bindE_def split: sum.splits)

lemma bindE_Inr_iff: "bindE m f = Inr y \<longleftrightarrow> (\<exists>x. m = Inr x \<and> f x = Inr y)"
  by (simp add: bindE_def split: sum.splits)

lemma bindE_cong [fundef_cong]:
  "m = m' \<Longrightarrow> (\<And>x. m' = Inr x \<Longrightarrow> f x = f' x) \<Longrightarrow> bindE m f = bindE m' f'"
  by (simp add: bindE_def split: sum.splits)

text \<open>A range-based \<open>for\<close> loop whose body updates a state and may fail.\<close>

fun foldE :: "('a \<Rightarrow> 's \<Rightarrow> error + 's) \<Rightarrow> 'a list \<Rightarrow> 's \<Rightarrow> error + 's" where
  "foldE f [] s = Inr s"
| "foldE f (x # xs) s = bindE (f x s) (foldE f xs)"

lemma foldE_append: "foldE f (xs @ ys) s = bindE (foldE f xs s) (foldE f ys)"
proof (induction xs arbitrary: s)
  case Nil
  show ?case by simp
next
  case (Cons x xs)
  then have "foldE f (xs @ ys) = (\<lambda>t. bindE (foldE f xs t) (foldE f ys))" by auto
  then show ?case by (simp add: bindE_assoc)
qed

lemma foldE_cong [fundef_cong]:
  "xs = ys \<Longrightarrow> s = t \<Longrightarrow> (\<And>x u. x \<in> set ys \<Longrightarrow> f x u = g x u) \<Longrightarrow> foldE f xs s = foldE g ys t"
proof (induction ys arbitrary: xs s t)
  case Nil
  then show ?case by simp
next
  case (Cons y ys)
  then have "bindE (g y t) (foldE f ys) = bindE (g y t) (foldE g ys)"
    by (intro bindE_cong) auto
  with Cons.prems show ?case by simp
qed

definition okE :: "('a \<Rightarrow> bool) \<Rightarrow> error + 'a \<Rightarrow> bool" where
  "okE P m \<longleftrightarrow> (case m of Inl _ \<Rightarrow> False | Inr x \<Rightarrow> P x)"

lemma okE_simps [simp]:
  "okE P (Inr x) = P x"
  "okE P (Inl e) = False"
  by (simp_all add: okE_def)

lemma okE_iff: "okE P m \<longleftrightarrow> (\<exists>x. m = Inr x \<and> P x)"
  by (simp add: okE_def split: sum.splits)

lemma okE_bind [okE_rules]:
  "okE Q m \<Longrightarrow> (\<And>x. Q x \<Longrightarrow> okE P (f x)) \<Longrightarrow> okE P (bindE m f)"
  by (auto simp: okE_iff)

lemma okE_mono: "okE P m \<Longrightarrow> (\<And>x. P x \<Longrightarrow> Q x) \<Longrightarrow> okE Q m"
  by (auto simp: okE_iff)

lemma okE_conj: "okE P m \<Longrightarrow> okE Q m \<Longrightarrow> okE (\<lambda>x. P x \<and> Q x) m"
  by (auto simp: okE_iff)

lemma okE_foldE:
  assumes "P s" and "\<And>x s. x \<in> set xs \<Longrightarrow> P s \<Longrightarrow> okE P (f x s)"
  shows "okE P (foldE f xs s)"
  using assms
proof (induction xs arbitrary: s)
  case Nil
  then show ?case by simp
next
  case (Cons x xs)
  then have "okE P (f x s)" by simp
  then show ?case using Cons by (auto intro!: okE_bind [where Q = P])
qed

text \<open>Partial correctness: a property of the state after a computation, if it returns normally.\<close>

definition retE :: "('a \<Rightarrow> bool) \<Rightarrow> error + 'a \<Rightarrow> bool" where
  "retE P m \<longleftrightarrow> (case m of Inl _ \<Rightarrow> True | Inr x \<Rightarrow> P x)"

lemma retE_simps [simp]:
  "retE P (Inr x) = P x"
  "retE P (Inl e) = True"
  by (simp_all add: retE_def)

lemma retE_iff: "retE P m \<longleftrightarrow> (\<forall>x. m = Inr x \<longrightarrow> P x)"
  by (simp add: retE_def split: sum.splits)

lemma retE_bind: "retE Q m \<Longrightarrow> (\<And>x. Q x \<Longrightarrow> retE P (f x)) \<Longrightarrow> retE P (bindE m f)"
  by (auto simp: retE_iff bindE_Inr_iff)

lemma retE_skip: "(\<And>x. m = Inr x \<Longrightarrow> retE P (f x)) \<Longrightarrow> retE P (bindE m f)"
  by (cases m) simp_all

lemma retE_mono: "retE P m \<Longrightarrow> (\<And>x. P x \<Longrightarrow> Q x) \<Longrightarrow> retE Q m"
  by (auto simp: retE_iff)

lemma retE_foldE:
  assumes "P s" and "\<And>x s. x \<in> set xs \<Longrightarrow> P s \<Longrightarrow> retE P (f x s)"
  shows "retE P (foldE f xs s)"
  using assms
proof (induction xs arbitrary: s)
  case Nil
  then show ?case by simp
next
  case (Cons x xs)
  then have "retE P (f x s)" by simp
  then show ?case using Cons by (auto intro!: retE_bind [where Q = P])
qed

lemma okE_retE: "okE P m \<Longrightarrow> retE Q m \<Longrightarrow> okE (\<lambda>x. P x \<and> Q x) m"
  by (auto simp: okE_iff retE_iff)

text \<open>Reading \<open>v[i]\<close> of a \<open>std::vector\<close> at an index that is not a constant.\<close>

definition atE :: "'a list \<Rightarrow> int \<Rightarrow> error + 'a" where
  "atE xs i = (if 0 \<le> i \<and> i < int (length xs) then Inr (xs ! nat i) else Inl OutOfRange)"

lemma atE_ok [simp]: "0 \<le> i \<Longrightarrow> i < int (length xs) \<Longrightarrow> atE xs i = Inr (xs ! nat i)"
  by (simp add: atE_def)

definition derefE :: "'a option \<Rightarrow> error + 'a" where
  "derefE p = (case p of None \<Rightarrow> Inl NullDeref | Some x \<Rightarrow> Inr x)"

lemma derefE_simps [simp]:
  "derefE None = Inl NullDeref"
  "derefE (Some x) = Inr x"
  by (simp_all add: derefE_def)

subsection \<open>Integers of fixed width\<close>

definition to_int32 :: "int \<Rightarrow> int" where
  "to_int32 x = (x + 2 ^ 31) mod 2 ^ 32 - 2 ^ 31"

definition to_int64 :: "int \<Rightarrow> int" where
  "to_int64 x = (x + 2 ^ 63) mod 2 ^ 64 - 2 ^ 63"

definition to_uint64 :: "int \<Rightarrow> int" where
  "to_uint64 x = x mod 2 ^ 64"

definition in_int32 :: "int \<Rightarrow> bool" where
  "in_int32 x \<longleftrightarrow> - (2 ^ 31) \<le> x \<and> x < 2 ^ 31"

definition in_int64 :: "int \<Rightarrow> bool" where
  "in_int64 x \<longleftrightarrow> - (2 ^ 63) \<le> x \<and> x < 2 ^ 63"

lemma to_int32_id: "in_int32 x \<Longrightarrow> to_int32 x = x"
  by (simp add: to_int32_def in_int32_def)

lemma to_int64_id: "in_int64 x \<Longrightarrow> to_int64 x = x"
  by (simp add: to_int64_def in_int64_def)

lemma in_int32_to_int32: "in_int32 (to_int32 x)"
proof -
  have "0 \<le> (x + 2 ^ 31) mod 2 ^ 32" and "(x + 2 ^ 31) mod 2 ^ 32 < 2 ^ 32" by simp_all
  then show ?thesis unfolding to_int32_def in_int32_def by simp
qed

lemma in_int64_to_int64: "in_int64 (to_int64 x)"
proof -
  have "0 \<le> (x + 2 ^ 63) mod 2 ^ 64" and "(x + 2 ^ 63) mod 2 ^ 64 < 2 ^ 64" by simp_all
  then show ?thesis unfolding to_int64_def in_int64_def by simp
qed

lemma to_int32_eq_iff: "to_int32 x = x \<longleftrightarrow> in_int32 x"
  using in_int32_to_int32 [of x] to_int32_id [of x] by auto

subsection \<open>Maps from keys to possibly null pointers\<close>

text \<open>
  A \<open>std::unordered_map\<close> is an association list with distinct keys; the order of the list is the
  order of iteration. \<open>m[k] = v\<close> is \<open>AList.update\<close>. Reading \<open>m[k]\<close> of a map to
  \<open>shared_ptr\<close> inserts a null pointer when the key is absent: \<open>ptrAt\<close> is the pointer that
  is read, \<open>touch\<close> the map afterwards.
\<close>

definition ptrAt :: "('k \<times> 'v option) list \<Rightarrow> 'k \<Rightarrow> 'v option" where
  "ptrAt m k = (case map_of m k of None \<Rightarrow> None | Some p \<Rightarrow> p)"

definition touch :: "'k \<Rightarrow> ('k \<times> 'v option) list \<Rightarrow> ('k \<times> 'v option) list" where
  "touch k m = (case map_of m k of None \<Rightarrow> AList.update k None m | Some _ \<Rightarrow> m)"

lemma map_of_touch: "map_of (touch k m) = (case map_of m k of None \<Rightarrow> (map_of m)(k \<mapsto> None) | Some _ \<Rightarrow> map_of m)"
  by (simp add: touch_def update_conv' split: option.splits)

lemma touch_id: "map_of m k \<noteq> None \<Longrightarrow> touch k m = m"
  by (auto simp: touch_def)

lemma ptrAt_touch [simp]: "ptrAt (touch k m) = ptrAt m"
  by (auto simp: ptrAt_def map_of_touch fun_eq_iff split: option.splits)

lemma ptrAt_update [simp]: "ptrAt (AList.update k p m) = (ptrAt m)(k := p)"
  by (auto simp: ptrAt_def update_conv' fun_eq_iff)

lemma ptrAt_SomeD: "ptrAt m k = Some v \<Longrightarrow> map_of m k = Some (Some v)"
  by (simp add: ptrAt_def split: option.splits)

lemma ptrAt_Some_touch: "ptrAt m k = Some v \<Longrightarrow> touch k m = m"
  by (auto dest: ptrAt_SomeD intro: touch_id)

lemma distinct_touch [simp]: "distinct (map fst m) \<Longrightarrow> distinct (map fst (touch k m))"
  by (auto simp: touch_def distinct_update split: option.splits)

lemma set_keys_update [simp]: "set (map fst (AList.update k v m)) = insert k (set (map fst m))"
  using dom_update [of k v m] by auto

lemma set_alist_update: "set (AList.update k v m) \<subseteq> insert (k, v) (set m)"
  by (induction m) auto

lemma keys_update_same: "k \<in> fst ` set m \<Longrightarrow> map fst (AList.update k v m) = map fst m"
  by (simp add: update_keys)

lemma map_of_keys: "map_of m k \<noteq> None \<longleftrightarrow> k \<in> fst ` set m"
  by (metis map_of_eq_None_iff)

subsection \<open>Lists\<close>

text \<open>The loop that erases the first element with a property and stops.\<close>

fun eraseFirst :: "('a \<Rightarrow> bool) \<Rightarrow> 'a list \<Rightarrow> 'a list" where
  "eraseFirst P [] = []"
| "eraseFirst P (x # xs) = (if P x then xs else x # eraseFirst P xs)"

lemma eraseFirst_None: "\<not> list_ex P xs \<Longrightarrow> eraseFirst P xs = xs"
  by (induction xs) auto

lemma set_eraseFirst: "set (eraseFirst P xs) \<subseteq> set xs"
  by (induction xs) auto

lemma eraseFirst_split:
  assumes "list_ex P xs"
  obtains ys x zs where "xs = ys @ x # zs" and "P x" and "\<forall>y\<in>set ys. \<not> P y"
    and "eraseFirst P xs = ys @ zs"
proof -
  have "\<exists>ys x zs. xs = ys @ x # zs \<and> P x \<and> (\<forall>y\<in>set ys. \<not> P y) \<and> eraseFirst P xs = ys @ zs"
    using assms
  proof (induction xs)
    case Nil
    then show ?case by simp
  next
    case (Cons a xs)
    show ?case
    proof (cases "P a")
      case True
      then show ?thesis by (intro exI [of _ "[]"]) auto
    next
      case False
      with Cons obtain ys x zs where "xs = ys @ x # zs" "P x" "\<forall>y\<in>set ys. \<not> P y"
        "eraseFirst P xs = ys @ zs" by auto
      with False show ?thesis by (intro exI [of _ "a # ys"]) auto
    qed
  qed
  then show thesis using that by blast
qed

lemma length_filter_eraseFirst:
  assumes "list_ex P xs" and "\<And>x. x \<in> set xs \<Longrightarrow> P x \<Longrightarrow> Q x = b"
  shows "length (filter Q (eraseFirst P xs)) + (if b then 1 else 0) = length (filter Q xs)"
proof -
  obtain ys x zs where "xs = ys @ x # zs" "P x" "eraseFirst P xs = ys @ zs"
    using assms(1) by (rule eraseFirst_split)
  moreover from this assms(2) have "Q x = b" by auto
  ultimately show ?thesis by auto
qed

lemma nth_update_cases: "i < length xs \<Longrightarrow> xs[i := v] ! j = (if i = j then v else xs ! j)"
  by simp

end
