(* ===== verification/SocperfCommon.thy ===== *)
theory SocperfCommon
  imports Prelude "HOL-Library.Char_ord"
begin

text \<open>
  The data and helpers of \<open>services/core/include/socperf_common.h\<close>: the resource nodes, scenes,
  boost actions, resource actions and resource statuses of the service, \<open>Max\<close>/\<open>Min\<close> and
  the range checks, with what \<open>Max\<close>/\<open>Min\<close> compute. The string helpers of the same file are in theory
  \<open>CommonStrings\<close>.
\<close>

subsection \<open>Constants\<close>

abbreviation (input) MAX_INT_VALUE :: int where "MAX_INT_VALUE \<equiv> 9223372036854775807"
abbreviation (input) MIN_INT_VALUE :: int where "MIN_INT_VALUE \<equiv> - 9223372036854775808"
abbreviation (input) MAX_INT32_VALUE :: int where "MAX_INT32_VALUE \<equiv> 2147483647"
abbreviation (input) INVALID_VALUE :: int where "INVALID_VALUE \<equiv> - 2147483648"
abbreviation (input) RESET_VALUE :: int where "RESET_VALUE \<equiv> - 1"
abbreviation (input) MIN_RESOURCE_ID :: int where "MIN_RESOURCE_ID \<equiv> 1000"
abbreviation (input) MAX_RESOURCE_ID :: int where "MAX_RESOURCE_ID \<equiv> 5999"
abbreviation (input) RES_ID_ADDITION :: int where "RES_ID_ADDITION \<equiv> 10000"
abbreviation (input) WRITE_NODE :: int where "WRITE_NODE \<equiv> 0"
abbreviation (input) REPORT_TO_PERFSO :: int where "REPORT_TO_PERFSO \<equiv> 1"
abbreviation (input) PERF_OPEN_TRACE :: int where "PERF_OPEN_TRACE \<equiv> 1"
abbreviation (input) INVALID_THERMAL_CMD_ID :: int where "INVALID_THERMAL_CMD_ID \<equiv> - 1"
abbreviation (input) INVALID_DURATION :: int where "INVALID_DURATION \<equiv> - 1"
abbreviation (input) INVALID_THERMAL_LVL :: int where "INVALID_THERMAL_LVL \<equiv> - 1"
abbreviation (input) DEFAULT_THERMAL_LVL :: int where "DEFAULT_THERMAL_LVL \<equiv> 0"
abbreviation (input) MAX_RES_MODE_LEN :: nat where "MAX_RES_MODE_LEN \<equiv> 64"
abbreviation (input) MAX_FREQUE_NODE :: int where "MAX_FREQUE_NODE \<equiv> 1"
abbreviation (input) NODE_DEFAULT_VALUE :: int where "NODE_DEFAULT_VALUE \<equiv> - 1"
abbreviation (input) DEFAULT_CONFIG_MODE :: string where "DEFAULT_CONFIG_MODE \<equiv> ''default''"

text \<open>\<open>enum ActionType : uint32_t\<close>; the fields that hold it are \<open>int32_t\<close>.\<close>

abbreviation (input) ACTION_TYPE_PERF :: int where "ACTION_TYPE_PERF \<equiv> 0"
abbreviation (input) ACTION_TYPE_POWER :: int where "ACTION_TYPE_POWER \<equiv> 1"
abbreviation (input) ACTION_TYPE_THERMAL :: int where "ACTION_TYPE_THERMAL \<equiv> 2"
abbreviation (input) ACTION_TYPE_PERFLVL :: int where "ACTION_TYPE_PERFLVL \<equiv> 3"
abbreviation (input) ACTION_TYPE_BATTERY :: int where "ACTION_TYPE_BATTERY \<equiv> 4"
abbreviation (input) ACTION_TYPE_MAX :: int where "ACTION_TYPE_MAX \<equiv> 5"

subsection \<open>Enumerations\<close>

text \<open>\<open>enum EventType\<close>: every \<open>onOff\<close> of the program is one of the three enumerators.\<close>

datatype EventType = EVENT_INVALID | EVENT_OFF | EVENT_ON

fun EventType_value :: "EventType \<Rightarrow> int" where
  "EventType_value EVENT_INVALID = - 1"
| "EventType_value EVENT_OFF = 0"
| "EventType_value EVENT_ON = 1"

text \<open>Enumerators compare as the integers they stand for.\<close>

instantiation EventType :: linorder
begin

definition less_eq_EventType :: "EventType \<Rightarrow> EventType \<Rightarrow> bool" where
  "less_eq_EventType a b \<longleftrightarrow> EventType_value a \<le> EventType_value b"

definition less_EventType :: "EventType \<Rightarrow> EventType \<Rightarrow> bool" where
  "less_EventType a b \<longleftrightarrow> EventType_value a < EventType_value b"

instance
proof
  fix x y z :: EventType
  show "(x < y) = (x \<le> y \<and> \<not> y \<le> x)" "x \<le> x" "x \<le> y \<or> y \<le> x"
    by (auto simp: less_eq_EventType_def less_EventType_def)
  show "x \<le> y \<Longrightarrow> y \<le> z \<Longrightarrow> x \<le> z"
    by (simp add: less_eq_EventType_def)
  show "x \<le> y \<Longrightarrow> y \<le> x \<Longrightarrow> x = y"
    by (cases x; cases y) (simp_all add: less_eq_EventType_def)
qed

end

datatype InterActionStatus = BOOST_STATUS | BOOST_END_STATUS | WEAK_INTERACTION_STATUS

subsection \<open>Resource nodes\<close>

text \<open>
  \<open>ResourceNode\<close> with its two subclasses: \<open>rn_class\<close> holds the fields of the subclass the
  object was constructed as.
\<close>

datatype NodeClass =
    ResNode string int                                  \<comment> \<open>\<open>path\<close>, \<open>pair\<close>\<close>
  | GovResNode "string list" "(int \<times> string list) list" \<comment> \<open>\<open>paths\<close>, \<open>levelToStr\<close>\<close>

record ResourceNode =
  rn_id :: int
  rn_name :: string
  rn_def :: int
  rn_available :: "int list"
  rn_persistMode :: int
  rn_isGov :: bool
  rn_isMaxValue :: bool
  rn_trace :: bool
  rn_class :: NodeClass

definition new_ResNode :: "int \<Rightarrow> string \<Rightarrow> int \<Rightarrow> int \<Rightarrow> int \<Rightarrow> ResourceNode" where
  "new_ResNode resId resName resMode resPair resPersistMode =
     \<lparr>rn_id = resId, rn_name = resName, rn_def = INVALID_VALUE, rn_available = [],
      rn_persistMode = resPersistMode, rn_isGov = False, rn_isMaxValue = (resMode = MAX_FREQUE_NODE),
      rn_trace = False, rn_class = ResNode [] resPair\<rparr>"

definition new_GovResNode :: "int \<Rightarrow> string \<Rightarrow> int \<Rightarrow> ResourceNode" where
  "new_GovResNode govResId govResName govPersistMode =
     \<lparr>rn_id = govResId, rn_name = govResName, rn_def = INVALID_VALUE, rn_available = [],
      rn_persistMode = govPersistMode, rn_isGov = True, rn_isMaxValue = False,
      rn_trace = False, rn_class = GovResNode [] []\<rparr>"

text \<open>\<open>std::static_pointer_cast<ResNode>(node)->pair\<close>\<close>

definition castPair :: "ResourceNode \<Rightarrow> error + int" where
  "castPair n = (case rn_class n of ResNode _ pair \<Rightarrow> Inr pair | GovResNode _ _ \<Rightarrow> Inl BadCast)"

subsection \<open>Scenes, commands and actions\<close>

record SceneItem =
  si_name :: string
  si_req :: int

record SceneResNode =
  sr_name :: string
  sr_persistMode :: int
  sr_items :: "SceneItem list"

record ModeMap =
  mm_mode :: string
  mm_cmdId :: int

record Action =
  ac_thermalCmdId :: int
  ac_thermalLvl :: int
  ac_duration :: int
  ac_variable :: "int list"

definition new_Action :: Action where
  "new_Action = \<lparr>ac_thermalCmdId = INVALID_THERMAL_CMD_ID, ac_thermalLvl = INVALID_THERMAL_LVL,
     ac_duration = INVALID_DURATION, ac_variable = []\<rparr>"

record Actions =
  as_id :: int
  as_name :: string
  as_actionList :: "Action list"
  as_modeMap :: "ModeMap list"
  as_isLongTimePerf :: bool
  as_interaction :: bool

definition new_Actions :: "int \<Rightarrow> string \<Rightarrow> Actions" where
  "new_Actions cmdId cmdName = \<lparr>as_id = cmdId, as_name = cmdName, as_actionList = [], as_modeMap = [],
     as_isLongTimePerf = False, as_interaction = True\<rparr>"

text \<open>
  The loop \<open>for (i = 0; i < size - 1; i += RES_ID_AND_VALUE_PAIR)\<close> reads \<open>variable[i]\<close> and
  \<open>variable[i + 1]\<close>: consecutive pairs, an odd last element is not read.
\<close>

fun varPairs :: "int list \<Rightarrow> (int \<times> int) list" where
  "varPairs (r # v # rest) = (r, v) # varPairs rest"
| "varPairs _ = []"

subsection \<open>Resource actions and their items\<close>

text \<open>\<open>ra_ref\<close> is the identity of the object (the address \<open>shared_ptr\<close>s compare).\<close>

record ResAction =
  ra_ref :: nat
  ra_value :: int
  ra_duration :: int
  ra_type :: int
  ra_onOff :: EventType
  ra_cmdId :: int
  ra_endTime :: int
  ra_interaction :: bool

definition new_ResAction :: "nat \<Rightarrow> int \<Rightarrow> int \<Rightarrow> int \<Rightarrow> EventType \<Rightarrow> int \<Rightarrow> int \<Rightarrow> ResAction" where
  "new_ResAction ref resActionValue resActionDuration resActionType resActionOnOff resActionCmdId
     resActionEndTime =
     \<lparr>ra_ref = ref, ra_value = resActionValue, ra_duration = resActionDuration,
      ra_type = resActionType, ra_onOff = resActionOnOff, ra_cmdId = resActionCmdId,
      ra_endTime = resActionEndTime, ra_interaction = (resActionType = ACTION_TYPE_PERF)\<rparr>"

definition TotalSame :: "ResAction \<Rightarrow> ResAction \<Rightarrow> bool" where
  "TotalSame a resAction \<longleftrightarrow> ra_value a = ra_value resAction \<and> ra_duration a = ra_duration resAction
     \<and> ra_type a = ra_type resAction \<and> ra_onOff a = ra_onOff resAction
     \<and> ra_cmdId a = ra_cmdId resAction"

definition PartSame :: "ResAction \<Rightarrow> ResAction \<Rightarrow> bool" where
  "PartSame a resAction \<longleftrightarrow> ra_value a = ra_value resAction \<and> ra_duration a = ra_duration resAction
     \<and> ra_type a = ra_type resAction \<and> ra_cmdId a = ra_cmdId resAction"

text \<open>A chain of \<open>ResActionItem\<close>s linked by \<open>next\<close> is the list of its items.\<close>

record ResActionItem =
  it_resId :: int
  it_resAction :: ResAction

record ResStatus =
  rs_resActionList :: "ResAction list list"
  rs_candidatesValue :: "int list"
  rs_candidatesEndTime :: "int list"
  rs_candidate :: int
  rs_currentValue :: int
  rs_previousValue :: int
  rs_currentEndTime :: int
  rs_previousEndTime :: int

definition new_ResStatus :: ResStatus where
  "new_ResStatus =
     \<lparr>rs_resActionList = [[], [], [], [], []],
      rs_candidatesValue = [INVALID_VALUE, INVALID_VALUE, INVALID_VALUE, INVALID_VALUE, 0],
      rs_candidatesEndTime = [MAX_INT_VALUE, MAX_INT_VALUE, MAX_INT_VALUE, MAX_INT_VALUE, 0],
      rs_candidate = NODE_DEFAULT_VALUE, rs_currentValue = NODE_DEFAULT_VALUE,
      rs_previousValue = NODE_DEFAULT_VALUE, rs_currentEndTime = MAX_INT_VALUE,
      rs_previousEndTime = MAX_INT_VALUE\<rparr>"

text \<open>\<open>timerTask\<close> is the handle of the pending task, if any.\<close>

record InterAction =
  ia_cmdId :: int
  ia_actionType :: int
  ia_delayTime :: int
  ia_status :: InterActionStatus
  ia_timerTask :: "nat option"

definition new_InterAction :: "int \<Rightarrow> int \<Rightarrow> int \<Rightarrow> InterAction" where
  "new_InterAction cmdid actiontype delaytime =
     \<lparr>ia_cmdId = cmdid, ia_actionType = actiontype, ia_delayTime = delaytime,
      ia_status = BOOST_STATUS, ia_timerTask = None\<rparr>"

subsection \<open>Max, Min and range checks\<close>

definition Max64 :: "int \<Rightarrow> int \<Rightarrow> int" where
  "Max64 num1 num2 = (if num1 \<ge> num2 then num1 else num2)"

definition Max64_3 :: "int \<Rightarrow> int \<Rightarrow> int \<Rightarrow> int" where
  "Max64_3 num1 num2 num3 = Max64 (Max64 num1 num2) num3"

definition Min64 :: "int \<Rightarrow> int \<Rightarrow> int" where
  "Min64 num1 num2 = (if num1 \<le> num2 then num1 else num2)"

definition Min64_3 :: "int \<Rightarrow> int \<Rightarrow> int \<Rightarrow> int" where
  "Min64_3 num1 num2 num3 = Min64 (Min64 num1 num2) num3"

lemma Max64_max [simp]: "Max64 a b = max a b"
  by (simp add: Max64_def max_def)

lemma Min64_min [simp]: "Min64 a b = min a b"
  by (simp add: Min64_def min_def)

lemma Max64_3_max [simp]: "Max64_3 a b c = max (max a b) c"
  by (simp add: Max64_3_def)

lemma Min64_3_min [simp]: "Min64_3 a b c = min (min a b) c"
  by (simp add: Min64_3_def)

definition IsValidRangeResId :: "int \<Rightarrow> bool" where
  "IsValidRangeResId i = (if i < MIN_RESOURCE_ID \<or> i > MAX_RESOURCE_ID then False else True)"

definition IsValidPersistMode :: "int \<Rightarrow> bool" where
  "IsValidPersistMode persistMode =
     (if persistMode \<noteq> WRITE_NODE \<and> persistMode \<noteq> REPORT_TO_PERFSO then False else True)"

end
