(* ===== verification/ConfigState.thy ===== *)
theory ConfigState
  imports SocperfCommon
begin

text \<open>
  The state of the singleton \<open>SocPerfConfig\<close> (\<open>socperf_config.h\<close>) and the lookups the other
  components make in it. The records of \<open>SocPerfThreadWrap\<close> and of \<open>SocPerf\<close> extend this record:
  both classes hold a reference to the one instance. \<open>reportFunc\<close>, \<open>scenarioFunc\<close> and
  \<open>g_handle\<close> hold the symbol or library they were resolved from, \<open>None\<close> being the null pointer.
\<close>

record SocPerfConfig =
  reportFunc :: "string option"
  scenarioFunc :: "string option"
  resourceNodeInfo :: "(int \<times> ResourceNode option) list"
  sceneResourceInfo :: "(string \<times> SceneResNode) list"
  configPerfActionsInfo :: "(string \<times> (int \<times> Actions option) list) list"
  interAction :: "InterAction list"
  minThermalLvl :: int
  g_resStrToIdInfo :: "(string \<times> int) list"
  g_handle :: "string option"

definition new_SocPerfConfig :: SocPerfConfig where
  "new_SocPerfConfig =
     \<lparr>reportFunc = None, scenarioFunc = None, resourceNodeInfo = [], sceneResourceInfo = [],
      configPerfActionsInfo = [], interAction = [], minThermalLvl = INVALID_THERMAL_LVL,
      g_resStrToIdInfo = [], g_handle = None\<rparr>"

definition IsGovResId :: "int \<Rightarrow> 'a SocPerfConfig_scheme \<Rightarrow> error + bool" where
  "IsGovResId resId s = (case map_of (resourceNodeInfo s) resId of
       None \<Rightarrow> Inr False
     | Some p \<Rightarrow> bindE (derefE p) (\<lambda>n. Inr (rn_isGov n)))"

definition IsValidResId :: "int \<Rightarrow> 'a SocPerfConfig_scheme \<Rightarrow> bool" where
  "IsValidResId resId s = (if map_of (resourceNodeInfo s) resId = None then False else True)"

text \<open>\<open>resourceNodeInfo_[resId]\<close>: the pointer read, and the map after the read.\<close>

definition nodeAt :: "int \<Rightarrow> 'a SocPerfConfig_scheme \<Rightarrow> ResourceNode option" where
  "nodeAt resId s = ptrAt (resourceNodeInfo s) resId"

definition touchNode :: "int \<Rightarrow> 'a SocPerfConfig_scheme \<Rightarrow> 'a SocPerfConfig_scheme" where
  "touchNode resId s = s\<lparr>resourceNodeInfo := touch resId (resourceNodeInfo s)\<rparr>"

text \<open>\<open>configPerfActionsInfo_[mode]\<close> and \<open>configPerfActionsInfo_[mode][cmdId]\<close>.\<close>

definition modeActions :: "string \<Rightarrow> 'a SocPerfConfig_scheme \<Rightarrow> (int \<times> Actions option) list" where
  "modeActions mode s = (case map_of (configPerfActionsInfo s) mode of None \<Rightarrow> [] | Some m \<Rightarrow> m)"

definition touchMode :: "string \<Rightarrow> 'a SocPerfConfig_scheme \<Rightarrow> 'a SocPerfConfig_scheme" where
  "touchMode mode s =
     s\<lparr>configPerfActionsInfo := AList.update mode (modeActions mode s) (configPerfActionsInfo s)\<rparr>"

definition actionsAt :: "string \<Rightarrow> int \<Rightarrow> 'a SocPerfConfig_scheme \<Rightarrow> Actions option" where
  "actionsAt mode cmdId s = ptrAt (modeActions mode s) cmdId"

definition touchActions :: "string \<Rightarrow> int \<Rightarrow> 'a SocPerfConfig_scheme \<Rightarrow> 'a SocPerfConfig_scheme" where
  "touchActions mode cmdId s =
     s\<lparr>configPerfActionsInfo :=
         AList.update mode (touch cmdId (modeActions mode s)) (configPerfActionsInfo s)\<rparr>"

subsection \<open>Well-formed resource tables\<close>

text \<open>
  What the loader establishes of \<open>resourceNodeInfo\<close> and every later use relies on: no null entry,
  \<open>isGov\<close> tells the class of the object, and every pair is a key of the table.
\<close>

definition wf_node :: "int set \<Rightarrow> int \<Rightarrow> ResourceNode \<Rightarrow> bool" where
  "wf_node ks k n \<longleftrightarrow> rn_id n = k \<and>
     (case rn_class n of
        ResNode path pair \<Rightarrow> \<not> rn_isGov n \<and> (pair = INVALID_VALUE \<or> pair \<in> ks)
      | GovResNode paths lv \<Rightarrow> rn_isGov n)"

definition wf_nodes :: "'a SocPerfConfig_scheme \<Rightarrow> bool" where
  "wf_nodes s \<longleftrightarrow> distinct (map fst (resourceNodeInfo s)) \<and>
     (\<forall>(k, p)\<in>set (resourceNodeInfo s).
        \<exists>n. p = Some n \<and> wf_node (fst ` set (resourceNodeInfo s)) k n)"

abbreviation resIds :: "'a SocPerfConfig_scheme \<Rightarrow> int set" where
  "resIds s \<equiv> fst ` set (resourceNodeInfo s)"

lemma IsValidResId_iff [simp]: "IsValidResId resId s \<longleftrightarrow> resId \<in> resIds s"
  by (simp add: IsValidResId_def map_of_eq_None_iff)

lemma wf_nodesD:
  assumes "wf_nodes s" and "k \<in> resIds s"
  obtains n where "map_of (resourceNodeInfo s) k = Some (Some n)" and "wf_node (resIds s) k n"
proof -
  from assms(2) obtain p where p: "(k, p) \<in> set (resourceNodeInfo s)" by auto
  with assms(1) obtain n where "p = Some n" "wf_node (resIds s) k n"
    by (auto simp: wf_nodes_def)
  moreover from p assms(1) have "map_of (resourceNodeInfo s) k = Some p"
    by (auto simp: wf_nodes_def intro: map_of_is_SomeI)
  ultimately show thesis using that by blast
qed

lemma touchNode_id: "k \<in> resIds s \<Longrightarrow> touchNode k s = s"
  by (metis SocPerfConfig.surjective SocPerfConfig.update_convs(3) map_of_keys touchNode_def touch_id)

lemma touchNode_frame [frame_simps]:
  "configPerfActionsInfo (touchNode k s) = configPerfActionsInfo s"
  "interAction (touchNode k s) = interAction s"
  by (simp_all add: touchNode_def)

lemma touchActions_frame [simp]:
  "resourceNodeInfo (touchActions m k s) = resourceNodeInfo s"
  "interAction (touchActions m k s) = interAction s"
  "SocPerfConfig.more (touchActions m k s) = SocPerfConfig.more s"
  by (simp_all add: touchActions_def)

lemma touchActions_id:
  assumes "map_of (modeActions mode s) cmdId \<noteq> None"
  shows "touchActions mode cmdId s = s"
proof -
  from assms have "map_of (configPerfActionsInfo s) mode = Some (modeActions mode s)"
    by (auto simp: modeActions_def split: option.splits)
  then have "AList.update mode (modeActions mode s) (configPerfActionsInfo s) = configPerfActionsInfo s"
    by (rule update_triv)
  with assms show ?thesis by (simp add: touchActions_def touch_id)
qed

end
