(* ===== verification/ThreadWrap.thy ===== *)
theory ThreadWrap
  imports ConfigState
begin

text \<open>
  The state of \<open>SocPerfThreadWrap\<close> and its operations on resources
  (\<open>services/core/src/socperf_thread_wrap.cpp\<close>): the list of live actions of a resource, the
  candidate per action type, the arbitration between the types, the arbitration with the paired
  resource. The definitions keep the order of the code from the innermost call outwards; an operation
  that can dereference a pointer or index a vector returns \<open>error + state\<close>.
\<close>

subsection \<open>State\<close>

datatype SocPerfInnerEvent =
    INNER_EVENT_ID_INIT_RESOURCE_NODE_INFO
  | INNER_EVENT_ID_DO_FREQ_ACTION
  | INNER_EVENT_ID_DO_FREQ_ACTION_PACK
  | INNER_EVENT_ID_DO_FREQ_ACTION_DELAYED
  | INNER_EVENT_ID_POWER_LIMIT_BOOST_FREQ
  | INNER_EVENT_ID_THERMAL_LIMIT_BOOST_FREQ
  | INNER_EVENT_ID_DO_FREQ_ACTION_LEVEL
  | INNER_EVENT_ID_CLEAR_ALL_ALIVE_REQUEST

text \<open>
  The closures submitted to \<open>socperfQueue_\<close>, one constructor per \<open>std::function\<close> of the code
  with the values it captures; \<open>TaskStatistics\<close> is the \<open>reportFunc\<close> that \<open>SocPerf\<close>
  submits.
\<close>

datatype Task =
    TaskInitResourceNodeInfo
  | TaskDoFreqActionPack "ResActionItem list"
  | TaskPowerLimitBoost bool
  | TaskThermalLimitBoost bool
  | TaskUpdateLimitStatus SocPerfInnerEvent ResAction int
  | TaskClearAllAliveRequest
  | TaskPerformanceMode bool
  | TaskWeakInteractionStatus bool
  | TaskWeakInteractionTimer nat
  | TaskPostDelay "ResActionItem list"
  | TaskStatistics

record QueueEntry =
  qe_handle :: nat
  qe_delay :: int
  qe_task :: Task

text \<open>
  What leaves the process: the arrays handed to \<open>reportFunc_\<close> (id, value, end time) and the
  payload sent to the executor (id, value).
\<close>

datatype Report =
    ReportPerfSo "(int \<times> int \<times> int) list"
  | ReportRssExe "(int \<times> int) list"

text \<open>
  \<open>nextRef\<close> and \<open>nextHandle\<close> number the \<open>ResAction\<close>s allocated and the tasks submitted;
  \<open>reports\<close> is the history of what was sent.
\<close>

record SocPerfThreadWrap = SocPerfConfig +
  wrapThermalLvl :: int
  resStatusInfo :: "(int \<times> ResStatus option) list"
  socperfQueue :: "QueueEntry list"
  powerLimitBoost :: bool
  thermalLimitBoost :: bool
  weakInteractionStatus :: bool
  performanceModeStatus :: bool
  boostResCnt :: int
  nextRef :: nat
  nextHandle :: nat
  reports :: "Report list"

text \<open>\<open>resStatusInfo_[resId]\<close>: the pointer read, and the state after the read.\<close>

definition statusAt :: "int \<Rightarrow> 'a SocPerfThreadWrap_scheme \<Rightarrow> ResStatus option" where
  "statusAt resId s = ptrAt (resStatusInfo s) resId"

definition touchStatus :: "int \<Rightarrow> 'a SocPerfThreadWrap_scheme \<Rightarrow> 'a SocPerfThreadWrap_scheme" where
  "touchStatus resId s = s\<lparr>resStatusInfo := touch resId (resStatusInfo s)\<rparr>"

text \<open>The object that \<open>resStatusInfo_[resId]\<close> points to after an assignment to its fields.\<close>

definition setStatus :: "int \<Rightarrow> ResStatus \<Rightarrow> 'a SocPerfThreadWrap_scheme \<Rightarrow> 'a SocPerfThreadWrap_scheme" where
  "setStatus resId st s = s\<lparr>resStatusInfo := AList.update resId (Some st) (resStatusInfo s)\<rparr>"

text \<open>\<open>candidatesValue[type]\<close> and \<open>candidatesEndTime[type]\<close> at a constant index.\<close>

definition candVal :: "int \<Rightarrow> ResStatus \<Rightarrow> int" where
  "candVal type st = rs_candidatesValue st ! nat type"

definition candEnd :: "int \<Rightarrow> ResStatus \<Rightarrow> int" where
  "candEnd type st = rs_candidatesEndTime st ! nat type"

subsection \<open>Arbitration of a resource with its pair\<close>

definition UpdateCurrentValue ::
  "int \<Rightarrow> int \<Rightarrow> 'a SocPerfThreadWrap_scheme \<Rightarrow> 'a SocPerfThreadWrap_scheme" where
  "UpdateCurrentValue resId currValue s =
     (let s = touchStatus resId s in
      case statusAt resId s of
        None \<Rightarrow> s
      | Some st \<Rightarrow> setStatus resId (st\<lparr>rs_currentValue := currValue\<rparr>) s)"

definition UpdatePairResValue ::
  "int \<Rightarrow> int \<Rightarrow> int \<Rightarrow> int \<Rightarrow> 'a SocPerfThreadWrap_scheme \<Rightarrow> 'a SocPerfThreadWrap_scheme" where
  "UpdatePairResValue minResId minResValue maxResId maxResValue s =
     UpdateCurrentValue maxResId maxResValue (UpdateCurrentValue minResId minResValue s)"

definition ArbitratePairRes ::
  "int \<Rightarrow> bool \<Rightarrow> 'a SocPerfThreadWrap_scheme \<Rightarrow> error + 'a SocPerfThreadWrap_scheme" where
  "ArbitratePairRes resId perfRequestLimit s =
     (let limit = (powerLimitBoost s \<or> thermalLimitBoost s \<or> perfRequestLimit);
          s = touchStatus resId s in
      case statusAt resId s of
        None \<Rightarrow> Inr s
      | Some st \<Rightarrow>
          bindE (IsGovResId resId s) (\<lambda>gov.
          if gov then Inr (UpdateCurrentValue resId (rs_candidate st) s)
          else
            let s = touchNode resId s in
            bindE (derefE (nodeAt resId s)) (\<lambda>node.
            bindE (castPair node) (\<lambda>pairResId.
            if pairResId = INVALID_VALUE then Inr (UpdateCurrentValue resId (rs_candidate st) s)
            else
              let s = touchStatus pairResId s in
              case statusAt pairResId s of
                None \<Rightarrow> Inr s
              | Some pst \<Rightarrow>
                  if rs_candidate pst = NODE_DEFAULT_VALUE \<or> rs_candidate st = NODE_DEFAULT_VALUE then
                    Inr (UpdatePairResValue resId (rs_candidate st) pairResId (rs_candidate pst) s)
                  else if rn_isMaxValue node then
                    if rs_candidate st < rs_candidate pst then
                      if limit then
                        Inr (UpdatePairResValue pairResId (rs_candidate st) resId (rs_candidate st) s)
                      else
                        Inr (UpdatePairResValue pairResId (rs_candidate pst) resId (rs_candidate pst) s)
                    else
                      Inr (UpdatePairResValue pairResId (rs_candidate pst) resId (rs_candidate st) s)
                  else
                    if rs_candidate st > rs_candidate pst then
                      if limit then
                        Inr (UpdatePairResValue resId (rs_candidate pst) pairResId (rs_candidate pst) s)
                      else
                        Inr (UpdatePairResValue resId (rs_candidate st) pairResId (rs_candidate st) s)
                    else
                      Inr (UpdatePairResValue resId (rs_candidate st) pairResId (rs_candidate pst) s)))))"

subsection \<open>Arbitration between the action types\<close>

definition ExistNoCandidate ::
  "int \<Rightarrow> ResStatus \<Rightarrow> 'a SocPerfThreadWrap_scheme \<Rightarrow> error + (bool \<times> 'a SocPerfThreadWrap_scheme)" where
  "ExistNoCandidate resId resStatus s =
     (if candVal ACTION_TYPE_PERF resStatus = INVALID_VALUE
         \<and> candVal ACTION_TYPE_POWER resStatus = INVALID_VALUE
         \<and> candVal ACTION_TYPE_THERMAL resStatus = INVALID_VALUE
         \<and> candVal ACTION_TYPE_PERFLVL resStatus = INVALID_VALUE then
        let s = setStatus resId
                  (resStatus\<lparr>rs_candidate := NODE_DEFAULT_VALUE, rs_currentEndTime := MAX_INT_VALUE\<rparr>) s in
        bindE (ArbitratePairRes resId False s) (\<lambda>s. Inr (True, s))
      else Inr (False, s))"

text \<open>The value \<open>ProcessLimitCase\<close> assigns to \<open>candidate\<close>, by the two limit flags.\<close>

definition limitCaseValue :: "bool \<Rightarrow> bool \<Rightarrow> int \<Rightarrow> int \<Rightarrow> int \<Rightarrow> int" where
  "limitCaseValue powerLimit thermalLimit candidatePerfValue candidatePowerValue candidateThermalValue =
     (if \<not> powerLimit \<and> \<not> thermalLimit then
        if candidatePerfValue \<noteq> INVALID_VALUE then
          Max64_3 candidatePerfValue candidatePowerValue candidateThermalValue
        else if candidatePowerValue = INVALID_VALUE then candidateThermalValue
        else if candidateThermalValue = INVALID_VALUE then candidatePowerValue
        else Min64 candidatePowerValue candidateThermalValue
      else if \<not> powerLimit \<and> thermalLimit then
        if candidateThermalValue \<noteq> INVALID_VALUE then candidateThermalValue
        else Max64 candidatePerfValue candidatePowerValue
      else if powerLimit \<and> \<not> thermalLimit then
        if candidatePowerValue \<noteq> INVALID_VALUE then candidatePowerValue
        else Max64 candidatePerfValue candidateThermalValue
      else
        if candidatePowerValue = INVALID_VALUE \<and> candidateThermalValue = INVALID_VALUE then
          candidatePerfValue
        else if candidatePowerValue = INVALID_VALUE then candidateThermalValue
        else if candidateThermalValue = INVALID_VALUE then candidatePowerValue
        else Min64 candidatePowerValue candidateThermalValue)"

definition ProcessLimitCase ::
  "int \<Rightarrow> 'a SocPerfThreadWrap_scheme \<Rightarrow> error + 'a SocPerfThreadWrap_scheme" where
  "ProcessLimitCase resId s =
     (let s = touchStatus resId s in
      bindE (derefE (statusAt resId s)) (\<lambda>resStatus.
      Inr (setStatus resId
        (resStatus\<lparr>
           rs_candidate := limitCaseValue (powerLimitBoost s) (thermalLimitBoost s)
             (candVal ACTION_TYPE_PERF resStatus) (candVal ACTION_TYPE_POWER resStatus)
             (candVal ACTION_TYPE_THERMAL resStatus),
           rs_currentEndTime := Min64_3 (candEnd ACTION_TYPE_PERF resStatus)
             (candEnd ACTION_TYPE_POWER resStatus) (candEnd ACTION_TYPE_THERMAL resStatus)\<rparr>) s)))"

text \<open>
  \<open>ArbitratePairResInPerfLvl\<close> in its three parts. \<open>pairIdOf\<close>: the local \<open>pairResId\<close>, with
  the state after the lookups. \<open>noPerfLvl\<close>: the condition of the early return; the pair's status is
  looked up only where the conjunction gets that far. \<open>perfLvlLimit\<close>: the local \<open>limit\<close>.
\<close>

definition pairIdOf ::
  "int \<Rightarrow> 'a SocPerfThreadWrap_scheme \<Rightarrow> error + (int \<times> 'a SocPerfThreadWrap_scheme)" where
  "pairIdOf resId s =
     bindE (IsGovResId resId s) (\<lambda>gov.
     if \<not> gov then
       let s = touchNode resId s in
       bindE (derefE (nodeAt resId s)) (\<lambda>node.
       bindE (castPair node) (\<lambda>pair. Inr (pair, s)))
     else Inr (INVALID_VALUE, s))"

definition noPerfLvl ::
  "int \<Rightarrow> ResStatus \<Rightarrow> 'a SocPerfThreadWrap_scheme \<Rightarrow> bool \<times> 'a SocPerfThreadWrap_scheme" where
  "noPerfLvl pairResId resStatus s =
     (if candVal ACTION_TYPE_PERFLVL resStatus = INVALID_VALUE \<and> pairResId \<noteq> INVALID_VALUE then
        let s = touchStatus pairResId s in
        (case statusAt pairResId s of
           None \<Rightarrow> (True, s)
         | Some pst \<Rightarrow> (candVal ACTION_TYPE_PERFLVL pst = INVALID_VALUE, s))
      else (False, s))"

definition perfLvlLimit ::
  "int \<Rightarrow> int \<Rightarrow> 'a SocPerfThreadWrap_scheme \<Rightarrow> error + (bool \<times> 'a SocPerfThreadWrap_scheme)" where
  "perfLvlLimit resId pairResId s =
     (if wrapThermalLvl s \<noteq> 0 then
        bindE (IsGovResId resId s) (\<lambda>gov.
        if gov then Inr (False, s)
        else
          let s = touchNode resId s in
          if (case nodeAt resId s of None \<Rightarrow> False | Some n \<Rightarrow> rn_isMaxValue n) then Inr (True, s)
          else if pairResId = INVALID_VALUE then Inr (False, s)
          else
            let s = touchNode pairResId s in
            Inr ((case nodeAt pairResId s of None \<Rightarrow> False | Some n \<Rightarrow> rn_isMaxValue n), s))
      else Inr (False, s))"

definition ArbitratePairResInPerfLvl ::
  "int \<Rightarrow> 'a SocPerfThreadWrap_scheme \<Rightarrow> error + (bool \<times> 'a SocPerfThreadWrap_scheme)" where
  "ArbitratePairResInPerfLvl resId s =
     (let s = touchStatus resId s in
      bindE (pairIdOf resId s) (\<lambda>(pairResId, s).
      bindE (derefE (statusAt resId s)) (\<lambda>resStatus.
      case noPerfLvl pairResId resStatus s of (none, s) \<Rightarrow>
      if none then Inr (False, s)
      else
        let lvl = candVal ACTION_TYPE_PERFLVL resStatus;
            s = (if lvl \<noteq> INVALID_VALUE then
                   setStatus resId (resStatus\<lparr>rs_candidate :=
                     (if wrapThermalLvl s = 0 \<and> rs_candidate resStatus \<noteq> INVALID_VALUE
                      then Min64 (rs_candidate resStatus) lvl else lvl)\<rparr>) s
                 else s) in
        bindE (perfLvlLimit resId pairResId s) (\<lambda>(limit, s).
        bindE (ArbitratePairRes resId limit s) (\<lambda>s. Inr (True, s))))))"

definition ArbitrateCandidate ::
  "int \<Rightarrow> 'a SocPerfThreadWrap_scheme \<Rightarrow> error + 'a SocPerfThreadWrap_scheme" where
  "ArbitrateCandidate resId s =
     (let s = touchStatus resId s in
      bindE (derefE (statusAt resId s)) (\<lambda>resStatus.
      bindE (ExistNoCandidate resId resStatus s) (\<lambda>(none, s).
      if none then Inr s
      else
        bindE (ProcessLimitCase resId s) (\<lambda>s.
        bindE (ArbitratePairResInPerfLvl resId s) (\<lambda>(handled, s).
        if handled then Inr s
        else ArbitratePairRes resId False s)))))"

subsection \<open>The candidate of an action type\<close>

text \<open>The loop of \<open>InnerArbitrateCandidatesValue\<close> over \<open>(value, endTime)\<close>.\<close>

fun innerArbitrateLoop :: "bool \<Rightarrow> ResAction list \<Rightarrow> int \<times> int \<Rightarrow> int \<times> int" where
  "innerArbitrateLoop isPerfFirst [] (res, endTime) = (res, endTime)"
| "innerArbitrateLoop isPerfFirst (a # as) (res, endTime) =
     innerArbitrateLoop isPerfFirst as
       (if (ra_value a > res \<and> isPerfFirst) \<or> (ra_value a < res \<and> \<not> isPerfFirst)
        then (ra_value a, ra_endTime a)
        else if ra_value a = res then (res, Max64 endTime (ra_endTime a))
        else (res, endTime))"

definition InnerArbitrateCandidatesValue :: "int \<Rightarrow> ResStatus \<Rightarrow> ResStatus" where
  "InnerArbitrateCandidatesValue type resStatus =
     (let isPerfFirst = (type = ACTION_TYPE_PERF \<or> type = ACTION_TYPE_PERFLVL);
          res = (if isPerfFirst then MIN_INT_VALUE else MAX_INT_VALUE);
          r = innerArbitrateLoop isPerfFirst (rs_resActionList resStatus ! nat type) (res, MIN_INT_VALUE) in
      resStatus\<lparr>rs_candidatesValue := (rs_candidatesValue resStatus)[nat type := fst r],
                rs_candidatesEndTime := (rs_candidatesEndTime resStatus)[nat type := snd r]\<rparr>)"

definition UpdateCandidatesValue ::
  "int \<Rightarrow> int \<Rightarrow> 'a SocPerfThreadWrap_scheme \<Rightarrow> error + 'a SocPerfThreadWrap_scheme" where
  "UpdateCandidatesValue resId type s =
     (let s = touchStatus resId s in
      bindE (derefE (statusAt resId s)) (\<lambda>resStatus.
      bindE (atE (rs_candidatesValue resStatus) type) (\<lambda>prevValue.
      bindE (atE (rs_candidatesEndTime resStatus) type) (\<lambda>prevEndTime.
      bindE (atE (rs_resActionList resStatus) type) (\<lambda>actionList.
      let resStatus' =
            (if actionList = [] then
               resStatus\<lparr>rs_candidatesValue := (rs_candidatesValue resStatus)[nat type := INVALID_VALUE],
                         rs_candidatesEndTime := (rs_candidatesEndTime resStatus)[nat type := MAX_INT_VALUE]\<rparr>
             else InnerArbitrateCandidatesValue type resStatus);
          s = setStatus resId resStatus' s in
      if candVal type resStatus' \<noteq> prevValue \<or> candEnd type resStatus' \<noteq> prevEndTime
      then ArbitrateCandidate resId s
      else Inr s)))))"

subsection \<open>The list of live actions\<close>

text \<open>\<open>resStatus->resActionList[type]\<close> after an assignment.\<close>

definition setActionList :: "int \<Rightarrow> ResAction list \<Rightarrow> ResStatus \<Rightarrow> ResStatus" where
  "setActionList type as st = st\<lparr>rs_resActionList := (rs_resActionList st)[nat type := as]\<rparr>"

definition addBoostResCnt :: "int \<Rightarrow> 'a SocPerfThreadWrap_scheme \<Rightarrow> 'a SocPerfThreadWrap_scheme" where
  "addBoostResCnt d s = s\<lparr>boostResCnt := boostResCnt s + d\<rparr>"

definition UpdateResActionListByDelayedMsg ::
  "int \<Rightarrow> int \<Rightarrow> ResAction \<Rightarrow> ResStatus \<Rightarrow> 'a SocPerfThreadWrap_scheme \<Rightarrow> error + 'a SocPerfThreadWrap_scheme" where
  "UpdateResActionListByDelayedMsg resId type resAction resStatus s =
     bindE (atE (rs_resActionList resStatus) type) (\<lambda>as.
     if list_ex (\<lambda>a. ra_ref resAction = ra_ref a) as then
       let s = setStatus resId
                 (setActionList type (eraseFirst (\<lambda>a. ra_ref resAction = ra_ref a) as) resStatus) s in
       bindE (UpdateCandidatesValue resId type s) (\<lambda>s.
       Inr (if ra_interaction resAction then addBoostResCnt (- 1) s else s))
     else Inr s)"

definition HandleResAction ::
  "int \<Rightarrow> int \<Rightarrow> ResAction \<Rightarrow> ResStatus \<Rightarrow> 'a SocPerfThreadWrap_scheme \<Rightarrow> error + 'a SocPerfThreadWrap_scheme" where
  "HandleResAction resId type resAction resStatus s =
     bindE (atE (rs_resActionList resStatus) type) (\<lambda>as.
     let found = list_ex (TotalSame resAction) as;
         as' = eraseFirst (TotalSame resAction) as;
         s = (if found \<and> ra_interaction resAction then addBoostResCnt (- 1) s else s);
         s = setStatus resId (setActionList type (as' @ [resAction]) resStatus) s in
     bindE (UpdateCandidatesValue resId type s) (\<lambda>s.
     Inr (if ra_interaction resAction then addBoostResCnt 1 s else s)))"

definition UpdateResActionListByInstantMsg ::
  "int \<Rightarrow> int \<Rightarrow> ResAction \<Rightarrow> ResStatus \<Rightarrow> 'a SocPerfThreadWrap_scheme \<Rightarrow> error + 'a SocPerfThreadWrap_scheme" where
  "UpdateResActionListByInstantMsg resId type resAction resStatus s =
     (case ra_onOff resAction of
        EVENT_INVALID \<Rightarrow> HandleResAction resId type resAction resStatus s
      | EVENT_ON \<Rightarrow> HandleResAction resId type resAction resStatus s
      | EVENT_OFF \<Rightarrow>
          bindE (atE (rs_resActionList resStatus) type) (\<lambda>as.
          let same = (\<lambda>a. PartSame resAction a \<and> ra_onOff a = EVENT_ON) in
          if list_ex same as then
            let s = setStatus resId (setActionList type (eraseFirst same as) resStatus) s in
            bindE (UpdateCandidatesValue resId type s) (\<lambda>s.
            Inr (addBoostResCnt (- (if ra_interaction resAction then 1 else 0)) s))
          else Inr s))"

definition UpdateResActionList ::
  "int \<Rightarrow> ResAction \<Rightarrow> bool \<Rightarrow> 'a SocPerfThreadWrap_scheme \<Rightarrow> error + 'a SocPerfThreadWrap_scheme" where
  "UpdateResActionList resId resAction delayed s =
     (let s = touchStatus resId s; type = ra_type resAction in
      bindE (derefE (statusAt resId s)) (\<lambda>resStatus.
      if delayed then UpdateResActionListByDelayedMsg resId type resAction resStatus s
      else UpdateResActionListByInstantMsg resId type resAction resStatus s))"

subsection \<open>Limit requests\<close>

text \<open>\<open>GetResValueByLevel\<close>: \<open>None\<close> is the result \<open>false\<close>.\<close>

definition GetResValueByLevel :: "int \<Rightarrow> int \<Rightarrow> 'a SocPerfThreadWrap_scheme \<Rightarrow> int option" where
  "GetResValueByLevel resId level s =
     (case nodeAt resId s of
        None \<Rightarrow> None
      | Some n \<Rightarrow>
          if rn_available n = [] then None
          else if level < 0 then None
          else
            let available = sort (remdups (rn_available n)); len = int (length available) in
            Some (available ! (if level < len then nat (len - 1 - level) else 0)))"

definition DoFreqAction ::
  "int \<Rightarrow> ResAction \<Rightarrow> 'a SocPerfThreadWrap_scheme \<Rightarrow> error + 'a SocPerfThreadWrap_scheme" where
  "DoFreqAction resId resAction s =
     (if \<not> IsValidResId resId s then Inr s else UpdateResActionList resId resAction False s)"

definition DoFreqActionLevel ::
  "int \<Rightarrow> ResAction \<Rightarrow> 'a SocPerfThreadWrap_scheme \<Rightarrow> error + 'a SocPerfThreadWrap_scheme" where
  "DoFreqActionLevel resId resAction s =
     (let realResId = resId - RES_ID_ADDITION in
      if \<not> IsValidResId realResId s then Inr s
      else
        let level = to_int32 (ra_value resAction) in
        case GetResValueByLevel realResId level s of
          None \<Rightarrow> Inr s
        | Some v \<Rightarrow> UpdateResActionList realResId (resAction\<lparr>ra_value := v\<rparr>) False s)"

end
