(* ===== verification/WrapTasks.thy ===== *)
theory WrapTasks
  imports ThreadWrap
begin

text \<open>
  The closures that \<open>SocPerfThreadWrap\<close> submits to its serial queue, and the functions that submit
  them (\<open>services/core/src/socperf_thread_wrap.cpp\<close>): initialisation, packs of actions and their
  delayed removal, limit switches, limit requests, the weak-interaction state machine, and the reports
  sent at the end of a closure. \<open>execTask\<close> is the body of a closure.

  The queue itself is \<open>ffrt::queue\<close>, which is not part of this repository: here it is the list of
  pending entries; which of them runs next is left open (\<open>runnable\<close>).
\<close>

subsection \<open>Submitting and cancelling\<close>

definition submit_h ::
  "int \<Rightarrow> Task \<Rightarrow> 'a SocPerfThreadWrap_scheme \<Rightarrow> nat \<times> 'a SocPerfThreadWrap_scheme" where
  "submit_h delay task s =
     (nextHandle s,
      s\<lparr>socperfQueue := socperfQueue s @ [\<lparr>qe_handle = nextHandle s, qe_delay = delay, qe_task = task\<rparr>],
        nextHandle := Suc (nextHandle s)\<rparr>)"

definition submit :: "int \<Rightarrow> Task \<Rightarrow> 'a SocPerfThreadWrap_scheme \<Rightarrow> 'a SocPerfThreadWrap_scheme" where
  "submit delay task s = snd (submit_h delay task s)"

definition cancel :: "nat \<Rightarrow> 'a SocPerfThreadWrap_scheme \<Rightarrow> 'a SocPerfThreadWrap_scheme" where
  "cancel h s = s\<lparr>socperfQueue := filter (\<lambda>e. qe_handle e \<noteq> h) (socperfQueue s)\<rparr>"

text \<open>
  \<open>taskAttr.delay\<close> takes unsigned microseconds. In \<open>PostDelayTask\<close> both factors are \<open>int32_t\<close>;
  in \<open>WeakInteraction\<close> the delay is \<open>int64_t\<close>.
\<close>

definition delayOfDuration :: "int \<Rightarrow> int" where
  "delayOfDuration duration = to_uint64 (to_int32 (duration * 1000))"

definition delayOfInterAction :: "int \<Rightarrow> int" where
  "delayOfInterAction delayTime = to_uint64 (to_int64 (delayTime * 1000))"

subsection \<open>Reports\<close>

definition ReportToPerfSo ::
  "(int \<times> int \<times> int) list \<Rightarrow> 'a SocPerfThreadWrap_scheme \<Rightarrow> 'a SocPerfThreadWrap_scheme" where
  "ReportToPerfSo xs s =
     (if reportFunc s = None then s
      else if xs \<noteq> [] then s\<lparr>reports := reports s @ [ReportPerfSo xs]\<rparr> else s)"

definition ReportToRssExe ::
  "(int \<times> int \<times> int) list \<Rightarrow> 'a SocPerfThreadWrap_scheme \<Rightarrow> 'a SocPerfThreadWrap_scheme" where
  "ReportToRssExe xs s =
     (if xs \<noteq> [] then s\<lparr>reports := reports s @ [ReportRssExe (map (\<lambda>(i, v, e). (i, v)) xs)]\<rparr> else s)"

text \<open>The loop of \<open>InitResStatus\<close>: entries for the library, entries for the executor.\<close>

definition initResEntry ::
  "'a SocPerfThreadWrap_scheme \<Rightarrow> int \<Rightarrow> (int \<times> int \<times> int) list \<times> (int \<times> int \<times> int) list
   \<Rightarrow> (int \<times> int \<times> int) list \<times> (int \<times> int \<times> int) list" where
  "initResEntry s resId acc =
     (if map_of (resourceNodeInfo s) resId \<noteq> None then
        case nodeAt resId s of
          None \<Rightarrow> acc
        | Some n \<Rightarrow>
            if rn_persistMode n = REPORT_TO_PERFSO
            then (fst acc @ [(resId, NODE_DEFAULT_VALUE, MAX_INT_VALUE)], snd acc)
            else (fst acc, snd acc @ [(resId, NODE_DEFAULT_VALUE, MAX_INT_VALUE)])
      else acc)"

definition InitResStatus :: "'a SocPerfThreadWrap_scheme \<Rightarrow> 'a SocPerfThreadWrap_scheme" where
  "InitResStatus s =
     (case fold (initResEntry s) (map fst (resStatusInfo s)) ([], []) of
        (toPerfSo, toRssExe) \<Rightarrow> ReportToRssExe toRssExe (ReportToPerfSo toPerfSo s))"

subsection \<open>Building and submitting packs of actions\<close>

definition DoFreqActionPack ::
  "ResActionItem list \<Rightarrow> 'a SocPerfThreadWrap_scheme \<Rightarrow> 'a SocPerfThreadWrap_scheme" where
  "DoFreqActionPack head s = (if head = [] then s else submit 0 (TaskDoFreqActionPack head) s)"

text \<open>The items of one action, with the identities of the objects allocated for them.\<close>

fun buildItems ::
  "'a SocPerfConfig_scheme \<Rightarrow> int \<Rightarrow> int \<Rightarrow> EventType \<Rightarrow> int \<Rightarrow> int \<Rightarrow> bool \<Rightarrow> nat
   \<Rightarrow> (int \<times> int) list \<Rightarrow> ResActionItem list" where
  "buildItems s duration actionType onOff cmdId endTime interact ref [] = []"
| "buildItems s duration actionType onOff cmdId endTime interact ref ((resId, v) # rest) =
     (if \<not> IsValidResId (to_int32 resId) s then
        buildItems s duration actionType onOff cmdId endTime interact ref rest
      else
        let a = new_ResAction ref v duration actionType onOff cmdId endTime;
            a = (if interact then a else a\<lparr>ra_interaction := False\<rparr>) in
        \<lparr>it_resId = to_int32 resId, it_resAction = a\<rparr>
          # buildItems s duration actionType onOff cmdId endTime interact (Suc ref) rest)"

text \<open>The loop over the actions in \<open>DoWeakInteraction\<close>.\<close>

fun weakItems ::
  "'a SocPerfConfig_scheme \<Rightarrow> int \<Rightarrow> EventType \<Rightarrow> int \<Rightarrow> nat \<Rightarrow> Action list \<Rightarrow> ResActionItem list" where
  "weakItems s actionType onOff cmdId ref [] = []"
| "weakItems s actionType onOff cmdId ref (action # rest) =
     (let items = buildItems s 0 actionType onOff cmdId MAX_INT_VALUE False ref
                    (varPairs (ac_variable action)) in
      items @ weakItems s actionType onOff cmdId (ref + length items) rest)"

definition DoWeakInteraction ::
  "Actions option \<Rightarrow> EventType \<Rightarrow> int \<Rightarrow> 'a SocPerfThreadWrap_scheme \<Rightarrow> 'a SocPerfThreadWrap_scheme" where
  "DoWeakInteraction actions onOff actionType s =
     (case actions of
        None \<Rightarrow> s
      | Some as \<Rightarrow>
          let items = weakItems s actionType onOff (as_id as) (nextRef s) (as_actionList as) in
          DoFreqActionPack items (s\<lparr>nextRef := nextRef s + length items\<rparr>))"

text \<open>\<open>resActionMap\<close>: the items with a duration, grouped by it.\<close>

fun groupByDuration ::
  "ResActionItem list \<Rightarrow> (int \<times> ResActionItem list) list \<Rightarrow> (int \<times> ResActionItem list) list" where
  "groupByDuration [] m = m"
| "groupByDuration (item # rest) m =
     (let d = ra_duration (it_resAction item) in
      if d = 0 then groupByDuration rest m
      else groupByDuration rest
        (AList.update d ((case map_of m d of None \<Rightarrow> [] | Some v \<Rightarrow> v) @ [item]) m))"

definition PostDelayTask ::
  "ResActionItem list \<Rightarrow> 'a SocPerfThreadWrap_scheme \<Rightarrow> 'a SocPerfThreadWrap_scheme" where
  "PostDelayTask queueHead s =
     fold (\<lambda>(d, items). submit (delayOfDuration d) (TaskPostDelay items)) (groupByDuration queueHead []) s"

subsection \<open>Weak interaction\<close>

definition PERF_REQUEST_CMD_ID_WEAK_INTERACTION :: int where
  "PERF_REQUEST_CMD_ID_WEAK_INTERACTION = 9101"

definition PERF_REQUEST_CMD_ID_WEAK_INTERACTION_PERFORMANCE_MODE :: int where
  "PERF_REQUEST_CMD_ID_WEAK_INTERACTION_PERFORMANCE_MODE = 39101"

definition GetModeCmdId :: "int \<Rightarrow> 'a SocPerfThreadWrap_scheme \<Rightarrow> int" where
  "GetModeCmdId cmdId s =
     (if cmdId = PERF_REQUEST_CMD_ID_WEAK_INTERACTION \<and> performanceModeStatus s
      then PERF_REQUEST_CMD_ID_WEAK_INTERACTION_PERFORMANCE_MODE else cmdId)"

definition setInterAction ::
  "nat \<Rightarrow> InterAction \<Rightarrow> 'a SocPerfThreadWrap_scheme \<Rightarrow> 'a SocPerfThreadWrap_scheme" where
  "setInterAction i ia s = s\<lparr>interAction := (interAction s)[i := ia]\<rparr>"

text \<open>
  \<open>DoWeakInteraction(configPerfActionsInfo_[DEFAULT_CONFIG_MODE][cmdId], onOff, actionType)\<close> for the
  command of an interaction; the lookup inserts a null pointer when the command is not configured.
\<close>

definition weakInteractionOf ::
  "InterAction \<Rightarrow> EventType \<Rightarrow> 'a SocPerfThreadWrap_scheme \<Rightarrow> 'a SocPerfThreadWrap_scheme" where
  "weakInteractionOf ia onOff s =
     (let cmdId = GetModeCmdId (ia_cmdId ia) s;
          s = touchActions DEFAULT_CONFIG_MODE cmdId s in
      DoWeakInteraction (actionsAt DEFAULT_CONFIG_MODE cmdId s) onOff (ia_actionType ia) s)"

text \<open>One iteration of the loop of \<open>WeakInteraction\<close>.\<close>

definition WeakInteraction_step :: "nat \<Rightarrow> 'a SocPerfThreadWrap_scheme \<Rightarrow> 'a SocPerfThreadWrap_scheme" where
  "WeakInteraction_step i s =
     (let ia = interAction s ! i in
      if weakInteractionStatus s \<and> boostResCnt s = 0 \<and> ia_status ia = BOOST_STATUS then
        case submit_h (delayOfInterAction (ia_delayTime ia)) (TaskWeakInteractionTimer i) s of
          (h, s) \<Rightarrow> setInterAction i (ia\<lparr>ia_status := BOOST_END_STATUS, ia_timerTask := Some h\<rparr>) s
      else if (\<not> weakInteractionStatus s \<or> boostResCnt s \<noteq> 0) \<and> ia_status ia = WEAK_INTERACTION_STATUS then
        weakInteractionOf ia EVENT_OFF (setInterAction i (ia\<lparr>ia_status := BOOST_STATUS\<rparr>) s)
      else if (\<not> weakInteractionStatus s \<or> boostResCnt s \<noteq> 0) \<and> ia_status ia = BOOST_END_STATUS then
        case ia_timerTask ia of
          None \<Rightarrow> setInterAction i (ia\<lparr>ia_status := BOOST_STATUS\<rparr>) s
        | Some h \<Rightarrow> setInterAction i (ia\<lparr>ia_status := BOOST_STATUS, ia_timerTask := None\<rparr>) (cancel h s)
      else s)"

definition WeakInteraction :: "'a SocPerfThreadWrap_scheme \<Rightarrow> 'a SocPerfThreadWrap_scheme" where
  "WeakInteraction s = fold WeakInteraction_step [0..<length (interAction s)] s"

text \<open>The closure of the weak-interaction timer of entry \<open>i\<close>.\<close>

definition weakInteractionTimer :: "nat \<Rightarrow> 'a SocPerfThreadWrap_scheme \<Rightarrow> error + 'a SocPerfThreadWrap_scheme" where
  "weakInteractionTimer i s =
     bindE (atE (interAction s) (int i)) (\<lambda>ia.
     let ia = ia\<lparr>ia_status := WEAK_INTERACTION_STATUS\<rparr> in
     Inr (weakInteractionOf ia EVENT_ON (setInterAction i ia s)))"

subsection \<open>Sending the changed values\<close>

text \<open>The body of the loop of \<open>SendResStatus\<close>.\<close>

definition sendEntry ::
  "int \<Rightarrow> (int \<times> int \<times> int) list \<times> (int \<times> int \<times> int) list \<times> 'a SocPerfThreadWrap_scheme
   \<Rightarrow> error + ((int \<times> int \<times> int) list \<times> (int \<times> int \<times> int) list \<times> 'a SocPerfThreadWrap_scheme)" where
  "sendEntry resId = (\<lambda>(po, re, s).
     if map_of (resourceNodeInfo s) resId = None then Inr (po, re, s)
     else
       bindE (derefE (statusAt resId s)) (\<lambda>st.
       if rs_previousValue st \<noteq> rs_currentValue st \<or> rs_previousEndTime st \<noteq> rs_currentEndTime st then
         case nodeAt resId s of
           None \<Rightarrow> Inr (po, re, s)
         | Some n \<Rightarrow>
             let x = (resId, rs_currentValue st, rs_currentEndTime st);
                 st' = st\<lparr>rs_previousValue := rs_currentValue st, rs_previousEndTime := rs_currentEndTime st\<rparr> in
             if rn_persistMode n = REPORT_TO_PERFSO then Inr (po @ [x], re, setStatus resId st' s)
             else Inr (po, re @ [x], setStatus resId st' s)
       else Inr (po, re, s)))"

definition SendResStatus :: "'a SocPerfThreadWrap_scheme \<Rightarrow> error + 'a SocPerfThreadWrap_scheme" where
  "SendResStatus s =
     bindE (foldE sendEntry (map fst (resStatusInfo s)) ([], [], s)) (\<lambda>(po, re, s).
     Inr (WeakInteraction (ReportToRssExe re (ReportToPerfSo po s))))"

subsection \<open>The closures\<close>

text \<open>\<open>insert\<close> of a map: nothing happens if the key is present.\<close>

definition initResStatusEntry :: "int \<times> ResourceNode option \<Rightarrow> 'a SocPerfThreadWrap_scheme \<Rightarrow> 'a SocPerfThreadWrap_scheme" where
  "initResStatusEntry kn s =
     (case snd kn of
        None \<Rightarrow> s
      | Some n \<Rightarrow>
          if map_of (resStatusInfo s) (rn_id n) = None
          then s\<lparr>resStatusInfo := AList.update (rn_id n) (Some new_ResStatus) (resStatusInfo s)\<rparr>
          else s)"

definition initResourceNodeInfoFunc :: "'a SocPerfThreadWrap_scheme \<Rightarrow> 'a SocPerfThreadWrap_scheme" where
  "initResourceNodeInfoFunc s = InitResStatus (fold initResStatusEntry (resourceNodeInfo s) s)"

definition doPackItem ::
  "ResActionItem \<Rightarrow> 'a SocPerfThreadWrap_scheme \<Rightarrow> error + 'a SocPerfThreadWrap_scheme" where
  "doPackItem item s =
     (if IsValidResId (it_resId item) s
      then UpdateResActionList (it_resId item) (it_resAction item) False s else Inr s)"

definition doFreqActionPackFunc ::
  "ResActionItem list \<Rightarrow> 'a SocPerfThreadWrap_scheme \<Rightarrow> error + 'a SocPerfThreadWrap_scheme" where
  "doFreqActionPackFunc items s = bindE (foldE doPackItem items s) SendResStatus"

definition postDelayTaskFunc ::
  "ResActionItem list \<Rightarrow> 'a SocPerfThreadWrap_scheme \<Rightarrow> error + 'a SocPerfThreadWrap_scheme" where
  "postDelayTaskFunc items s =
     bindE (foldE (\<lambda>item. UpdateResActionList (it_resId item) (it_resAction item) True) items s) SendResStatus"

text \<open>The loop both limit switches run over \<open>resStatusInfo_\<close>.\<close>

definition arbitrateEntry :: "int \<Rightarrow> 'a SocPerfThreadWrap_scheme \<Rightarrow> error + 'a SocPerfThreadWrap_scheme" where
  "arbitrateEntry resId s = (if statusAt resId s = None then Inr s else ArbitrateCandidate resId s)"

definition updatePowerLimitBoostFreqFunc ::
  "bool \<Rightarrow> 'a SocPerfThreadWrap_scheme \<Rightarrow> error + 'a SocPerfThreadWrap_scheme" where
  "updatePowerLimitBoostFreqFunc b s =
     (let s = s\<lparr>powerLimitBoost := b\<rparr> in
      bindE (foldE arbitrateEntry (map fst (resStatusInfo s)) s) SendResStatus)"

definition updateThermalLimitBoostFreqFunc ::
  "bool \<Rightarrow> 'a SocPerfThreadWrap_scheme \<Rightarrow> error + 'a SocPerfThreadWrap_scheme" where
  "updateThermalLimitBoostFreqFunc b s =
     (let s = s\<lparr>thermalLimitBoost := b\<rparr> in
      bindE (foldE arbitrateEntry (map fst (resStatusInfo s)) s) SendResStatus)"

text \<open>
  The last statement of the closure reads \<open>resStatusInfo_[resId]\<close> for the event it reports; for a
  level request \<open>resId\<close> is not a resource, and the read leaves a null entry behind.
\<close>

definition updateLimitStatusFunc ::
  "SocPerfInnerEvent \<Rightarrow> ResAction \<Rightarrow> int \<Rightarrow> 'a SocPerfThreadWrap_scheme \<Rightarrow> error + 'a SocPerfThreadWrap_scheme" where
  "updateLimitStatusFunc eventId resAction resId s =
     bindE (if eventId = INNER_EVENT_ID_DO_FREQ_ACTION then DoFreqAction resId resAction s
            else if eventId = INNER_EVENT_ID_DO_FREQ_ACTION_LEVEL then DoFreqActionLevel resId resAction s
            else Inr s) (\<lambda>s.
     bindE (SendResStatus s) (\<lambda>s.
     Inr (if ra_onOff resAction \<noteq> EVENT_OFF then touchStatus resId s else s)))"

definition clearEntry :: "int \<Rightarrow> 'a SocPerfThreadWrap_scheme \<Rightarrow> error + 'a SocPerfThreadWrap_scheme" where
  "clearEntry resId s =
     (case statusAt resId s of
        None \<Rightarrow> Inr s
      | Some st \<Rightarrow>
          UpdateCandidatesValue resId ACTION_TYPE_PERF
            (setStatus resId (setActionList ACTION_TYPE_PERF [] st) s))"

definition clearAllAliveRequestFunc :: "'a SocPerfThreadWrap_scheme \<Rightarrow> error + 'a SocPerfThreadWrap_scheme" where
  "clearAllAliveRequestFunc s = bindE (foldE clearEntry (map fst (resStatusInfo s)) s) SendResStatus"

definition weakInteractionFunc :: "bool \<Rightarrow> 'a SocPerfThreadWrap_scheme \<Rightarrow> 'a SocPerfThreadWrap_scheme" where
  "weakInteractionFunc enable s = WeakInteraction (s\<lparr>weakInteractionStatus := enable\<rparr>)"

fun execTask :: "Task \<Rightarrow> 'a SocPerfThreadWrap_scheme \<Rightarrow> error + 'a SocPerfThreadWrap_scheme" where
  "execTask TaskInitResourceNodeInfo s = Inr (initResourceNodeInfoFunc s)"
| "execTask (TaskDoFreqActionPack items) s = doFreqActionPackFunc items s"
| "execTask (TaskPowerLimitBoost b) s = updatePowerLimitBoostFreqFunc b s"
| "execTask (TaskThermalLimitBoost b) s = updateThermalLimitBoostFreqFunc b s"
| "execTask (TaskUpdateLimitStatus ev a resId) s = updateLimitStatusFunc ev a resId s"
| "execTask TaskClearAllAliveRequest s = clearAllAliveRequestFunc s"
| "execTask (TaskPerformanceMode b) s = Inr (s\<lparr>performanceModeStatus := b\<rparr>)"
| "execTask (TaskWeakInteractionStatus b) s = Inr (weakInteractionFunc b s)"
| "execTask (TaskWeakInteractionTimer i) s = weakInteractionTimer i s"
| "execTask (TaskPostDelay items) s = postDelayTaskFunc items s"
| "execTask TaskStatistics s = Inr s"

text \<open>The functions of the class that only submit a closure.\<close>

definition InitResourceNodeInfo :: "'a SocPerfThreadWrap_scheme \<Rightarrow> 'a SocPerfThreadWrap_scheme" where
  "InitResourceNodeInfo = submit 0 TaskInitResourceNodeInfo"

definition UpdatePowerLimitBoostFreq :: "bool \<Rightarrow> 'a SocPerfThreadWrap_scheme \<Rightarrow> 'a SocPerfThreadWrap_scheme" where
  "UpdatePowerLimitBoostFreq b = submit 0 (TaskPowerLimitBoost b)"

definition UpdateThermalLimitBoostFreq :: "bool \<Rightarrow> 'a SocPerfThreadWrap_scheme \<Rightarrow> 'a SocPerfThreadWrap_scheme" where
  "UpdateThermalLimitBoostFreq b = submit 0 (TaskThermalLimitBoost b)"

definition UpdateLimitStatus ::
  "SocPerfInnerEvent \<Rightarrow> ResAction \<Rightarrow> int \<Rightarrow> 'a SocPerfThreadWrap_scheme \<Rightarrow> 'a SocPerfThreadWrap_scheme" where
  "UpdateLimitStatus eventId resAction resId = submit 0 (TaskUpdateLimitStatus eventId resAction resId)"

definition ClearAllAliveRequest_wrap :: "'a SocPerfThreadWrap_scheme \<Rightarrow> 'a SocPerfThreadWrap_scheme" where
  "ClearAllAliveRequest_wrap = submit 0 TaskClearAllAliveRequest"

definition SetPerformanceModeStatus :: "bool \<Rightarrow> 'a SocPerfThreadWrap_scheme \<Rightarrow> 'a SocPerfThreadWrap_scheme" where
  "SetPerformanceModeStatus b = submit 0 (TaskPerformanceMode b)"

definition SetWeakInteractionStatus :: "bool \<Rightarrow> 'a SocPerfThreadWrap_scheme \<Rightarrow> 'a SocPerfThreadWrap_scheme" where
  "SetWeakInteractionStatus b = submit 0 (TaskWeakInteractionStatus b)"

subsection \<open>The serial queue\<close>

text \<open>
  A pending entry may run next unless an entry submitted before it has no delay: entries without a
  delay keep their order, and a delayed entry runs at any later time.
\<close>

definition runnable :: "QueueEntry list \<Rightarrow> nat \<Rightarrow> bool" where
  "runnable q i \<longleftrightarrow> i < length q \<and> list_all (\<lambda>e. 0 < qe_delay e) (take i q)"

definition dequeue :: "nat \<Rightarrow> 'a SocPerfThreadWrap_scheme \<Rightarrow> 'a SocPerfThreadWrap_scheme" where
  "dequeue i s = s\<lparr>socperfQueue := take i (socperfQueue s) @ drop (Suc i) (socperfQueue s)\<rparr>"

definition runEntry :: "nat \<Rightarrow> 'a SocPerfThreadWrap_scheme \<Rightarrow> error + 'a SocPerfThreadWrap_scheme" where
  "runEntry i s = execTask (qe_task (socperfQueue s ! i)) (dequeue i s)"

end
