(* ===== verification/CandidatePolicy.thy ===== *)
theory CandidatePolicy
  imports ThreadWrap
begin

text \<open>
  The candidate of one action type of one resource: \<open>InnerArbitrateCandidatesValue\<close> against its
  specification. The loop keeps the best value seen so far and the latest end time among the actions
  that ask for it; "best" is the largest value for the types \<open>PERF\<close> and \<open>PERFLVL\<close> and the smallest
  for \<open>POWER\<close> and \<open>THERMAL\<close>. The two readings share one locale, interpreted for both directions.
\<close>

subsection \<open>The loop over any strict order of preference\<close>

locale preference_loop =
  fixes better :: "int \<Rightarrow> int \<Rightarrow> bool"
    and worst :: int
    and loop :: "ResAction list \<Rightarrow> int \<times> int \<Rightarrow> int \<times> int"
  assumes better_irrefl: "\<not> better x x"
    and better_trans: "better x y \<Longrightarrow> better y z \<Longrightarrow> better x z"
    and better_total: "x \<noteq> y \<Longrightarrow> better x y \<or> better y x"
    and worst_least: "in_int64 x \<Longrightarrow> \<not> better worst x"
    and loop_Nil: "loop [] acc = acc"
    and loop_Cons: "loop (a # as) (r, e) =
          loop as (if better (ra_value a) r then (ra_value a, ra_endTime a)
                   else if ra_value a = r then (r, max e (ra_endTime a)) else (r, e))"
begin

text \<open>The end times that belong to a result: those of the actions that ask for it, and the initial one.\<close>

definition ends :: "ResAction list \<Rightarrow> int \<times> int \<Rightarrow> int \<Rightarrow> int set" where
  "ends as acc v = (if v = fst acc then {snd acc} else {}) \<union> ra_endTime ` {a \<in> set as. ra_value a = v}"

lemma finite_ends: "finite (ends as acc v)"
  by (simp add: ends_def)

lemma loop_value:
  "fst (loop as acc) \<in> insert (fst acc) (ra_value ` set as) \<and>
   (\<forall>v \<in> insert (fst acc) (ra_value ` set as). \<not> better v (fst (loop as acc)))"
proof (induction as arbitrary: acc)
  case Nil
  then show ?case by (simp add: loop_Nil better_irrefl)
next
  case (Cons a as)
  obtain r e where acc: "acc = (r, e)" by (cases acc)
  define acc' where "acc' = (if better (ra_value a) r then (ra_value a, ra_endTime a)
                   else if ra_value a = r then (r, max e (ra_endTime a)) else (r, e))"
  have step: "loop (a # as) acc = loop as acc'" by (simp add: acc acc'_def loop_Cons)
  have f: "fst acc' = (if better (ra_value a) r then ra_value a else r)"
    by (simp add: acc'_def)
  have le: "\<not> better r (fst acc')" "\<not> better (ra_value a) (fst acc')"
    using better_irrefl better_trans unfolding f by (auto split: if_splits)
  have chain: "\<not> better v w" if "\<not> better (fst acc') w" "\<not> better v (fst acc')" for v w
  proof
    assume "better v w"
    moreover have "fst acc' = w \<or> better w (fst acc')" using that(1) better_total by blast
    ultimately show False using that(2) better_trans by blast
  qed
  let ?w = "fst (loop as acc')"
  have w_in: "?w \<in> insert (fst acc') (ra_value ` set as)"
    and nb: "\<not> better (fst acc') ?w" "\<forall>v \<in> ra_value ` set as. \<not> better v ?w"
    using Cons.IH [of acc'] by simp_all
  have "fst acc' \<in> {ra_value a, r}" by (simp add: f)
  with w_in have "?w \<in> insert r (ra_value ` set (a # as))" by auto
  moreover have "\<not> better r ?w" "\<not> better (ra_value a) ?w"
    by (rule chain [OF nb(1) le(1)], rule chain [OF nb(1) le(2)])
  ultimately show ?case using nb(2) unfolding step by (simp add: acc)
qed

lemma loop_end:
  "snd (loop as acc) \<in> ends as acc (fst (loop as acc)) \<and>
   (\<forall>x \<in> ends as acc (fst (loop as acc)). x \<le> snd (loop as acc))"
proof (induction as arbitrary: acc)
  case Nil
  then show ?case by (simp add: loop_Nil ends_def)
next
  case (Cons a as)
  obtain r e where acc: "acc = (r, e)" by (cases acc)
  define acc' where "acc' = (if better (ra_value a) r then (ra_value a, ra_endTime a)
                   else if ra_value a = r then (r, max e (ra_endTime a)) else (r, e))"
  have step: "loop (a # as) acc = loop as acc'" by (simp add: acc acc'_def loop_Cons)
  define v where "v = fst (loop as acc')"
  have nb: "\<not> better (fst acc') v" using loop_value [of as acc'] by (simp add: v_def)
  consider (b) "better (ra_value a) r" | (same) "\<not> better (ra_value a) r" "ra_value a = r"
    | (w) "\<not> better (ra_value a) r" "ra_value a \<noteq> r" by blast
  then show ?case
  proof cases
    case b
    have "v \<noteq> r" using nb b by (auto simp: acc'_def)
    then have "ends (a # as) acc v = ends as acc' v"
      using b by (auto simp: ends_def acc acc'_def)
    with Cons.IH [of acc'] show ?thesis by (simp add: step v_def)
  next
    case same
    then have e': "acc' = (r, max e (ra_endTime a))" by (simp add: acc'_def better_irrefl)
    show ?thesis
    proof (cases "v = r")
      case True
      with e' same have "ends (a # as) acc v = insert e (insert (ra_endTime a) (ra_endTime ` {a \<in> set as. ra_value a = v}))"
        and "ends as acc' v = insert (max e (ra_endTime a)) (ra_endTime ` {a \<in> set as. ra_value a = v})"
        by (auto simp: ends_def acc)
      with Cons.IH [of acc'] show ?thesis by (auto simp: step v_def max_def split: if_splits)
    next
      case False
      with e' same have "ends (a # as) acc v = ends as acc' v" by (auto simp: ends_def acc)
      with Cons.IH [of acc'] show ?thesis by (simp add: step v_def)
    qed
  next
    case w
    then have "acc' = acc" by (simp add: acc'_def acc)
    moreover have "better r (ra_value a)" using w better_total by blast
    with nb \<open>acc' = acc\<close> acc have "v \<noteq> ra_value a" by auto
    then have "ends (a # as) acc v = ends as acc v" by (auto simp: ends_def)
    ultimately show ?thesis using Cons.IH [of acc'] by (simp add: step v_def)
  qed
qed

theorem loop_best:
  assumes "as \<noteq> []" and "\<forall>a\<in>set as. in_int64 (ra_value a) \<and> MIN_INT_VALUE \<le> ra_endTime a"
    and "loop as (worst, MIN_INT_VALUE) = (v, e)"
  shows "v \<in> ra_value ` set as" and "\<forall>a\<in>set as. \<not> better (ra_value a) v"
    and "e = Max (ra_endTime ` {a \<in> set as. ra_value a = v})"
proof -
  note val = loop_value [of as "(worst, MIN_INT_VALUE)", unfolded assms(3), simplified]
  show "\<forall>a\<in>set as. \<not> better (ra_value a) v" using val by simp
  obtain a0 where a0: "a0 \<in> set as" using assms(1) by (cases as) auto
  show v_in: "v \<in> ra_value ` set as"
  proof (cases "v = worst")
    case True
    have "\<not> better (ra_value a0) worst" using val a0 True by simp
    moreover have "\<not> better worst (ra_value a0)" using assms(2) a0 worst_least by blast
    ultimately have "ra_value a0 = worst" using better_total by blast
    with True a0 show ?thesis by force
  next
    case False
    with val show ?thesis by auto
  qed
  let ?E = "ra_endTime ` {a \<in> set as. ra_value a = v}"
  have "e \<in> ends as (worst, MIN_INT_VALUE) v" and ub: "\<forall>x\<in>ends as (worst, MIN_INT_VALUE) v. x \<le> e"
    using loop_end [of as "(worst, MIN_INT_VALUE)"] by (simp_all add: assms(3))
  moreover obtain b where b: "b \<in> set as" "ra_value b = v" using v_in by auto
  then have "ra_endTime b \<in> ?E" by auto
  ultimately have "e \<in> ?E"
    using assms(2) b by (force simp: ends_def split: if_splits)
  moreover have "\<forall>x\<in>?E. x \<le> e" using ub by (auto simp: ends_def)
  ultimately show "e = Max ?E" by (intro Max_eqI [symmetric]) auto
qed

end

interpretation perf_first: preference_loop "(>)" MIN_INT_VALUE "innerArbitrateLoop True"
  by unfold_locales (auto simp: in_int64_def)

interpretation power_first: preference_loop "(<)" MAX_INT_VALUE "innerArbitrateLoop False"
  by unfold_locales (auto simp: in_int64_def)

subsection \<open>The specification of a candidate\<close>

definition isPerfFirstType :: "int \<Rightarrow> bool" where
  "isPerfFirstType type \<longleftrightarrow> type = ACTION_TYPE_PERF \<or> type = ACTION_TYPE_PERFLVL"

definition bestValue :: "int \<Rightarrow> ResAction list \<Rightarrow> int" where
  "bestValue type as = (if isPerfFirstType type then Max (ra_value ` set as) else Min (ra_value ` set as))"

definition bestEndTime :: "int \<Rightarrow> ResAction list \<Rightarrow> int" where
  "bestEndTime type as = Max (ra_endTime ` {a \<in> set as. ra_value a = bestValue type as})"

definition candidateSpec :: "int \<Rightarrow> ResAction list \<Rightarrow> int \<times> int" where
  "candidateSpec type as =
     (if as = [] then (INVALID_VALUE, MAX_INT_VALUE) else (bestValue type as, bestEndTime type as))"

definition typed_action :: "ResAction \<Rightarrow> bool" where
  "typed_action a \<longleftrightarrow> in_int64 (ra_value a) \<and> in_int64 (ra_endTime a)"

lemma typed_actionD:
  "typed_action a \<Longrightarrow> in_int64 (ra_value a) \<and> MIN_INT_VALUE \<le> ra_endTime a"
  by (simp add: typed_action_def in_int64_def)

lemma innerArbitrateLoop_spec:
  assumes "as \<noteq> []" and "\<forall>a\<in>set as. typed_action a"
  shows "innerArbitrateLoop (isPerfFirstType type) as
           (if isPerfFirstType type then MIN_INT_VALUE else MAX_INT_VALUE, MIN_INT_VALUE)
         = (bestValue type as, bestEndTime type as)"
proof (cases "isPerfFirstType type")
  case True
  obtain v e where ve: "innerArbitrateLoop True as (MIN_INT_VALUE, MIN_INT_VALUE) = (v, e)"
    by fastforce
  have typed: "\<forall>a\<in>set as. in_int64 (ra_value a) \<and> MIN_INT_VALUE \<le> ra_endTime a"
    using assms(2) typed_actionD by blast
  note best = perf_first.loop_best [OF assms(1) typed ve]
  have "v = Max (ra_value ` set as)" using best(1,2) by (intro Max_eqI [symmetric]) auto
  with best(3) True ve show ?thesis by (simp add: bestValue_def bestEndTime_def)
next
  case False
  obtain v e where ve: "innerArbitrateLoop False as (MAX_INT_VALUE, MIN_INT_VALUE) = (v, e)"
    by fastforce
  have typed: "\<forall>a\<in>set as. in_int64 (ra_value a) \<and> MIN_INT_VALUE \<le> ra_endTime a"
    using assms(2) typed_actionD by blast
  note best = power_first.loop_best [OF assms(1) typed ve]
  have "v = Min (ra_value ` set as)" using best(1,2) by (intro Min_eqI [symmetric]) auto
  with best(3) False ve show ?thesis by (simp add: bestValue_def bestEndTime_def)
qed

text \<open>The order in which the actions of a list arrived does not matter.\<close>

lemma candidateSpec_mset: "mset as = mset bs \<Longrightarrow> candidateSpec type as = candidateSpec type bs"
  by (auto simp: candidateSpec_def bestValue_def bestEndTime_def dest: mset_eq_setD)

lemma bestValue_typed: "as \<noteq> [] \<Longrightarrow> \<forall>a\<in>set as. typed_action a \<Longrightarrow> bestValue type as \<in> ra_value ` set as"
  by (simp add: bestValue_def Max_in Min_in)

end
