(* ===== verification/Arbitration.thy ===== *)
theory Arbitration
  imports CandidatePolicy
begin

text \<open>
  What the arbitration of \<open>SocPerfThreadWrap\<close> computes. On a well-formed state every operation
  returns, touches no pointer it must not touch, and changes nothing but resource statuses; its effect
  is stated as an update of the status map \<open>stm\<close>, in terms of the abstract policy
  \<open>candidateOf\<close>, \<open>endTimeOf\<close> (one resource) and \<open>arbPair\<close> (a resource and its pair).
\<close>

subsection \<open>Well-formed states of the thread wrap\<close>

definition stm :: "'a SocPerfThreadWrap_scheme \<Rightarrow> int \<Rightarrow> ResStatus option" where
  "stm s = ptrAt (resStatusInfo s)"

lemma statusAt_stm: "statusAt k s = stm s k"
  by (simp add: statusAt_def stm_def)

lemma stm_setStatus [simp]: "stm (setStatus k st s) = (stm s)(k \<mapsto> st)"
  by (simp add: stm_def setStatus_def)

lemma stm_touchStatus [simp]: "stm (touchStatus k s) = stm s"
  by (simp add: stm_def touchStatus_def)

lemma touchStatus_id: "stm s k = Some st \<Longrightarrow> touchStatus k s = s"
  by (simp add: stm_def touchStatus_def ptrAt_Some_touch)

definition wf_status :: "ResStatus \<Rightarrow> bool" where
  "wf_status st \<longleftrightarrow> length (rs_resActionList st) = 5 \<and> length (rs_candidatesValue st) = 5
     \<and> length (rs_candidatesEndTime st) = 5"

definition wf_wrap :: "'a SocPerfThreadWrap_scheme \<Rightarrow> bool" where
  "wf_wrap s \<longleftrightarrow> wf_nodes s \<and> distinct (map fst (resStatusInfo s))
     \<and> (\<forall>k\<in>resIds s. stm s k \<noteq> None)
     \<and> (\<forall>k st. stm s k = Some st \<longrightarrow> k \<in> resIds s \<and> wf_status st)"

text \<open>Only the objects the statuses point to have changed.\<close>

definition onlyStatus :: "'a SocPerfThreadWrap_scheme \<Rightarrow> 'a SocPerfThreadWrap_scheme \<Rightarrow> bool" where
  "onlyStatus s s' \<longleftrightarrow>
     (\<exists>m. s' = s\<lparr>resStatusInfo := m\<rparr> \<and> map fst m = map fst (resStatusInfo s))"

lemma onlyStatus_refl [simp]: "onlyStatus s s"
  unfolding onlyStatus_def by (rule exI [of _ "resStatusInfo s"]) simp

lemma onlyStatus_trans: "onlyStatus s t \<Longrightarrow> onlyStatus t u \<Longrightarrow> onlyStatus s u"
  by (auto simp: onlyStatus_def)

lemma onlyStatus_setStatus: "stm s k = Some st \<Longrightarrow> onlyStatus s (setStatus k st' s)"
  unfolding onlyStatus_def setStatus_def stm_def
  by (metis keys_update_same map_of_keys option.distinct(1) ptrAt_SomeD)

lemma onlyStatus_frame:
  assumes "onlyStatus s s'"
  shows "resourceNodeInfo s' = resourceNodeInfo s" "wrapThermalLvl s' = wrapThermalLvl s"
    "powerLimitBoost s' = powerLimitBoost s" "thermalLimitBoost s' = thermalLimitBoost s"
    "boostResCnt s' = boostResCnt s" "socperfQueue s' = socperfQueue s"
    "map fst (resStatusInfo s') = map fst (resStatusInfo s)"
    "interAction s' = interAction s" "nextRef s' = nextRef s" "nextHandle s' = nextHandle s"
    "configPerfActionsInfo s' = configPerfActionsInfo s" "reports s' = reports s"
    "weakInteractionStatus s' = weakInteractionStatus s" "reportFunc s' = reportFunc s"
    "performanceModeStatus s' = performanceModeStatus s" "minThermalLvl s' = minThermalLvl s"
    "sceneResourceInfo s' = sceneResourceInfo s" "scenarioFunc s' = scenarioFunc s"
    "SocPerfThreadWrap.more s' = SocPerfThreadWrap.more s"
  using assms by (auto simp: onlyStatus_def)

lemma onlyStatus_wf:
  assumes "wf_wrap s" and "onlyStatus s s'"
    and "\<And>k. stm s' k \<noteq> None \<longleftrightarrow> stm s k \<noteq> None"
    and "\<And>k st. stm s' k = Some st \<Longrightarrow> wf_status st"
  shows "wf_wrap s'"
proof -
  note fr = onlyStatus_frame [OF assms(2)]
  have "wf_nodes s'" using assms(1) fr(1) by (simp add: wf_wrap_def wf_nodes_def)
  moreover have "distinct (map fst (resStatusInfo s'))"
    using assms(1) fr(7) unfolding wf_wrap_def by simp
  ultimately show ?thesis
    using assms fr(1) unfolding wf_wrap_def by (metis option.distinct(1) option.exhaust)
qed

lemma wf_wrap_status:
  assumes "wf_wrap s" and "k \<in> resIds s"
  obtains st where "stm s k = Some st" and "wf_status st"
  using assms unfolding wf_wrap_def by blast

lemma wf_wrap_resIds: "wf_wrap s \<Longrightarrow> stm s k = Some st \<Longrightarrow> k \<in> resIds s \<and> wf_status st"
  by (simp add: wf_wrap_def)

subsection \<open>The pair of a resource\<close>

definition pairOf :: "int \<Rightarrow> 'a SocPerfConfig_scheme \<Rightarrow> int option" where
  "pairOf k s = (case nodeAt k s of
       None \<Rightarrow> None
     | Some n \<Rightarrow> (case rn_class n of
           ResNode path pair \<Rightarrow> if pair = INVALID_VALUE then None else Some pair
         | GovResNode paths lv \<Rightarrow> None))"

definition isMaxRes :: "int \<Rightarrow> 'a SocPerfConfig_scheme \<Rightarrow> bool" where
  "isMaxRes k s = (case nodeAt k s of None \<Rightarrow> False | Some n \<Rightarrow> rn_isMaxValue n)"

lemma pairOf_cong: "resourceNodeInfo s = resourceNodeInfo t \<Longrightarrow> pairOf k s = pairOf k t"
  by (simp add: pairOf_def nodeAt_def)

lemma isMaxRes_cong: "resourceNodeInfo s = resourceNodeInfo t \<Longrightarrow> isMaxRes k s = isMaxRes k t"
  by (simp add: isMaxRes_def nodeAt_def)

lemma pairOf_resIds:
  assumes "wf_nodes s" and "pairOf k s = Some p"
  shows "k \<in> resIds s" and "p \<in> resIds s" and "p \<noteq> INVALID_VALUE"
proof -
  from assms(2) obtain n path where n: "nodeAt k s = Some n" "rn_class n = ResNode path p"
    and p: "p \<noteq> INVALID_VALUE"
    by (auto simp: pairOf_def split: option.splits NodeClass.splits if_splits)
  then have m: "map_of (resourceNodeInfo s) k = Some (Some n)"
    by (simp add: nodeAt_def ptrAt_SomeD)
  then show k: "k \<in> resIds s" by (metis map_of_keys option.distinct(1))
  from assms(1) k obtain n' where "map_of (resourceNodeInfo s) k = Some (Some n')"
    and "wf_node (resIds s) k n'" by (rule wf_nodesD)
  with m n p show "p \<in> resIds s" by (simp add: wf_node_def)
  show "p \<noteq> INVALID_VALUE" by (rule p)
qed

text \<open>The lookups of the node table on a well-formed state.\<close>

lemma nodes_lookup:
  assumes "wf_nodes s" and "k \<in> resIds s"
  obtains (gov) n where "nodeAt k s = Some n" and "IsGovResId k s = Inr True" and "pairOf k s = None"
      and "touchNode k s = s" and "isMaxRes k s = rn_isMaxValue n"
    | (res) n pair where "nodeAt k s = Some n" and "IsGovResId k s = Inr False"
      and "castPair n = Inr pair" and "touchNode k s = s" and "isMaxRes k s = rn_isMaxValue n"
      and "pairOf k s = (if pair = INVALID_VALUE then None else Some pair)"
      and "pair = INVALID_VALUE \<or> pair \<in> resIds s"
proof -
  obtain n where n: "map_of (resourceNodeInfo s) k = Some (Some n)" and wf: "wf_node (resIds s) k n"
    using assms by (rule wf_nodesD)
  have at: "nodeAt k s = Some n" using n by (simp add: nodeAt_def ptrAt_def)
  have t: "touchNode k s = s" using assms(2) by (rule touchNode_id)
  show thesis
  proof (cases "rn_class n")
    case (ResNode path pair)
    with wf n at show ?thesis
      by (intro res [OF at _ _ t])
        (auto simp: IsGovResId_def castPair_def pairOf_def isMaxRes_def wf_node_def)
  next
    case (GovResNode paths lv)
    with wf n at show ?thesis
      by (intro gov [OF at _ _ t])
        (auto simp: IsGovResId_def pairOf_def isMaxRes_def wf_node_def)
  qed
qed

subsection \<open>A resource and its pair\<close>

text \<open>
  The policy for two paired resources: own value and pair's value from the two candidates. If either
  has the default value there is nothing to reconcile. Otherwise the larger of the pair's values must
  be at the resource marked as maximum; where the candidates contradict this, a limit in force gives
  both the maximum's candidate, and no limit gives both the minimum's candidate.
\<close>

definition arbPair :: "bool \<Rightarrow> bool \<Rightarrow> int \<Rightarrow> int \<Rightarrow> int \<times> int" where
  "arbPair isMax limit c pc =
     (if c = NODE_DEFAULT_VALUE \<or> pc = NODE_DEFAULT_VALUE then (c, pc)
      else if isMax then
        (if c < pc then (if limit then (c, c) else (pc, pc)) else (c, pc))
      else
        (if c > pc then (if limit then (pc, pc) else (c, c)) else (c, pc)))"

text \<open>Seen from the other resource of the pair, the policy gives the same values.\<close>

lemma arbPair_sym: "arbPair (\<not> isMax) limit pc c = prod.swap (arbPair isMax limit c pc)"
  by (auto simp: arbPair_def)

lemma arbPair_default: "arbPair isMax limit NODE_DEFAULT_VALUE pc = (NODE_DEFAULT_VALUE, pc)"
  by (simp add: arbPair_def)

lemma arbPair_self [simp]: "arbPair isMax limit c c = (c, c)"
  by (simp add: arbPair_def)

lemma arbPair_ordered:
  assumes "arbPair isMax limit c pc = (v, w)" and "c \<noteq> NODE_DEFAULT_VALUE" and "pc \<noteq> NODE_DEFAULT_VALUE"
  shows "if isMax then w \<le> v else v \<le> w"
  using assms by (auto simp: arbPair_def split: if_splits)

definition setCurrent :: "int \<Rightarrow> ResStatus \<Rightarrow> ResStatus" where
  "setCurrent v st = st\<lparr>rs_currentValue := v\<rparr>"

lemma setCurrent_sel [simp]:
  "rs_currentValue (setCurrent v st) = v" "rs_candidate (setCurrent v st) = rs_candidate st"
  "rs_resActionList (setCurrent v st) = rs_resActionList st"
  "rs_candidatesValue (setCurrent v st) = rs_candidatesValue st"
  "rs_candidatesEndTime (setCurrent v st) = rs_candidatesEndTime st"
  "rs_currentEndTime (setCurrent v st) = rs_currentEndTime st"
  "rs_previousValue (setCurrent v st) = rs_previousValue st"
  "rs_previousEndTime (setCurrent v st) = rs_previousEndTime st"
  "candVal t (setCurrent v st) = candVal t st" "candEnd t (setCurrent v st) = candEnd t st"
  "setCurrent v (setCurrent w st) = setCurrent v st"
  by (simp_all add: setCurrent_def candVal_def candEnd_def)

lemma wf_status_setCurrent [simp]: "wf_status (setCurrent v st) = wf_status st"
  by (simp add: wf_status_def)

definition pairUpdate ::
  "int \<Rightarrow> bool \<Rightarrow> ResStatus \<Rightarrow> 'a SocPerfConfig_scheme \<Rightarrow> (int \<Rightarrow> ResStatus option) \<Rightarrow> (int \<Rightarrow> ResStatus option)"
where
  "pairUpdate k limit st s f = (case pairOf k s of
       None \<Rightarrow> f(k \<mapsto> setCurrent (rs_candidate st) st)
     | Some p \<Rightarrow>
         let pst = (if p = k then st else the (f p));
             vw = arbPair (isMaxRes k s) limit (rs_candidate st) (rs_candidate pst) in
         f(k \<mapsto> setCurrent (fst vw) st, p \<mapsto> setCurrent (snd vw) pst))"

lemma UpdateCurrentValue_Some:
  "stm s k = Some st \<Longrightarrow> UpdateCurrentValue k v s = setStatus k (setCurrent v st) s"
  by (simp add: UpdateCurrentValue_def touchStatus_id statusAt_stm setCurrent_def)

lemma UpdatePairResValue_effect:
  assumes "stm s j = Some st" and "stm s k = Some pst"
  shows "onlyStatus s (UpdatePairResValue j v k w s)"
    and "j \<noteq> k \<Longrightarrow> stm (UpdatePairResValue j v k w s) = (stm s)(j \<mapsto> setCurrent v st, k \<mapsto> setCurrent w pst)"
    and "j = k \<Longrightarrow> stm (UpdatePairResValue j v k w s) = (stm s)(j \<mapsto> setCurrent w st)"
proof -
  let ?s = "setStatus j (setCurrent v st) s"
  have one: "UpdateCurrentValue j v s = ?s" using assms(1) by (rule UpdateCurrentValue_Some)
  obtain pst' where p': "stm ?s k = Some pst'" using assms(2) by (cases "j = k") auto
  have two: "UpdatePairResValue j v k w s = setStatus k (setCurrent w pst') ?s"
    unfolding UpdatePairResValue_def one using p' by (rule UpdateCurrentValue_Some)
  show "onlyStatus s (UpdatePairResValue j v k w s)"
    unfolding two using onlyStatus_setStatus [OF assms(1)] onlyStatus_setStatus [OF p']
    by (blast intro: onlyStatus_trans)
  show "stm (UpdatePairResValue j v k w s) = (stm s)(j \<mapsto> setCurrent v st, k \<mapsto> setCurrent w pst)"
    if "j \<noteq> k" using p' assms that unfolding two by auto
  show "stm (UpdatePairResValue j v k w s) = (stm s)(j \<mapsto> setCurrent w st)"
    if "j = k" using p' assms that unfolding two by auto
qed


lemma ArbitratePairRes_spec:
  assumes wf: "wf_wrap s" and st: "stm s k = Some st"
  shows "okE (\<lambda>s'. onlyStatus s s' \<and>
           stm s' = pairUpdate k (powerLimitBoost s \<or> thermalLimitBoost s \<or> l) st s (stm s))
         (ArbitratePairRes k l s)"
proof -
  let ?lim = "powerLimitBoost s \<or> thermalLimitBoost s \<or> l"
  have k: "k \<in> resIds s" and wfn: "wf_nodes s"
    using wf_wrap_resIds [OF wf st] wf by (simp_all add: wf_wrap_def)
  note tk = touchStatus_id [OF st]
  note uk = UpdateCurrentValue_Some [OF st]
  note ok = onlyStatus_setStatus [OF st]
  from wfn k show ?thesis
  proof (cases rule: nodes_lookup)
    case (gov n)
    then show ?thesis
      by (simp add: ArbitratePairRes_def Let_def tk statusAt_stm st uk ok pairUpdate_def)
  next
    case (res n pair)
    show ?thesis
    proof (cases "pair = INVALID_VALUE")
      case True
      with res show ?thesis
        by (simp add: ArbitratePairRes_def Let_def tk statusAt_stm st uk ok pairUpdate_def)
    next
      case False
      with res have p: "pair \<in> resIds s" and pof: "pairOf k s = Some pair" by auto
      obtain pst where pst: "stm s pair = Some pst" using wf p by (rule wf_wrap_status)
      note tp = touchStatus_id [OF pst]
      let ?v = "arbPair (isMaxRes k s) ?lim (rs_candidate st) (rs_candidate pst)"
      have eff: "onlyStatus s s' \<and> stm s' = pairUpdate k ?lim st s (stm s)"
        if "s' = UpdatePairResValue k (fst ?v) pair (snd ?v) s \<or>
            s' = UpdatePairResValue pair (snd ?v) k (fst ?v) s" for s'
      proof (cases "pair = k")
        case True
        with st pst have "pst = st" by simp
        with that True UpdatePairResValue_effect [OF st st] pof st show ?thesis
          by (auto simp: pairUpdate_def)
      next
        case False
        with that UpdatePairResValue_effect [OF st pst] UpdatePairResValue_effect [OF pst st] pof pst
        show ?thesis by (auto simp: pairUpdate_def Let_def fun_upd_twist)
      qed
      have "ArbitratePairRes k l s = Inr (UpdatePairResValue k (fst ?v) pair (snd ?v) s) \<or>
            ArbitratePairRes k l s = Inr (UpdatePairResValue pair (snd ?v) k (fst ?v) s)"
        using res False
        by (auto simp: ArbitratePairRes_def Let_def tk tp statusAt_stm st pst arbPair_def)
      then show ?thesis using eff by auto
    qed
  qed
qed

subsection \<open>One resource\<close>

definition noCandidate :: "ResStatus \<Rightarrow> bool" where
  "noCandidate st \<longleftrightarrow> candVal ACTION_TYPE_PERF st = INVALID_VALUE
     \<and> candVal ACTION_TYPE_POWER st = INVALID_VALUE
     \<and> candVal ACTION_TYPE_THERMAL st = INVALID_VALUE \<and> candVal ACTION_TYPE_PERFLVL st = INVALID_VALUE"

text \<open>
  The candidate of a resource: the default if no type asks for anything; otherwise the value of the
  limit case, lowered to (thermal level 0) or replaced by (other levels) the thermal-level request.
\<close>

definition candidateOf :: "bool \<Rightarrow> bool \<Rightarrow> int \<Rightarrow> ResStatus \<Rightarrow> int" where
  "candidateOf powerLimit thermalLimit lvl st =
     (if noCandidate st then NODE_DEFAULT_VALUE
      else
        let c = limitCaseValue powerLimit thermalLimit (candVal ACTION_TYPE_PERF st)
                  (candVal ACTION_TYPE_POWER st) (candVal ACTION_TYPE_THERMAL st);
            p = candVal ACTION_TYPE_PERFLVL st in
        if p = INVALID_VALUE then c
        else if lvl = 0 \<and> c \<noteq> INVALID_VALUE then min c p
        else p)"

definition endTimeOf :: "ResStatus \<Rightarrow> int" where
  "endTimeOf st =
     (if noCandidate st then MAX_INT_VALUE
      else min (min (candEnd ACTION_TYPE_PERF st) (candEnd ACTION_TYPE_POWER st))
             (candEnd ACTION_TYPE_THERMAL st))"

definition setCandidate :: "int \<Rightarrow> int \<Rightarrow> ResStatus \<Rightarrow> ResStatus" where
  "setCandidate c e st = st\<lparr>rs_candidate := c, rs_currentEndTime := e\<rparr>"

lemma setCandidate_sel [simp]:
  "rs_candidate (setCandidate c e st) = c" "rs_currentEndTime (setCandidate c e st) = e"
  "rs_resActionList (setCandidate c e st) = rs_resActionList st"
  "rs_candidatesValue (setCandidate c e st) = rs_candidatesValue st"
  "rs_candidatesEndTime (setCandidate c e st) = rs_candidatesEndTime st"
  "rs_currentValue (setCandidate c e st) = rs_currentValue st"
  "rs_previousValue (setCandidate c e st) = rs_previousValue st"
  "rs_previousEndTime (setCandidate c e st) = rs_previousEndTime st"
  "candVal t (setCandidate c e st) = candVal t st" "candEnd t (setCandidate c e st) = candEnd t st"
  "noCandidate (setCandidate c e st) = noCandidate st"
  "noCandidate (setCurrent v st) = noCandidate st"
  "wf_status (setCandidate c e st) = wf_status st"
  by (simp_all add: setCandidate_def candVal_def candEnd_def noCandidate_def wf_status_def)

lemma candidateOf_cong [simp]:
  "candidateOf pw th l (setCurrent v st) = candidateOf pw th l st"
  "candidateOf pw th l (setCandidate c e st) = candidateOf pw th l st"
  "endTimeOf (setCurrent v st) = endTimeOf st" "endTimeOf (setCandidate c e st) = endTimeOf st"
  by (simp_all add: candidateOf_def endTimeOf_def)

text \<open>Whether the thermal level of a request makes the maximum of the pair the limit.\<close>

definition lvlLimit :: "int \<Rightarrow> ResStatus \<Rightarrow> 'a SocPerfThreadWrap_scheme \<Rightarrow> bool" where
  "lvlLimit k st s \<longleftrightarrow> wrapThermalLvl s \<noteq> 0 \<and> (case pairOf k s of
       None \<Rightarrow> False
     | Some p \<Rightarrow> (isMaxRes k s \<or> isMaxRes p s) \<and>
         (candVal ACTION_TYPE_PERFLVL st \<noteq> INVALID_VALUE
          \<or> candVal ACTION_TYPE_PERFLVL (if p = k then st else the (stm s p)) \<noteq> INVALID_VALUE))"

definition arbUpdate ::
  "int \<Rightarrow> ResStatus \<Rightarrow> 'a SocPerfThreadWrap_scheme \<Rightarrow> (int \<Rightarrow> ResStatus option)" where
  "arbUpdate k st s = pairUpdate k (powerLimitBoost s \<or> thermalLimitBoost s \<or> lvlLimit k st s)
     (setCandidate (candidateOf (powerLimitBoost s) (thermalLimitBoost s) (wrapThermalLvl s) st)
        (endTimeOf st) st) s (stm s)"


lemma pairUpdate_upd: "pairUpdate k l st s (f(k \<mapsto> x)) = pairUpdate k l st s f"
  by (auto simp: pairUpdate_def Let_def split: option.splits)

lemma pairUpdate_cong:
  "resourceNodeInfo s = resourceNodeInfo t \<Longrightarrow> pairUpdate k l st s = pairUpdate k l st t"
  by (rule ext) (simp add: pairUpdate_def pairOf_cong [of s t] isMaxRes_cong [of s t] split: option.split)

lemma pairUpdate_unpaired: "pairOf k s = None \<Longrightarrow> pairUpdate k l st s f = pairUpdate k l' st s f"
  by (simp add: pairUpdate_def)

lemma pairUpdate_default:
  "rs_candidate st = NODE_DEFAULT_VALUE \<Longrightarrow> pairUpdate k l st s f = pairUpdate k l' st s f"
  by (auto simp: pairUpdate_def arbPair_default split: option.splits)

lemma setStatus_frame [simp]:
  "resourceNodeInfo (setStatus k st s) = resourceNodeInfo s"
  "powerLimitBoost (setStatus k st s) = powerLimitBoost s"
  "thermalLimitBoost (setStatus k st s) = thermalLimitBoost s"
  "wrapThermalLvl (setStatus k st s) = wrapThermalLvl s"
  by (simp_all add: setStatus_def)

lemma wf_setStatus:
  assumes "wf_wrap s" and "stm s k = Some st" and "wf_status st'"
  shows "wf_wrap (setStatus k st' s)"
  by (rule onlyStatus_wf [OF assms(1) onlyStatus_setStatus [OF assms(2)]])
    (use assms wf_wrap_resIds [OF assms(1)] in \<open>auto split: if_splits\<close>)

lemma pairOf_setStatus [simp]: "pairOf j (setStatus k st s) = pairOf j s"
  by (rule pairOf_cong) simp

lemma isMaxRes_setStatus [simp]: "isMaxRes j (setStatus k st s) = isMaxRes j s"
  by (rule isMaxRes_cong) simp

lemma lvlLimit_cong:
  assumes "candVal ACTION_TYPE_PERFLVL st = candVal ACTION_TYPE_PERFLVL st'"
  shows "lvlLimit k st (setStatus k st'' s) = lvlLimit k st' s"
  using assms by (auto simp: lvlLimit_def split: option.splits)

text \<open>The adjustment by the thermal-level request, and the arbitration of the pair that follows it.\<close>

definition lvlCandidate :: "int \<Rightarrow> ResStatus \<Rightarrow> int" where
  "lvlCandidate l st =
     (let p = candVal ACTION_TYPE_PERFLVL st in
      if p = INVALID_VALUE then rs_candidate st
      else if l = 0 \<and> rs_candidate st \<noteq> INVALID_VALUE then min (rs_candidate st) p else p)"

lemma perfLvlLimit_gov:
  assumes "IsGovResId k s = Inr True"
  shows "perfLvlLimit k pair s = Inr (False, s)"
  using assms by (simp add: perfLvlLimit_def)

lemma perfLvlLimit_res:
  assumes "nodeAt k s = Some n" and "IsGovResId k s = Inr False" and "touchNode k s = s"
    and "pair \<noteq> INVALID_VALUE \<Longrightarrow> touchNode pair s = s"
  shows "perfLvlLimit k pair s =
     Inr (wrapThermalLvl s \<noteq> 0 \<and> (isMaxRes k s \<or> pair \<noteq> INVALID_VALUE \<and> isMaxRes pair s), s)"
  using assms by (simp add: perfLvlLimit_def Let_def isMaxRes_def)

lemma ArbitratePairResInPerfLvl_spec:
  assumes wf: "wf_wrap s" and st: "stm s k = Some st"
  shows "okE (\<lambda>(handled, s'). if handled then onlyStatus s s' \<and>
            stm s' = pairUpdate k (powerLimitBoost s \<or> thermalLimitBoost s \<or> lvlLimit k st s)
              (setCandidate (lvlCandidate (wrapThermalLvl s) st) (rs_currentEndTime st) st) s (stm s)
          else s' = s \<and> candVal ACTION_TYPE_PERFLVL st = INVALID_VALUE \<and> \<not> lvlLimit k st s)
        (ArbitratePairResInPerfLvl k s)"
proof -
  have k: "k \<in> resIds s" and wfn: "wf_nodes s" and wst: "wf_status st"
    using wf_wrap_resIds [OF wf st] wf by (simp_all add: wf_wrap_def)
  define st' where "st' = setCandidate (lvlCandidate (wrapThermalLvl s) st) (rs_currentEndTime st) st"
  define s1 where "s1 = (if candVal ACTION_TYPE_PERFLVL st \<noteq> INVALID_VALUE then setStatus k st' s else s)"
  have s1: "onlyStatus s s1" "wf_wrap s1" "stm s1 k = Some st'"
    "pairUpdate k l st' s1 (stm s1) = pairUpdate k l st' s (stm s)"
    "wrapThermalLvl s1 = wrapThermalLvl s" "resourceNodeInfo s1 = resourceNodeInfo s"
    "powerLimitBoost s1 = powerLimitBoost s" "thermalLimitBoost s1 = thermalLimitBoost s" for l
  proof -
    have same: "st' = st" if "candVal ACTION_TYPE_PERFLVL st = INVALID_VALUE"
      using that by (simp add: st'_def lvlCandidate_def setCandidate_def)
    show "onlyStatus s s1" by (simp add: s1_def onlyStatus_setStatus [OF st])
    have "wf_status st'" using wst by (simp add: st'_def)
    then show "wf_wrap s1" using wf wf_setStatus [OF wf st] by (simp add: s1_def)
    show "stm s1 k = Some st'" using same st by (auto simp: s1_def)
    show "pairUpdate k l st' s1 (stm s1) = pairUpdate k l st' s (stm s)"
      using same by (auto simp: s1_def pairUpdate_upd intro: fun_cong [OF pairUpdate_cong])
  qed (simp_all add: s1_def)
  have arb: "okE (\<lambda>s'. onlyStatus s s' \<and>
      stm s' = pairUpdate k (powerLimitBoost s \<or> thermalLimitBoost s \<or> l) st' s (stm s))
      (ArbitratePairRes k l s1)" for l
    by (rule okE_mono [OF ArbitratePairRes_spec [OF s1(2,3)]])
      (use s1 in \<open>auto intro: onlyStatus_trans\<close>)
  have upd: "setStatus k (st\<lparr>rs_candidate := (if wrapThermalLvl s = 0 \<and> rs_candidate st \<noteq> INVALID_VALUE
      then Min64 (rs_candidate st) (candVal ACTION_TYPE_PERFLVL st) else candVal ACTION_TYPE_PERFLVL st)\<rparr>) s = s1"
    if "candVal ACTION_TYPE_PERFLVL st \<noteq> INVALID_VALUE"
    using that by (simp add: s1_def st'_def lvlCandidate_def setCandidate_def Let_def)
  note defs = ArbitratePairResInPerfLvl_def pairIdOf_def noPerfLvl_def Let_def statusAt_stm st
    touchStatus_id [OF st] st'_def [symmetric]
  note fold_s1 = s1_def [symmetric] upd
  from wfn k show ?thesis
  proof (cases rule: nodes_lookup)
    case (gov n)
    then have "IsGovResId k s1 = Inr True" by (simp add: IsGovResId_def s1(6))
    then have lim: "perfLvlLimit k INVALID_VALUE s1 = Inr (False, s1)" by (rule perfLvlLimit_gov)
    have eq: "ArbitratePairResInPerfLvl k s
        = bindE (ArbitratePairRes k False s1) (\<lambda>s. Inr (True, s))"
      using gov lim upd by (auto simp: defs s1_def)
    show ?thesis unfolding eq
      by (rule okE_bind [OF arb]) (use gov in \<open>simp add: lvlLimit_def st'_def\<close>)
  next
    case (res n pair)
    have res1: "nodeAt k s1 = Some n" "IsGovResId k s1 = Inr False" "touchNode k s1 = s1"
      "isMaxRes k s1 = isMaxRes k s" "isMaxRes pair s1 = isMaxRes pair s"
      using res k s1(6) by (simp_all add: nodeAt_def IsGovResId_def isMaxRes_def touchNode_id)
    have tp: "touchNode pair s1 = s1" if "pair \<noteq> INVALID_VALUE"
      by (rule touchNode_id) (use that res s1(6) in simp)
    note lim = perfLvlLimit_res [OF res1(1-3) tp, unfolded res1(4,5)]
    show ?thesis
    proof (cases "pair = INVALID_VALUE")
      case True
      have eq: "ArbitratePairResInPerfLvl k s = bindE (ArbitratePairRes k
          (wrapThermalLvl s \<noteq> 0 \<and> isMaxRes k s) s1) (\<lambda>s. Inr (True, s))"
        using res lim True upd s1(5) by (auto simp: defs s1_def)
      have "pairOf k s = None" using res True by simp
      then show ?thesis unfolding eq
        by (intro okE_bind [OF arb]) (auto simp: st'_def intro: pairUpdate_unpaired)
    next
      case False
      with res have p: "pair \<in> resIds s" and pof: "pairOf k s = Some pair" by auto
      obtain pst where pst: "stm s pair = Some pst" using wf p by (rule wf_wrap_status)
      have the_p: "(if pair = k then st else the (stm s pair)) = pst" using pst st by auto
      show ?thesis
      proof (cases "candVal ACTION_TYPE_PERFLVL st = INVALID_VALUE
          \<and> candVal ACTION_TYPE_PERFLVL pst = INVALID_VALUE")
        case True
        then have "ArbitratePairResInPerfLvl k s = Inr (False, s)"
          using res False pst by (simp add: defs touchStatus_id [OF pst])
        moreover have "\<not> lvlLimit k st s" using True pof the_p by (simp add: lvlLimit_def)
        ultimately show ?thesis using True by simp
      next
        case some: False
        have ll: "lvlLimit k st s \<longleftrightarrow> wrapThermalLvl s \<noteq> 0 \<and> (isMaxRes k s \<or> isMaxRes pair s)"
          using some pof the_p by (auto simp: lvlLimit_def)
        have eq: "ArbitratePairResInPerfLvl k s
            = bindE (ArbitratePairRes k (lvlLimit k st s) s1) (\<lambda>s. Inr (True, s))"
          using res False some pst lim upd s1(5) by (auto simp: defs touchStatus_id [OF pst] s1_def ll)
        show ?thesis unfolding eq by (rule okE_bind [OF arb]) (simp add: st'_def)
      qed
    qed
  qed
qed


lemma candidateOf_lvlCandidate:
  assumes "\<not> noCandidate st"
    and "rs_candidate st' = limitCaseValue pw th (candVal ACTION_TYPE_PERF st)
           (candVal ACTION_TYPE_POWER st) (candVal ACTION_TYPE_THERMAL st)"
    and "candVal ACTION_TYPE_PERFLVL st' = candVal ACTION_TYPE_PERFLVL st"
  shows "lvlCandidate l st' = candidateOf pw th l st"
  using assms by (simp add: candidateOf_def lvlCandidate_def Let_def)

lemma setCandidate_twice [simp]: "setCandidate c e (setCandidate c' e' st) = setCandidate c e st"
  by (simp add: setCandidate_def)

lemma ArbitrateCandidate_spec:
  assumes wf: "wf_wrap s" and st: "stm s k = Some st"
  shows "okE (\<lambda>s'. onlyStatus s s' \<and> stm s' = arbUpdate k st s) (ArbitrateCandidate k s)"
proof (cases "noCandidate st")
  case True
  let ?st = "setCandidate NODE_DEFAULT_VALUE MAX_INT_VALUE st"
  let ?s = "setStatus k ?st s"
  have upd: "st\<lparr>rs_candidate := NODE_DEFAULT_VALUE, rs_currentEndTime := MAX_INT_VALUE\<rparr> = ?st"
    by (simp add: setCandidate_def)
  have eq: "ArbitrateCandidate k s = bindE (ArbitratePairRes k False ?s) (\<lambda>s. Inr s)"
    using True by (simp add: ArbitrateCandidate_def ExistNoCandidate_def noCandidate_def Let_def
        touchStatus_id [OF st] statusAt_stm st upd bindE_assoc)
  have wf': "wf_wrap ?s" and st': "stm ?s k = Some ?st"
    using wf_setStatus [OF wf st] wf_wrap_resIds [OF wf st] by simp_all
  have "arbUpdate k st s = pairUpdate k l ?st ?s (stm ?s)" for l
    using True unfolding arbUpdate_def
    by (simp add: candidateOf_def endTimeOf_def pairUpdate_upd pairUpdate_cong [of ?s s]
        pairUpdate_default [of ?st k l _ _ "powerLimitBoost s \<or> thermalLimitBoost s \<or> lvlLimit k st s"])
  then show ?thesis unfolding eq
    by (intro okE_bind [OF ArbitratePairRes_spec [OF wf' st']])
      (auto intro: onlyStatus_trans [OF onlyStatus_setStatus [OF st]])
next
  case False
  define st2 where "st2 = setCandidate (limitCaseValue (powerLimitBoost s) (thermalLimitBoost s)
      (candVal ACTION_TYPE_PERF st) (candVal ACTION_TYPE_POWER st) (candVal ACTION_TYPE_THERMAL st))
      (endTimeOf st) st"
  let ?s2 = "setStatus k st2 s"
  have pl: "ProcessLimitCase k s = Inr ?s2"
    using False by (simp add: ProcessLimitCase_def Let_def touchStatus_id [OF st] statusAt_stm st
        st2_def setCandidate_def endTimeOf_def)
  have ex: "ExistNoCandidate k st s = Inr (False, s)"
    using False unfolding ExistNoCandidate_def noCandidate_def by (simp only: if_False)
  have eq: "ArbitrateCandidate k s = bindE (ArbitratePairResInPerfLvl k ?s2)
      (\<lambda>(handled, s). if handled then Inr s else ArbitratePairRes k False s)"
    using pl ex by (simp add: ArbitrateCandidate_def Let_def touchStatus_id [OF st] statusAt_stm st)
  have wf2: "wf_wrap ?s2" and st2: "stm ?s2 k = Some st2"
    using wf_setStatus [OF wf st] wf_wrap_resIds [OF wf st] by (simp_all add: st2_def)
  have only2: "onlyStatus s ?s2" by (rule onlyStatus_setStatus [OF st])
  let ?lim = "powerLimitBoost s \<or> thermalLimitBoost s \<or> lvlLimit k st s"
  have ll: "lvlLimit k st2 ?s2 = lvlLimit k st s" by (rule lvlLimit_cong) (simp add: st2_def)
  have cand: "setCandidate (lvlCandidate (wrapThermalLvl s) st2) (rs_currentEndTime st2) st2
      = setCandidate (candidateOf (powerLimitBoost s) (thermalLimitBoost s) (wrapThermalLvl s) st)
          (endTimeOf st) st"
    using candidateOf_lvlCandidate [OF False, of st2] by (simp add: st2_def)
  have goal: "pairUpdate k ?lim (setCandidate (lvlCandidate (wrapThermalLvl s) st2) (rs_currentEndTime st2) st2)
      ?s2 (stm ?s2) = arbUpdate k st s"
    by (simp add: cand arbUpdate_def pairUpdate_upd pairUpdate_cong [of ?s2 s])
  show ?thesis unfolding eq
  proof (rule okE_bind [OF ArbitratePairResInPerfLvl_spec [OF wf2 st2]], clarify, goal_cases)
    case (1 handled s')
    show ?case
    proof (cases handled)
      case True
      with 1 goal ll show ?thesis by (auto intro: onlyStatus_trans [OF only2])
    next
      case False
      with 1 have s': "s' = ?s2" and inv: "candVal ACTION_TYPE_PERFLVL st2 = INVALID_VALUE"
        and nl: "\<not> lvlLimit k st s" by (simp_all add: ll)
      have "lvlCandidate (wrapThermalLvl s) st2 = rs_candidate st2"
        using inv by (simp add: lvlCandidate_def)
      then have "st2 = setCandidate (lvlCandidate (wrapThermalLvl s) st2) (rs_currentEndTime st2) st2"
        by (simp add: setCandidate_def)
      then have "pairUpdate k (powerLimitBoost s \<or> thermalLimitBoost s \<or> False) st2 ?s2 (stm ?s2)
          = arbUpdate k st s"
        using goal nl by simp
      with False s' show ?thesis
        by (auto intro!: okE_mono [OF ArbitratePairRes_spec [OF wf2 st2]] intro: onlyStatus_trans [OF only2])
    qed
  qed
qed

subsection \<open>The candidates of a type\<close>

text \<open>\<open>refreshCandidate\<close>: the status after the first half of \<open>UpdateCandidatesValue\<close>.\<close>

definition refreshCandidate :: "int \<Rightarrow> ResStatus \<Rightarrow> ResStatus" where
  "refreshCandidate t st =
     (let c = candidateSpec t (rs_resActionList st ! nat t) in
      st\<lparr>rs_candidatesValue := (rs_candidatesValue st)[nat t := fst c],
         rs_candidatesEndTime := (rs_candidatesEndTime st)[nat t := snd c]\<rparr>)"

definition typed_lists :: "ResStatus \<Rightarrow> bool" where
  "typed_lists st \<longleftrightarrow> (\<forall>as\<in>set (rs_resActionList st). \<forall>a\<in>set as. typed_action a)"

lemma refreshCandidate_sel [simp]:
  "rs_resActionList (refreshCandidate t st) = rs_resActionList st"
  "rs_candidate (refreshCandidate t st) = rs_candidate st"
  "rs_currentValue (refreshCandidate t st) = rs_currentValue st"
  "rs_currentEndTime (refreshCandidate t st) = rs_currentEndTime st"
  "rs_previousValue (refreshCandidate t st) = rs_previousValue st"
  "rs_previousEndTime (refreshCandidate t st) = rs_previousEndTime st"
  "wf_status (refreshCandidate t st) = wf_status st"
  by (simp_all add: refreshCandidate_def wf_status_def Let_def)

lemma refreshCandidate_cand:
  assumes "wf_status st" and "0 \<le> t" and "t < ACTION_TYPE_MAX" and "0 \<le> u"
  shows "candVal u (refreshCandidate t st) =
      (if u = t then fst (candidateSpec t (rs_resActionList st ! nat t)) else candVal u st)"
    and "candEnd u (refreshCandidate t st) =
      (if u = t then snd (candidateSpec t (rs_resActionList st ! nat t)) else candEnd u st)"
  using assms
  by (auto simp: refreshCandidate_def candVal_def candEnd_def wf_status_def Let_def nth_list_update)

lemma UpdateCandidatesValue_eq:
  assumes wf: "wf_wrap s" and st: "stm s k = Some st" and ty: "typed_lists st"
    and t: "0 \<le> t" "t < ACTION_TYPE_MAX"
  shows "UpdateCandidatesValue k t s =
      (let st' = refreshCandidate t st; s' = setStatus k st' s in
       if candVal t st' = candVal t st \<and> candEnd t st' = candEnd t st then Inr s'
       else ArbitrateCandidate k s')"
proof -
  have wst: "wf_status st" using wf_wrap_resIds [OF wf st] by simp
  then have len: "nat t < length (rs_resActionList st)" "nat t < length (rs_candidatesValue st)"
    "nat t < length (rs_candidatesEndTime st)"
    using t by (auto simp: wf_status_def)
  then have at: "atE (rs_resActionList st) t = Inr (rs_resActionList st ! nat t)"
    "atE (rs_candidatesValue st) t = Inr (candVal t st)"
    "atE (rs_candidatesEndTime st) t = Inr (candEnd t st)"
    using t by (auto simp: atE_def candVal_def candEnd_def)
  let ?as = "rs_resActionList st ! nat t"
  have tas: "\<forall>a\<in>set ?as. typed_action a" using ty len(1) by (auto simp: typed_lists_def)
  have ref: "(if ?as = [] then
               st\<lparr>rs_candidatesValue := (rs_candidatesValue st)[nat t := INVALID_VALUE],
                  rs_candidatesEndTime := (rs_candidatesEndTime st)[nat t := MAX_INT_VALUE]\<rparr>
             else InnerArbitrateCandidatesValue t st) = refreshCandidate t st"
    using innerArbitrateLoop_spec [OF _ tas, of t]
    by (simp add: refreshCandidate_def candidateSpec_def InnerArbitrateCandidatesValue_def Let_def
        isPerfFirstType_def)
  show ?thesis
    unfolding UpdateCandidatesValue_def Let_def touchStatus_id [OF st] statusAt_stm st derefE_simps
      bindE_simps at ref by simp
qed

end
