(* ===== verification/ResourceInvariant.thy ===== *)
theory ResourceInvariant
  imports Arbitration
begin

text \<open>
  The invariant of the resource table and its preservation by every operation on the list of live
  actions. \<open>resInv\<close> says, for every resource: the candidate of each action type is what
  \<open>candidateSpec\<close> says of the live actions of that type; the candidate of the resource and its end
  time are what the policy says of the candidates of the types; the value in force is what
  \<open>arbPair\<close> says of the candidates of the resource and its pair.
\<close>

subsection \<open>The invariant\<close>

definition actionsOf :: "int \<Rightarrow> ResStatus \<Rightarrow> ResAction list" where
  "actionsOf t st = rs_resActionList st ! nat t"

definition typed_status :: "ResStatus \<Rightarrow> bool" where
  "typed_status st \<longleftrightarrow> (\<forall>t a. 0 \<le> t \<and> t < ACTION_TYPE_MAX \<and> a \<in> set (actionsOf t st) \<longrightarrow>
     typed_action a \<and> ra_type a = t)"

definition cand_ok :: "ResStatus \<Rightarrow> bool" where
  "cand_ok st \<longleftrightarrow> (\<forall>t. 0 \<le> t \<and> t < ACTION_TYPE_BATTERY \<longrightarrow>
     (candVal t st, candEnd t st) = candidateSpec t (actionsOf t st))"

definition policy_at :: "int \<Rightarrow> 'a SocPerfThreadWrap_scheme \<Rightarrow> bool" where
  "policy_at k s \<longleftrightarrow> (\<forall>st. stm s k = Some st \<longrightarrow>
     (\<exists>l. rs_candidate st = candidateOf (powerLimitBoost s) (thermalLimitBoost s) l st)
     \<and> rs_currentEndTime st = endTimeOf st)"

text \<open>Paired resources name each other, and one of the two is marked as the maximum.\<close>

definition sym_pairs :: "'a SocPerfConfig_scheme \<Rightarrow> bool" where
  "sym_pairs s \<longleftrightarrow> (\<forall>k p. pairOf k s = Some p \<longrightarrow> pairOf p s = Some k
     \<and> (p \<noteq> k \<longrightarrow> isMaxRes p s = (\<not> isMaxRes k s)))"

lemma sym_pairsD:
  assumes "sym_pairs s" and "pairOf k s = Some p"
  shows "pairOf p s = Some k" and "p \<noteq> k \<Longrightarrow> isMaxRes p s = (\<not> isMaxRes k s)"
  using assms unfolding sym_pairs_def by blast+

lemma sym_pairs_cong:
  assumes "resourceNodeInfo s = resourceNodeInfo t"
  shows "sym_pairs s = sym_pairs t"
  unfolding sym_pairs_def pairOf_cong [OF assms] isMaxRes_cong [OF assms] ..

definition values_ok :: "'a SocPerfThreadWrap_scheme \<Rightarrow> bool" where
  "values_ok s \<longleftrightarrow> (\<forall>k st. stm s k = Some st \<longrightarrow> (case pairOf k s of
       None \<Rightarrow> rs_currentValue st = rs_candidate st
     | Some p \<Rightarrow> (\<exists>lim. (rs_currentValue st, rs_currentValue (the (stm s p)))
           = arbPair (isMaxRes k s) lim (rs_candidate st) (rs_candidate (the (stm s p))))))"

definition resInv :: "int set \<Rightarrow> 'a SocPerfThreadWrap_scheme \<Rightarrow> bool" where
  "resInv K s \<longleftrightarrow> wf_wrap s
     \<and> (\<forall>k st. stm s k = Some st \<longrightarrow> typed_status st \<and> cand_ok st)
     \<and> (\<forall>k\<in>K. policy_at k s)
     \<and> (sym_pairs s \<longrightarrow> values_ok s)"

lemma typed_status_lists: "wf_status st \<Longrightarrow> typed_status st \<Longrightarrow> typed_lists st"
  unfolding typed_lists_def typed_status_def wf_status_def actionsOf_def
  by (metis Suc_eq_plus1 in_set_conv_nth nat_int of_nat_0_le_iff of_nat_less_iff of_nat_numeral)

lemma sel_actionsOf [simp]:
  "actionsOf t (setCurrent v st) = actionsOf t st"
  "actionsOf t (setCandidate c e st) = actionsOf t st"
  "actionsOf t (refreshCandidate u st) = actionsOf t st"
  by (simp_all add: actionsOf_def)

lemma typed_status_sel [simp]:
  "typed_status (setCurrent v st) = typed_status st"
  "typed_status (setCandidate c e st) = typed_status st"
  "typed_status (refreshCandidate u st) = typed_status st"
  by (simp_all add: typed_status_def)

lemma cand_ok_sel [simp]:
  "cand_ok (setCurrent v st) = cand_ok st"
  "cand_ok (setCandidate c e st) = cand_ok st"
  by (simp_all add: cand_ok_def)

subsection \<open>One arbitration\<close>

text \<open>Apart from the value in force, only the status of the arbitrated resource changes.\<close>

lemma pairUpdate_core:
  assumes "\<And>p. pairOf k s = Some p \<Longrightarrow> p \<noteq> k \<Longrightarrow> f p \<noteq> None"
  shows "map_option (setCurrent 0) (pairUpdate k l st s f j) =
    (if j = k then Some (setCurrent 0 st) else map_option (setCurrent 0) (f j))"
  using assms by (auto simp: pairUpdate_def Let_def split: option.splits)

text \<open>What an arbitration leaves alone: the live actions and the values last sent.\<close>

definition kept :: "ResStatus \<Rightarrow> ResAction list list \<times> int \<times> int" where
  "kept st = (rs_resActionList st, rs_previousValue st, rs_previousEndTime st)"

lemma kept_sel [simp]:
  "kept (setCurrent v st) = kept st" "kept (setCandidate c e st) = kept st"
  "kept (refreshCandidate u st) = kept st"
  by (simp_all add: kept_def)

lemma setCurrent_0_eqD:
  assumes "setCurrent 0 st = setCurrent 0 st'"
  shows "actionsOf t st = actionsOf t st'" "candVal t st = candVal t st'" "candEnd t st = candEnd t st'"
    "rs_candidate st = rs_candidate st'" "rs_currentEndTime st = rs_currentEndTime st'"
    "candidateOf pw th l st = candidateOf pw th l st'" "endTimeOf st = endTimeOf st'"
    "typed_status st = typed_status st'" "cand_ok st = cand_ok st'" "wf_status st = wf_status st'"
    "rs_resActionList st = rs_resActionList st'" "rs_previousValue st = rs_previousValue st'"
    "rs_previousEndTime st = rs_previousEndTime st'" "kept st = kept st'"
  using arg_cong [OF assms, of "actionsOf t"] arg_cong [OF assms, of "candVal t"]
    arg_cong [OF assms, of "candEnd t"] arg_cong [OF assms, of rs_candidate]
    arg_cong [OF assms, of rs_currentEndTime] arg_cong [OF assms, of "candidateOf pw th l"]
    arg_cong [OF assms, of endTimeOf] arg_cong [OF assms, of typed_status]
    arg_cong [OF assms, of cand_ok] arg_cong [OF assms, of wf_status]
    arg_cong [OF assms, of rs_resActionList] arg_cong [OF assms, of rs_previousValue]
    arg_cong [OF assms, of rs_previousEndTime] arg_cong [OF assms, of kept]
  by simp_all

lemma values_ok_pairUpdate:
  assumes sym: "sym_pairs s" and vs: "values_ok s"
    and nodes: "resourceNodeInfo s' = resourceNodeInfo s"
    and upd: "stm s' = pairUpdate k l st s (stm s)"
    and pres: "\<And>p. pairOf k s = Some p \<Longrightarrow> stm s p \<noteq> None"
  shows "values_ok s'"
  unfolding values_ok_def
proof (intro allI impI)
  fix j sj
  assume sj: "stm s' j = Some sj"
  have po: "pairOf i s' = pairOf i s" and im: "isMaxRes i s' = isMaxRes i s" for i
    by (rule pairOf_cong [OF nodes], rule isMaxRes_cong [OF nodes])
  have old: "case pairOf j s of None \<Rightarrow> rs_currentValue sj = rs_candidate sj
     | Some p \<Rightarrow> (\<exists>lim. (rs_currentValue sj, rs_currentValue (the (stm s p)))
           = arbPair (isMaxRes j s) lim (rs_candidate sj) (rs_candidate (the (stm s p))))"
    if "stm s j = Some sj"
    using vs that unfolding values_ok_def by blast
  show "case pairOf j s' of None \<Rightarrow> rs_currentValue sj = rs_candidate sj
     | Some p \<Rightarrow> (\<exists>lim. (rs_currentValue sj, rs_currentValue (the (stm s' p)))
           = arbPair (isMaxRes j s') lim (rs_candidate sj) (rs_candidate (the (stm s' p))))"
    (is ?G)
  proof -
    have keep: ?G
      if "stm s j = Some sj" and "\<And>p. pairOf j s = Some p \<Longrightarrow> stm s' p = stm s p"
      using old [OF that(1)] that(2) by (cases "pairOf j s") (auto simp: po im)
    show ?G
  proof (cases "pairOf k s")
    case None
    then have s': "stm s' = (stm s)(k \<mapsto> setCurrent (rs_candidate st) st)"
      by (simp add: upd pairUpdate_def)
    have np: "p \<noteq> k" if "pairOf j s = Some p" for p
    proof
      assume "p = k"
      with sym_pairsD(1) [OF sym that] have "pairOf k s = Some j" by simp
      with None show False by simp
    qed
    show ?thesis
    proof (cases "j = k")
      case True
      with sj s' None show ?thesis by (auto simp: po)
    next
      case False
      with sj s' np show ?thesis by (intro keep) auto
    qed
  next
    case (Some p)
    then obtain pst where pst: "stm s p = Some pst" using pres by blast
    note bp = sym_pairsD(1) [OF sym Some] and mx = sym_pairsD(2) [OF sym Some]
    show ?thesis
    proof (cases "p = k")
      case True
      with Some have s': "stm s' = (stm s)(k \<mapsto> setCurrent (rs_candidate st) st)"
        by (simp add: upd pairUpdate_def)
      have np: "j = k" if "pairOf j s = Some q" "q = k" for q
        using sym_pairsD(1) [OF sym that(1)] Some True that(2) by simp
      show ?thesis
      proof (cases "j = k")
        case True
        with sj s' Some \<open>p = k\<close> show ?thesis by (auto simp: po)
      next
        case False
        with sj s' np show ?thesis by (intro keep) auto
      qed
    next
      case False
      define vw where "vw = arbPair (isMaxRes k s) l (rs_candidate st) (rs_candidate pst)"
      have s': "stm s' = (stm s)(k \<mapsto> setCurrent (fst vw) st, p \<mapsto> setCurrent (snd vw) pst)"
        using Some pst False by (simp add: upd pairUpdate_def vw_def Let_def)
      have sw: "arbPair (isMaxRes p s) l (rs_candidate pst) (rs_candidate st) = (snd vw, fst vw)"
        using arbPair_sym [of "isMaxRes k s" l "rs_candidate pst" "rs_candidate st"] mx [OF False]
        by (simp add: vw_def prod.swap_def)
      consider "j = k" | "j = p" | "j \<noteq> k" "j \<noteq> p" by blast
      then show ?thesis
      proof cases
        case 1
        have "sj = setCurrent (fst vw) st" and "stm s' p = Some (setCurrent (snd vw) pst)"
          using sj 1 False by (simp_all add: s')
        then show ?thesis using 1 Some by (auto simp: po im vw_def intro: exI [of _ l])
      next
        case 2
        have "sj = setCurrent (snd vw) pst" and "stm s' k = Some (setCurrent (fst vw) st)"
          using sj 2 False by (simp_all add: s')
        then show ?thesis using 2 bp sw by (auto simp: po im intro: exI [of _ l])
      next
        case 3
        have "q \<noteq> k \<and> q \<noteq> p" if "pairOf j s = Some q" for q
          using sym_pairsD(1) [OF sym that] Some bp 3 by auto
        then show ?thesis using sj 3 by (intro keep) (auto simp: s')
      qed
    qed
  qed
  qed
qed


lemma pair_status_present:
  assumes "wf_wrap s" and "pairOf k s = Some p"
  shows "stm s p \<noteq> None"
proof -
  from assms(1) have "wf_nodes s" by (simp add: wf_wrap_def)
  with assms(2) have "p \<in> resIds s" by (blast dest: pairOf_resIds)
  with assms(1) show ?thesis unfolding wf_wrap_def by blast
qed

text \<open>
  An arbitration of \<open>k\<close> from a state where the status of \<open>k\<close> is \<open>st\<close>: \<open>k\<close> satisfies the policy
  afterwards, every other resource as before.
\<close>

lemma arbUpdate_inv:
  assumes wf: "wf_wrap s" and st: "stm s k = Some st" and only: "onlyStatus s s'"
    and upd: "stm s' = arbUpdate k st s"
    and ty: "\<And>j sj. stm s j = Some sj \<Longrightarrow> typed_status sj \<and> cand_ok sj"
    and pol: "\<And>j. j \<in> K \<Longrightarrow> j \<noteq> k \<Longrightarrow> policy_at j s"
    and vals: "sym_pairs s \<Longrightarrow> values_ok s"
  shows "resInv (insert k K) s'"
    and "map_option kept (stm s' j) = map_option kept (stm s j)"
proof -
  note fr = onlyStatus_frame [OF only]
  define st' where "st' = setCandidate
    (candidateOf (powerLimitBoost s) (thermalLimitBoost s) (wrapThermalLvl s) st) (endTimeOf st) st"
  have upd': "stm s' = pairUpdate k (powerLimitBoost s \<or> thermalLimitBoost s \<or> lvlLimit k st s) st' s (stm s)"
    by (simp add: upd arbUpdate_def st'_def)
  have core: "map_option (setCurrent 0) (stm s' j) =
      (if j = k then Some (setCurrent 0 st') else map_option (setCurrent 0) (stm s j))" for j
    unfolding upd' by (rule pairUpdate_core) (rule pair_status_present [OF wf])
  have at_k: "\<exists>sk. stm s' k = Some sk \<and> setCurrent 0 sk = setCurrent 0 st'"
    using core [of k] by auto
  have other: "\<exists>sj'. stm s j = Some sj' \<and> setCurrent 0 sj = setCurrent 0 sj'"
    if "stm s' j = Some sj" "j \<noteq> k" for j sj
    using core [of j] that by (cases "stm s j") auto
  have dom: "stm s' j \<noteq> None \<longleftrightarrow> stm s j \<noteq> None" for j
    using core [of j] st by (cases "j = k"; cases "stm s j"; cases "stm s' j") auto
  have all: "wf_status sj \<and> typed_status sj \<and> cand_ok sj" if sj: "stm s' j = Some sj" for j sj
  proof (cases "j = k")
    case True
    then have "setCurrent 0 sj = setCurrent 0 st'" using at_k sj by auto
    moreover have "wf_status st' \<and> typed_status st' \<and> cand_ok st'"
      using ty [OF st] wf_wrap_resIds [OF wf st] by (simp add: st'_def)
    ultimately show ?thesis using setCurrent_0_eqD by metis
  next
    case False
    then obtain sj' where "stm s j = Some sj'" "setCurrent 0 sj = setCurrent 0 sj'"
      using other sj by blast
    then show ?thesis using ty wf_wrap_resIds [OF wf] setCurrent_0_eqD by metis
  qed
  have "wf_wrap s'" by (rule onlyStatus_wf [OF wf only dom]) (use all in blast)
  moreover have "policy_at k s'"
    unfolding policy_at_def
  proof (intro allI impI)
    fix sk assume "stm s' k = Some sk"
    with at_k have eq: "setCurrent 0 sk = setCurrent 0 st'" by auto
    show "(\<exists>l. rs_candidate sk = candidateOf (powerLimitBoost s') (thermalLimitBoost s') l sk)
        \<and> rs_currentEndTime sk = endTimeOf sk"
      unfolding setCurrent_0_eqD [OF eq] fr by (auto simp: st'_def)
  qed
  moreover have "policy_at j s'" if "j \<in> K" "j \<noteq> k" for j
    unfolding policy_at_def
  proof (intro allI impI)
    fix sj assume "stm s' j = Some sj"
    then obtain sj' where sj': "stm s j = Some sj'" and eq: "setCurrent 0 sj = setCurrent 0 sj'"
      using other \<open>j \<noteq> k\<close> by blast
    show "(\<exists>l. rs_candidate sj = candidateOf (powerLimitBoost s') (thermalLimitBoost s') l sj)
        \<and> rs_currentEndTime sj = endTimeOf sj"
      using pol [OF that] sj' unfolding setCurrent_0_eqD [OF eq] fr policy_at_def by blast
  qed
  moreover have "values_ok s'" if "sym_pairs s'"
  proof -
    have sy: "sym_pairs s" using that sym_pairs_cong [OF fr(1)] by simp
    show ?thesis
      by (rule values_ok_pairUpdate [OF sy vals [OF sy] fr(1) upd' pair_status_present [OF wf]])
  qed
  ultimately show "resInv (insert k K) s'" using all unfolding resInv_def by blast
  show "map_option kept (stm s' j) = map_option kept (stm s j)"
  proof (cases "j = k")
    case True
    with at_k st show ?thesis by (auto simp: st'_def dest: setCurrent_0_eqD(14))
  next
    case False
    then show ?thesis using other [of j] dom [of j]
      by (cases "stm s' j"; cases "stm s j") (auto dest: setCurrent_0_eqD(14))
  qed
qed


text \<open>Re-arbitration of one resource, as the limit switches do for every resource.\<close>

lemma ArbitrateCandidate_inv:
  assumes inv: "resInv K s" and k: "stm s k \<noteq> None"
  shows "okE (\<lambda>s'. resInv (insert k K) s' \<and> onlyStatus s s' \<and>
           (\<forall>j. map_option kept (stm s' j) = map_option kept (stm s j)))
         (ArbitrateCandidate k s)"
proof -
  obtain st where st: "stm s k = Some st" using k by blast
  have wf: "wf_wrap s" and ty: "\<And>j sj. stm s j = Some sj \<Longrightarrow> typed_status sj \<and> cand_ok sj"
    and pol: "\<And>j. j \<in> K \<Longrightarrow> j \<noteq> k \<Longrightarrow> policy_at j s" and vals: "sym_pairs s \<Longrightarrow> values_ok s"
    using inv unfolding resInv_def by blast+
  show ?thesis
  proof (rule okE_mono [OF ArbitrateCandidate_spec [OF wf st]], elim conjE, intro conjI allI)
    fix s' j assume a: "onlyStatus s s'" "stm s' = arbUpdate k st s"
    show "resInv (insert k K) s'" by (rule arbUpdate_inv(1) [OF wf st a ty pol vals])
    show "onlyStatus s s'" by (rule a)
    show "map_option kept (stm s' j) = map_option kept (stm s j)"
      by (rule arbUpdate_inv(2) [OF wf st a ty pol vals])
  qed
qed

subsection \<open>Changing the live actions of one type\<close>

lemma nat_less_5: "0 \<le> t \<Longrightarrow> t < ACTION_TYPE_MAX \<Longrightarrow> nat t < 5"
  by simp

lemma setActionList_sel [simp]:
  "rs_candidatesValue (setActionList t as st) = rs_candidatesValue st"
  "rs_candidatesEndTime (setActionList t as st) = rs_candidatesEndTime st"
  "rs_candidate (setActionList t as st) = rs_candidate st"
  "rs_currentValue (setActionList t as st) = rs_currentValue st"
  "rs_currentEndTime (setActionList t as st) = rs_currentEndTime st"
  "rs_previousValue (setActionList t as st) = rs_previousValue st"
  "rs_previousEndTime (setActionList t as st) = rs_previousEndTime st"
  "rs_resActionList (setActionList t as st) = (rs_resActionList st)[nat t := as]"
  "candVal u (setActionList t as st) = candVal u st"
  "candEnd u (setActionList t as st) = candEnd u st"
  "candidateOf pw th l (setActionList t as st) = candidateOf pw th l st"
  "endTimeOf (setActionList t as st) = endTimeOf st"
  "wf_status (setActionList t as st) = wf_status st"
  by (simp_all add: setActionList_def candVal_def candEnd_def candidateOf_def endTimeOf_def
      noCandidate_def wf_status_def)

lemma actionsOf_setActionList:
  assumes "wf_status st" and "0 \<le> t" and "t < ACTION_TYPE_MAX" and "0 \<le> u"
  shows "actionsOf u (setActionList t as st) = (if u = t then as else actionsOf u st)"
  using assms by (auto simp: actionsOf_def wf_status_def nth_list_update)

lemma typed_status_setActionList:
  assumes "wf_status st" and "typed_status st" and "0 \<le> t" and "t < ACTION_TYPE_MAX"
    and "\<forall>a\<in>set as. typed_action a \<and> ra_type a = t"
  shows "typed_status (setActionList t as st)"
  unfolding typed_status_def
proof (intro allI impI)
  fix u a
  assume a: "0 \<le> u \<and> u < ACTION_TYPE_MAX \<and> a \<in> set (actionsOf u (setActionList t as st))"
  then show "typed_action a \<and> ra_type a = u"
    using assms(2,5) actionsOf_setActionList [OF assms(1,3,4), of u as]
    by (cases "u = t") (auto simp: typed_status_def)
qed

lemma cand_ok_refresh:
  assumes "wf_status st" and "0 \<le> t" and "t < ACTION_TYPE_MAX"
    and "\<And>u. 0 \<le> u \<Longrightarrow> u < ACTION_TYPE_BATTERY \<Longrightarrow> u \<noteq> t \<Longrightarrow>
           (candVal u st, candEnd u st) = candidateSpec u (actionsOf u st)"
  shows "cand_ok (refreshCandidate t st)"
  unfolding cand_ok_def
proof (intro allI impI)
  fix u assume u: "0 \<le> u \<and> u < ACTION_TYPE_BATTERY"
  then show "(candVal u (refreshCandidate t st), candEnd u (refreshCandidate t st))
      = candidateSpec u (actionsOf u (refreshCandidate t st))"
    using refreshCandidate_cand [OF assms(1-3), of u] assms(4) [of u]
    by (cases "u = t") (simp_all add: actionsOf_def)
qed

lemma candidateOf_congI:
  assumes "\<And>u. 0 \<le> u \<Longrightarrow> u < ACTION_TYPE_BATTERY \<Longrightarrow> candVal u st = candVal u st' \<and> candEnd u st = candEnd u st'"
  shows "candidateOf pw th l st = candidateOf pw th l st'" and "endTimeOf st = endTimeOf st'"
proof -
  have "candVal ACTION_TYPE_PERF st = candVal ACTION_TYPE_PERF st'"
    "candVal ACTION_TYPE_POWER st = candVal ACTION_TYPE_POWER st'"
    "candVal ACTION_TYPE_THERMAL st = candVal ACTION_TYPE_THERMAL st'"
    "candVal ACTION_TYPE_PERFLVL st = candVal ACTION_TYPE_PERFLVL st'"
    "candEnd ACTION_TYPE_PERF st = candEnd ACTION_TYPE_PERF st'"
    "candEnd ACTION_TYPE_POWER st = candEnd ACTION_TYPE_POWER st'"
    "candEnd ACTION_TYPE_THERMAL st = candEnd ACTION_TYPE_THERMAL st'"
    using assms by simp_all
  then show "candidateOf pw th l st = candidateOf pw th l st'" and "endTimeOf st = endTimeOf st'"
    by (simp_all add: candidateOf_def endTimeOf_def noCandidate_def)
qed

text \<open>Replacing the status of \<open>k\<close> by one with the same candidate, value and policy inputs.\<close>

lemma values_ok_setStatus:
  assumes "values_ok s" and "stm s k = Some st0"
    and "rs_candidate st = rs_candidate st0" and "rs_currentValue st = rs_currentValue st0"
  shows "values_ok (setStatus k st s)"
  unfolding values_ok_def
proof (intro allI impI)
  fix j sj assume sj: "stm (setStatus k st s) j = Some sj"
  define old where "old j = (if j = k then st0 else the (stm s j))" for j
  have o: "stm s j = Some (old j)" "rs_candidate sj = rs_candidate (old j)"
    "rs_currentValue sj = rs_currentValue (old j)"
    using sj assms by (auto simp: old_def split: if_splits)
  have p: "rs_candidate (the (stm (setStatus k st s) q)) = rs_candidate (the (stm s q))"
    "rs_currentValue (the (stm (setStatus k st s) q)) = rs_currentValue (the (stm s q))" for q
    using assms by auto
  show "case pairOf j (setStatus k st s) of None \<Rightarrow> rs_currentValue sj = rs_candidate sj
     | Some q \<Rightarrow> (\<exists>lim. (rs_currentValue sj, rs_currentValue (the (stm (setStatus k st s) q)))
           = arbPair (isMaxRes j (setStatus k st s)) lim (rs_candidate sj)
               (rs_candidate (the (stm (setStatus k st s) q))))"
    unfolding p o(2,3) pairOf_setStatus isMaxRes_setStatus
    using assms(1) o(1) unfolding values_ok_def by blast
qed


lemma setStatus_twice [simp]: "setStatus k st (setStatus k st' s) = setStatus k st s"
  by (simp add: setStatus_def)

text \<open>
  The whole of an update: the list of type \<open>t\<close> of resource \<open>k\<close> becomes \<open>as\<close>, then
  \<open>UpdateCandidatesValue\<close> runs.
\<close>

lemma UpdateCandidatesValue_inv:
  assumes inv: "resInv UNIV s" and st0: "stm s k = Some st0"
    and t: "0 \<le> t" "t < ACTION_TYPE_MAX"
    and as: "\<forall>a\<in>set as. typed_action a \<and> ra_type a = t"
  shows "okE (\<lambda>s'. resInv UNIV s' \<and> onlyStatus s s' \<and>
           (\<forall>j. map_option kept (stm s' j) =
              map_option kept (((stm s)(k \<mapsto> setActionList t as st0)) j)))
         (UpdateCandidatesValue k t (setStatus k (setActionList t as st0) s))"
proof -
  define st where "st = setActionList t as st0"
  define st' where "st' = refreshCandidate t st"
  define s2 where "s2 = setStatus k st' s"
  have wf: "wf_wrap s" and ty: "\<And>j sj. stm s j = Some sj \<Longrightarrow> typed_status sj \<and> cand_ok sj"
    and pol: "\<And>j. policy_at j s" and vals: "sym_pairs s \<Longrightarrow> values_ok s"
    using inv unfolding resInv_def by blast+
  have wst0: "wf_status st0" using wf_wrap_resIds [OF wf st0] by simp
  then have wst: "wf_status st" "wf_status st'" by (simp_all add: st_def st'_def)
  have tst: "typed_status st" unfolding st_def
    by (rule typed_status_setActionList [OF wst0 _ t as]) (use ty [OF st0] in simp)
  have prev: "(candVal u st, candEnd u st) = candidateSpec u (actionsOf u st)"
    if "0 \<le> u" "u < ACTION_TYPE_BATTERY" "u \<noteq> t" for u
    using that ty [OF st0] actionsOf_setActionList [OF wst0 t that(1), of as]
    by (simp add: st_def cand_ok_def)
  have cok: "cand_ok st'" unfolding st'_def by (rule cand_ok_refresh [OF wst(1) t prev])
  have wf1: "wf_wrap (setStatus k st s)" by (rule wf_setStatus [OF wf st0 wst(1)])
  have wf2: "wf_wrap s2" unfolding s2_def by (rule wf_setStatus [OF wf st0 wst(2)])
  have only2: "onlyStatus s s2" unfolding s2_def by (rule onlyStatus_setStatus [OF st0])
  have stm2: "stm s2 = (stm s)(k \<mapsto> st')" by (simp add: s2_def)
  have ty2: "typed_status sj \<and> cand_ok sj" if "stm s2 j = Some sj" for j sj
    using that ty tst cok by (auto simp: stm2 st'_def split: if_splits)
  have pol2: "policy_at j s2" if "j \<noteq> k" for j
    using pol [of j] that by (simp add: policy_at_def stm2) (simp add: s2_def)
  have vals2: "sym_pairs s2 \<Longrightarrow> values_ok s2"
  proof -
    assume "sym_pairs s2"
    then have "values_ok s" using vals sym_pairs_cong [of s2 s] by (simp add: s2_def)
    then show ?thesis unfolding s2_def
      by (rule values_ok_setStatus [OF _ st0]) (simp_all add: st'_def st_def)
  qed
  have lists: "map_option kept (stm s2 j)
      = map_option kept (((stm s)(k \<mapsto> st)) j)" for j
    by (simp add: stm2 st'_def)
  have eq: "UpdateCandidatesValue k t (setStatus k st s) =
      (if candVal t st' = candVal t st \<and> candEnd t st' = candEnd t st then Inr s2
       else ArbitrateCandidate k s2)"
    using UpdateCandidatesValue_eq [OF wf1 _ typed_status_lists [OF wst(1) tst] t]
    by (simp add: st'_def s2_def Let_def)
  show ?thesis
  proof (cases "candVal t st' = candVal t st \<and> candEnd t st' = candEnd t st")
    case True
    have same: "candVal u st0 = candVal u st' \<and> candEnd u st0 = candEnd u st'"
      if "0 \<le> u" "u < ACTION_TYPE_BATTERY" for u
      using True refreshCandidate_cand [OF wst(1) t that(1)]
      by (cases "u = t") (simp_all add: st'_def st_def)
    have "policy_at k s2"
      using pol [of k] st0 candidateOf_congI [of st0 st', OF same]
      by (simp add: policy_at_def stm2) (simp add: s2_def st'_def st_def)
    with pol2 have "policy_at j s2" for j by (cases "j = k") simp_all
    with wf2 ty2 vals2 have "resInv UNIV s2" unfolding resInv_def by blast
    with True only2 lists show ?thesis
      unfolding st_def [symmetric] eq by (simp del: fun_upd_apply)
  next
    case False
    have inv2: "resInv (UNIV - {k}) s2"
      using wf2 ty2 pol2 vals2 unfolding resInv_def by blast
    have "okE (\<lambda>s'. resInv (insert k (UNIV - {k})) s' \<and> onlyStatus s2 s' \<and>
        (\<forall>j. map_option kept (stm s' j) = map_option kept (stm s2 j)))
        (ArbitrateCandidate k s2)"
      by (rule ArbitrateCandidate_inv [OF inv2]) (simp add: stm2)
    then have "okE (\<lambda>s'. resInv UNIV s' \<and> onlyStatus s s' \<and>
        (\<forall>j. map_option kept (stm s' j) =
           map_option kept (((stm s)(k \<mapsto> st)) j)))
        (ArbitrateCandidate k s2)"
      by (rule okE_mono) (use onlyStatus_trans [OF only2] lists in auto)
    then show ?thesis unfolding st_def [symmetric] eq if_not_P [OF False] .
  qed
qed


subsection \<open>Operations on the live actions\<close>

text \<open>The list of live actions after an operation, and the change of \<open>boostResCnt\<close>.\<close>

definition sameOn :: "ResAction \<Rightarrow> ResAction \<Rightarrow> bool" where
  "sameOn a b \<longleftrightarrow> PartSame a b \<and> ra_onOff b = EVENT_ON"

definition sameRef :: "ResAction \<Rightarrow> ResAction \<Rightarrow> bool" where
  "sameRef a b \<longleftrightarrow> ra_ref a = ra_ref b"

definition actionsAfter :: "bool \<Rightarrow> ResAction \<Rightarrow> ResAction list \<Rightarrow> ResAction list" where
  "actionsAfter delayed a as =
     (if delayed then eraseFirst (sameRef a) as
      else if ra_onOff a = EVENT_OFF then eraseFirst (sameOn a) as
      else eraseFirst (TotalSame a) as @ [a])"

definition cntAfter :: "bool \<Rightarrow> ResAction \<Rightarrow> ResAction list \<Rightarrow> int" where
  "cntAfter delayed a as =
     (if \<not> ra_interaction a then 0
      else if delayed then (if list_ex (sameRef a) as then - 1 else 0)
      else if ra_onOff a = EVENT_OFF then (if list_ex (sameOn a) as then - 1 else 0)
      else if list_ex (TotalSame a) as then 0 else 1)"

definition wrapFrame :: "'a SocPerfThreadWrap_scheme \<Rightarrow> 'a SocPerfThreadWrap_scheme \<Rightarrow> bool" where
  "wrapFrame s s' \<longleftrightarrow> (\<exists>m c. s' = s\<lparr>resStatusInfo := m, boostResCnt := c\<rparr>
     \<and> map fst m = map fst (resStatusInfo s))"

lemma wrapFrame_refl [simp]: "wrapFrame s s"
  unfolding wrapFrame_def by (rule exI [of _ "resStatusInfo s"], rule exI [of _ "boostResCnt s"]) simp

lemma wrapFrameI:
  "s' = s\<lparr>resStatusInfo := m, boostResCnt := c\<rparr> \<Longrightarrow> map fst m = map fst (resStatusInfo s) \<Longrightarrow> wrapFrame s s'"
  unfolding wrapFrame_def by blast

lemma wrapFrame_trans: "wrapFrame s t \<Longrightarrow> wrapFrame t u \<Longrightarrow> wrapFrame s u"
proof -
  assume "wrapFrame s t" and "wrapFrame t u"
  then obtain m c m' c' where "t = s\<lparr>resStatusInfo := m, boostResCnt := c\<rparr>"
    "u = t\<lparr>resStatusInfo := m', boostResCnt := c'\<rparr>"
    "map fst m' = map fst (resStatusInfo t)" "map fst m = map fst (resStatusInfo s)"
    unfolding wrapFrame_def by blast
  then show "wrapFrame s u" by (intro wrapFrameI [where m = m' and c = c']) simp_all
qed

lemma addBoostResCnt_0 [simp]: "addBoostResCnt 0 s = s"
  by (simp add: addBoostResCnt_def)

lemma onlyStatus_wrapFrame: "onlyStatus s t \<Longrightarrow> wrapFrame s t"
  unfolding onlyStatus_def wrapFrame_def by (metis SocPerfThreadWrap.surjective SocPerfThreadWrap.update_convs(2,8))

lemma wrapFrame_addBoostResCnt [simp]:
  "wrapFrame s (addBoostResCnt d t) = wrapFrame s t"
proof
  assume "wrapFrame s t"
  then obtain m c where "t = s\<lparr>resStatusInfo := m, boostResCnt := c\<rparr>"
    "map fst m = map fst (resStatusInfo s)" by (auto simp: wrapFrame_def)
  then show "wrapFrame s (addBoostResCnt d t)"
    by (intro wrapFrameI [where m = m and c = "c + d"]) (simp_all add: addBoostResCnt_def)
next
  assume "wrapFrame s (addBoostResCnt d t)"
  then obtain m c where m: "addBoostResCnt d t = s\<lparr>resStatusInfo := m, boostResCnt := c\<rparr>"
    "map fst m = map fst (resStatusInfo s)" by (auto simp: wrapFrame_def)
  have "t = addBoostResCnt (- d) (addBoostResCnt d t)" by (simp add: addBoostResCnt_def)
  then have "t = s\<lparr>resStatusInfo := m, boostResCnt := c - d\<rparr>" unfolding m(1) by (simp add: addBoostResCnt_def)
  then show "wrapFrame s t" using m(2) by (rule wrapFrameI)
qed

lemma wrapFrame_frame:
  assumes "wrapFrame s s'"
  shows "resourceNodeInfo s' = resourceNodeInfo s" "wrapThermalLvl s' = wrapThermalLvl s"
    "powerLimitBoost s' = powerLimitBoost s" "thermalLimitBoost s' = thermalLimitBoost s"
    "socperfQueue s' = socperfQueue s" "map fst (resStatusInfo s') = map fst (resStatusInfo s)"
    "interAction s' = interAction s" "nextRef s' = nextRef s" "nextHandle s' = nextHandle s"
    "configPerfActionsInfo s' = configPerfActionsInfo s" "reports s' = reports s"
    "weakInteractionStatus s' = weakInteractionStatus s" "reportFunc s' = reportFunc s"
    "performanceModeStatus s' = performanceModeStatus s" "minThermalLvl s' = minThermalLvl s"
    "sceneResourceInfo s' = sceneResourceInfo s" "scenarioFunc s' = scenarioFunc s"
    "SocPerfThreadWrap.more s' = SocPerfThreadWrap.more s"
  using assms by (auto simp: wrapFrame_def)

lemma addBoostResCnt_sel [simp]:
  "stm (addBoostResCnt d s) = stm s" "boostResCnt (addBoostResCnt d s) = boostResCnt s + d"
  "resourceNodeInfo (addBoostResCnt d s) = resourceNodeInfo s"
  "powerLimitBoost (addBoostResCnt d s) = powerLimitBoost s"
  "thermalLimitBoost (addBoostResCnt d s) = thermalLimitBoost s"
  "resStatusInfo (addBoostResCnt d s) = resStatusInfo s"
  by (simp_all add: addBoostResCnt_def stm_def)

lemma resInv_addBoostResCnt [simp]: "resInv K (addBoostResCnt d s) = resInv K s"
proof -
  have n: "resourceNodeInfo (addBoostResCnt d s) = resourceNodeInfo s" by simp
  have "wf_wrap (addBoostResCnt d s) = wf_wrap s" by (simp add: wf_wrap_def wf_nodes_def)
  moreover have "policy_at k (addBoostResCnt d s) = policy_at k s" for k by (simp add: policy_at_def)
  moreover have "values_ok (addBoostResCnt d s) = values_ok s"
    unfolding values_ok_def addBoostResCnt_sel(1) pairOf_cong [OF n] isMaxRes_cong [OF n] ..
  ultimately show ?thesis unfolding resInv_def sym_pairs_cong [OF n] by simp
qed

lemma set_actionsAfter: "set (actionsAfter d a as) \<subseteq> insert a (set as)"
  by (auto simp: actionsAfter_def dest: subsetD [OF set_eraseFirst])

text \<open>The effect of an operation on resource \<open>k\<close>.\<close>

definition actionEffect ::
  "int \<Rightarrow> bool \<Rightarrow> ResAction \<Rightarrow> 'a SocPerfThreadWrap_scheme \<Rightarrow> 'a SocPerfThreadWrap_scheme \<Rightarrow> bool" where
  "actionEffect k delayed a s s' \<longleftrightarrow> wrapFrame s s' \<and>
     (\<exists>st. stm s k = Some st \<and>
        boostResCnt s' = boostResCnt s + cntAfter delayed a (actionsOf (ra_type a) st) \<and>
        (\<forall>j. map_option kept (stm s' j) =
           (if j = k then Some (kept (setActionList (ra_type a)
                (actionsAfter delayed a (actionsOf (ra_type a) st)) st))
            else map_option kept (stm s j))))"

lemma UpdateResActionList_inv:
  assumes inv: "resInv UNIV s" and st: "stm s k = Some st"
    and a: "typed_action a" "0 \<le> ra_type a" "ra_type a < ACTION_TYPE_MAX"
  shows "okE (\<lambda>s'. resInv UNIV s' \<and> actionEffect k d a s s') (UpdateResActionList k a d s)"
proof -
  let ?t = "ra_type a" and ?as = "actionsOf (ra_type a) st"
  have wf: "wf_wrap s" and tst: "typed_status st" using inv st unfolding resInv_def by blast+
  have wst: "wf_status st" using wf_wrap_resIds [OF wf st] by simp
  have at: "atE (rs_resActionList st) ?t = Inr ?as"
    using a wst by (simp add: atE_def actionsOf_def wf_status_def)
  have run: "UpdateResActionList k a d' s = (if d' then UpdateResActionListByDelayedMsg k ?t a st s
      else UpdateResActionListByInstantMsg k ?t a st s)" for d'
    by (simp add: UpdateResActionList_def Let_def touchStatus_id [OF st] statusAt_stm st)
  have typed: "\<forall>b\<in>set (actionsAfter d a ?as). typed_action b \<and> ra_type b = ?t"
    using set_actionsAfter [of d a ?as] a tst unfolding typed_status_def by blast
  have upd: "okE (\<lambda>s'. resInv UNIV s' \<and> onlyStatus (addBoostResCnt c s) s' \<and>
      (\<forall>j. map_option kept (stm s' j) = map_option kept
         (((stm s)(k \<mapsto> setActionList ?t (actionsAfter d a ?as) st)) j)))
      (UpdateCandidatesValue k ?t (setStatus k (setActionList ?t (actionsAfter d a ?as) st) (addBoostResCnt c s)))"
    for c
    using UpdateCandidatesValue_inv [of "addBoostResCnt c s" k st ?t, OF _ _ a(2,3) typed] inv st by simp
  have fin: "actionEffect k d a s (addBoostResCnt c' s')"
    if "resInv UNIV s' \<and> onlyStatus (addBoostResCnt c s) s' \<and>
      (\<forall>j. map_option kept (stm s' j) = map_option kept
         (((stm s)(k \<mapsto> setActionList ?t (actionsAfter d a ?as) st)) j))"
      and "c + c' = cntAfter d a ?as" for s' c c'
  proof -
    have o: "onlyStatus (addBoostResCnt c s) s'" using that by blast
    have "wrapFrame s (addBoostResCnt c s)" by simp
    then have "wrapFrame s s'" using onlyStatus_wrapFrame [OF o] by (blast intro: wrapFrame_trans)
    with that st onlyStatus_frame(5) [OF o] show ?thesis by (auto simp: actionEffect_def)
  qed
  have nil: "okE (\<lambda>s'. resInv UNIV s' \<and> actionEffect k d a s s') (Inr s)"
    if "actionsAfter d a ?as = ?as" "cntAfter d a ?as = 0"
    using that inv st wst a by (auto simp: actionEffect_def actionsOf_def kept_def setActionList_def)
  show ?thesis
  proof (cases d)
    case True
    show ?thesis
    proof (cases "list_ex (sameRef a) ?as")
      case ex: True
      have eq: "UpdateResActionList k a d s = bindE (UpdateCandidatesValue k ?t (setStatus k
          (setActionList ?t (actionsAfter d a ?as) st) (addBoostResCnt 0 s)))
          (\<lambda>s. Inr (if ra_interaction a then addBoostResCnt (- 1) s else s))"
        using True ex by (simp add: run UpdateResActionListByDelayedMsg_def at sameRef_def [abs_def]
            actionsAfter_def Let_def)
      show ?thesis unfolding eq
        by (rule okE_bind [OF upd [of 0]])
          (use fin [of _ 0 "- 1"] fin [of _ 0 0] True ex in \<open>auto simp: cntAfter_def\<close>)
    next
      case False
      then have "UpdateResActionList k a d s = Inr s"
        using True by (simp add: run UpdateResActionListByDelayedMsg_def at sameRef_def [abs_def])
      then show ?thesis
        using nil True False by (simp add: actionsAfter_def cntAfter_def eraseFirst_None)
    qed
  next
    case nd: False
    show ?thesis
    proof (cases "ra_onOff a = EVENT_OFF")
      case off: True
      show ?thesis
      proof (cases "list_ex (sameOn a) ?as")
        case True
        have eq: "UpdateResActionList k a d s = bindE (UpdateCandidatesValue k ?t (setStatus k
            (setActionList ?t (actionsAfter d a ?as) st) (addBoostResCnt 0 s)))
            (\<lambda>s. Inr (addBoostResCnt (- (if ra_interaction a then 1 else 0)) s))"
          using nd off True by (simp add: run UpdateResActionListByInstantMsg_def at sameOn_def [abs_def]
              actionsAfter_def Let_def)
        show ?thesis unfolding eq
          by (rule okE_bind [OF upd [of 0]])
            (use fin [of _ 0 "- 1"] fin [of _ 0 0] nd off True in \<open>auto simp: cntAfter_def\<close>)
      next
        case False
        then have "UpdateResActionList k a d s = Inr s"
          using nd off by (simp add: run UpdateResActionListByInstantMsg_def at sameOn_def [abs_def] Let_def)
        then show ?thesis
          using nil nd off False by (simp add: actionsAfter_def cntAfter_def eraseFirst_None)
      qed
    next
      case on: False
      let ?c = "(if list_ex (TotalSame a) ?as \<and> ra_interaction a then - 1 else 0) :: int"
      have eq: "UpdateResActionList k a d s = bindE (UpdateCandidatesValue k ?t (setStatus k
          (setActionList ?t (actionsAfter d a ?as) st) (addBoostResCnt ?c s)))
          (\<lambda>s. Inr (if ra_interaction a then addBoostResCnt 1 s else s))"
        using nd on by (cases "ra_onOff a") (simp_all add: run UpdateResActionListByInstantMsg_def
            HandleResAction_def at actionsAfter_def Let_def)
      show ?thesis unfolding eq
        by (rule okE_bind [OF upd [of ?c]])
          (use fin [of _ ?c 1] fin [of _ ?c 0] nd on in \<open>auto simp: cntAfter_def\<close>)
    qed
  qed
qed

end
