(* ===== verification/Reporting.thy ===== *)
theory Reporting
  imports WrapTasks ResourceInvariant
begin

text \<open>
  What \<open>SendResStatus\<close> and \<open>InitResStatus\<close> send. \<open>lastSent\<close> replays the history of
  reports; \<open>inSync\<close> says that the value last sent for a resource is the one its status records
  as previously sent, and \<open>settled\<close> that this is also the value in force. A closure that ends with
  \<open>SendResStatus\<close> leaves the hardware with the arbitrated values.
\<close>

lemma resInv_cong:
  assumes "resourceNodeInfo s' = resourceNodeInfo s" and "resStatusInfo s' = resStatusInfo s"
    and "powerLimitBoost s' = powerLimitBoost s" and "thermalLimitBoost s' = thermalLimitBoost s"
  shows "resInv K s' = resInv K s"
proof -
  have m: "stm s' = stm s" using assms(2) by (simp add: stm_def)
  have "wf_wrap s' = wf_wrap s" using assms(1,2) m by (simp add: wf_wrap_def wf_nodes_def)
  moreover have "policy_at k s' = policy_at k s" for k using assms(3,4) m by (simp add: policy_at_def)
  moreover have "values_ok s' = values_ok s"
    unfolding values_ok_def m pairOf_cong [OF assms(1)] isMaxRes_cong [OF assms(1)] ..
  ultimately show ?thesis unfolding resInv_def sym_pairs_cong [OF assms(1)] m by simp
qed

subsection \<open>The history of reports\<close>

fun sentValues :: "Report \<Rightarrow> (int \<times> int) list" where
  "sentValues (ReportPerfSo xs) = map (\<lambda>(i, v, e). (i, v)) xs"
| "sentValues (ReportRssExe xs) = xs"

definition lastSent :: "Report list \<Rightarrow> int \<Rightarrow> int option" where
  "lastSent rs = map_of (rev (concat (map sentValues rs)))"

lemma lastSent_append: "lastSent (rs @ rs') = lastSent rs ++ lastSent rs'"
  by (simp add: lastSent_def)

text \<open>The destination of a resource is reachable: the library of a \<open>REPORT_TO_PERFSO\<close> resource is loaded.\<close>

definition sendable :: "'a SocPerfThreadWrap_scheme \<Rightarrow> int \<Rightarrow> bool" where
  "sendable s k \<longleftrightarrow> (case nodeAt k s of None \<Rightarrow> False
     | Some n \<Rightarrow> rn_persistMode n \<noteq> REPORT_TO_PERFSO \<or> reportFunc s \<noteq> None)"

lemma sendable_cong:
  "resourceNodeInfo s' = resourceNodeInfo s \<Longrightarrow> reportFunc s' = reportFunc s \<Longrightarrow> sendable s' k = sendable s k"
  by (auto simp: sendable_def nodeAt_def split: option.split)

definition inSync :: "'a SocPerfThreadWrap_scheme \<Rightarrow> bool" where
  "inSync s \<longleftrightarrow> (\<forall>k st. stm s k = Some st \<and> sendable s k \<longrightarrow>
     lastSent (reports s) k = Some (rs_previousValue st))"

definition settled :: "'a SocPerfThreadWrap_scheme \<Rightarrow> bool" where
  "settled s \<longleftrightarrow> (\<forall>k st. stm s k = Some st \<longrightarrow>
     rs_previousValue st = rs_currentValue st \<and> rs_previousEndTime st = rs_currentEndTime st)"

lemma inSync_cong:
  assumes "resourceNodeInfo s' = resourceNodeInfo s" and "reportFunc s' = reportFunc s"
    and "resStatusInfo s' = resStatusInfo s" and "reports s' = reports s"
  shows "inSync s' = inSync s" and "settled s' = settled s"
proof -
  have m: "stm s' = stm s" using assms(3) by (simp add: stm_def)
  show "inSync s' = inSync s" "settled s' = settled s"
    unfolding inSync_def settled_def m assms(4) sendable_cong [OF assms(1,2)] by simp_all
qed

subsection \<open>The loop of \<open>SendResStatus\<close>\<close>

definition sync :: "ResStatus \<Rightarrow> ResStatus" where
  "sync st = st\<lparr>rs_previousValue := rs_currentValue st, rs_previousEndTime := rs_currentEndTime st\<rparr>"

definition changed :: "ResStatus \<Rightarrow> bool" where
  "changed st \<longleftrightarrow> rs_previousValue st \<noteq> rs_currentValue st \<or> rs_previousEndTime st \<noteq> rs_currentEndTime st"

definition toSend :: "bool \<Rightarrow> 'a SocPerfThreadWrap_scheme \<Rightarrow> int \<Rightarrow> (int \<times> int \<times> int) list" where
  "toSend perfSo s k = (case nodeAt k s of None \<Rightarrow> [] | Some n \<Rightarrow> (case stm s k of None \<Rightarrow> [] | Some st \<Rightarrow>
     if changed st \<and> (rn_persistMode n = REPORT_TO_PERFSO) = perfSo
     then [(k, rs_currentValue st, rs_currentEndTime st)] else []))"

definition syncAt :: "int \<Rightarrow> 'a SocPerfThreadWrap_scheme \<Rightarrow> 'a SocPerfThreadWrap_scheme" where
  "syncAt k s = (case stm s k of None \<Rightarrow> s | Some st \<Rightarrow> setStatus k (sync st) s)"

lemma sync_unchanged: "\<not> changed st \<Longrightarrow> sync st = st"
  by (simp add: changed_def sync_def)

lemma sync_sel [simp]:
  "wf_status (sync st) = wf_status st" "actionsOf t (sync st) = actionsOf t st"
  "candVal t (sync st) = candVal t st" "candEnd t (sync st) = candEnd t st"
  "rs_candidate (sync st) = rs_candidate st" "rs_currentValue (sync st) = rs_currentValue st"
  "rs_currentEndTime (sync st) = rs_currentEndTime st" "rs_previousValue (sync st) = rs_currentValue st"
  "rs_previousEndTime (sync st) = rs_currentEndTime st" "rs_resActionList (sync st) = rs_resActionList st"
  "candidateOf pw th l (sync st) = candidateOf pw th l st" "endTimeOf (sync st) = endTimeOf st"
  by (simp_all add: sync_def wf_status_def actionsOf_def candVal_def candEnd_def candidateOf_def
      endTimeOf_def noCandidate_def)

lemma setStatus_same: "stm s k = Some st \<Longrightarrow> setStatus k st s = s"
  by (simp add: stm_def setStatus_def update_triv ptrAt_SomeD)

lemma syncAt_frame:
  assumes "wf_wrap s"
  shows "onlyStatus s (syncAt k s)" and "wf_wrap (syncAt k s)"
    and "stm (syncAt k s) = (stm s)(k := map_option sync (stm s k))"
proof -
  show "onlyStatus s (syncAt k s)"
    by (simp add: syncAt_def onlyStatus_setStatus split: option.split)
  show "wf_wrap (syncAt k s)"
    using assms wf_wrap_resIds [OF assms] by (auto simp: syncAt_def intro: wf_setStatus split: option.split)
  show "stm (syncAt k s) = (stm s)(k := map_option sync (stm s k))"
    by (auto simp: syncAt_def split: option.split)
qed

lemma sendEntry_eq:
  assumes wf: "wf_wrap s"
  shows "sendEntry k (po, re, s) = Inr (po @ toSend True s k, re @ toSend False s k, syncAt k s)"
proof (cases "k \<in> resIds s")
  case False
  then have "map_of (resourceNodeInfo s) k = None" by (simp add: map_of_eq_None_iff)
  moreover have "stm s k = None" using False wf_wrap_resIds [OF wf] by (metis option.exhaust)
  ultimately show ?thesis
    by (simp add: sendEntry_def toSend_def syncAt_def nodeAt_def ptrAt_def)
next
  case True
  obtain st where st: "stm s k = Some st" using wf True by (rule wf_wrap_status)
  have "wf_nodes s" using wf by (simp add: wf_wrap_def)
  then obtain n where n: "map_of (resourceNodeInfo s) k = Some (Some n)" using True by (rule wf_nodesD)
  then have "nodeAt k s = Some n" by (simp add: nodeAt_def ptrAt_def)
  with n st show ?thesis
    by (auto simp: sendEntry_def toSend_def syncAt_def statusAt_stm Let_def sync_unchanged setStatus_same
        simp flip: sync_def) (auto simp: changed_def sync_def)
qed

lemma toSend_other:
  assumes "resourceNodeInfo s' = resourceNodeInfo s" and "stm s' j = stm s j"
  shows "toSend b s' j = toSend b s j"
  unfolding toSend_def nodeAt_def assms ..

lemma sendLoop_eq:
  assumes "wf_wrap s" and "distinct ks"
  shows "foldE sendEntry ks (po, re, s) =
           Inr (po @ concat (map (toSend True s) ks), re @ concat (map (toSend False s) ks), fold syncAt ks s)
         \<and> onlyStatus s (fold syncAt ks s) \<and> wf_wrap (fold syncAt ks s)
         \<and> stm (fold syncAt ks s) = (\<lambda>j. if j \<in> set ks then map_option sync (stm s j) else stm s j)"
  using assms
proof (induction ks arbitrary: po re s)
  case Nil
  then show ?case by simp
next
  case (Cons k ks)
  note sk = syncAt_frame [OF Cons.prems(1), of k]
  have d: "distinct ks" using Cons.prems(2) by simp
  have same: "map (toSend b (syncAt k s)) ks = map (toSend b s) ks" for b
    using Cons.prems(2) onlyStatus_frame(1) [OF sk(1)] by (intro map_cong toSend_other) (auto simp: sk(3))
  note ih = Cons.IH [OF sk(2) d, of "po @ toSend True s k" "re @ toSend False s k", unfolded same sk(3)]
  then show ?case using Cons.prems onlyStatus_trans [OF sk(1)]
    by (auto simp: sendEntry_eq fun_eq_iff)
qed

subsection \<open>The reports of a whole loop\<close>

lemma map_of_sends:
  assumes "distinct ks" and "\<And>j. j \<in> set ks \<Longrightarrow> fst ` set (g j) \<subseteq> {j}"
  shows "map_of (rev (concat (map g ks))) k = (if k \<in> set ks then map_of (rev (g k)) k else None)"
  using assms
proof (induction ks)
  case Nil
  then show ?case by simp
next
  case (Cons j ks)
  have ih: "map_of (rev (concat (map g ks))) k = (if k \<in> set ks then map_of (rev (g k)) k else None)"
    using Cons by simp
  have "map_of (rev (g j)) k = None" if "k \<noteq> j"
    using Cons.prems(2) [of j] that by (auto simp: map_of_eq_None_iff)
  with ih Cons.prems(1) show ?case by (auto simp: map_add_def split: option.splits)
qed

definition idValue :: "int \<times> int \<times> int \<Rightarrow> int \<times> int" where
  "idValue = (\<lambda>(i, v, e). (i, v))"

lemma lastSent_ReportToPerfSo:
  "lastSent (reports (ReportToPerfSo xs s)) =
     (if reportFunc s = None then lastSent (reports s)
      else lastSent (reports s) ++ map_of (rev (map idValue xs)))"
  by (simp add: ReportToPerfSo_def lastSent_append) (simp add: lastSent_def idValue_def)

lemma lastSent_ReportToRssExe:
  "lastSent (reports (ReportToRssExe xs s)) = lastSent (reports s) ++ map_of (rev (map idValue xs))"
  by (simp add: ReportToRssExe_def lastSent_append) (simp add: lastSent_def idValue_def)

lemma Report_frame [simp]:
  "resourceNodeInfo (ReportToPerfSo xs s) = resourceNodeInfo s"
  "resourceNodeInfo (ReportToRssExe xs s) = resourceNodeInfo s"
  "resStatusInfo (ReportToPerfSo xs s) = resStatusInfo s"
  "resStatusInfo (ReportToRssExe xs s) = resStatusInfo s"
  "reportFunc (ReportToPerfSo xs s) = reportFunc s" "reportFunc (ReportToRssExe xs s) = reportFunc s"
  by (simp_all add: ReportToPerfSo_def ReportToRssExe_def)

definition sendAll ::
  "(int \<times> int \<times> int) list \<Rightarrow> (int \<times> int \<times> int) list \<Rightarrow> 'a SocPerfThreadWrap_scheme \<Rightarrow> 'a SocPerfThreadWrap_scheme" where
  "sendAll po re s = ReportToRssExe re (ReportToPerfSo po s)"

lemma sendAll_eq:
  "\<exists>r. sendAll po re s = s\<lparr>reports := r\<rparr>"
  by (auto simp: sendAll_def ReportToRssExe_def ReportToPerfSo_def
      intro: exI [of _ "reports s"])

text \<open>
  When a list of entries covers the resources of \<open>ks\<close>, each entry sent to the destination of its
  resource, the last value sent is the one of the entry.
\<close>

lemma lastSent_sendAll:
  assumes "distinct ks" and "\<And>b j. fst ` set (g b j) \<subseteq> {j}"
  shows "lastSent (reports (sendAll (concat (map (g True) ks)) (concat (map (g False) ks)) s)) k =
    (if k \<in> set ks then
       case map_of (rev (map idValue (g False k))) k of
         Some v \<Rightarrow> Some v
       | None \<Rightarrow> (case (if reportFunc s = None then None else map_of (rev (map idValue (g True k))) k) of
             Some v \<Rightarrow> Some v | None \<Rightarrow> lastSent (reports s) k)
     else lastSent (reports s) k)"
proof -
  have m: "map_of (rev (map idValue (concat (map (g b) ks)))) k =
      (if k \<in> set ks then map_of (rev (map idValue (g b k))) k else None)" for b
  proof -
    have "fst ` set (map idValue (g b j)) \<subseteq> {j}" for j
      using assms(2) [of b j] by (auto simp: idValue_def image_iff)
    then show ?thesis
      using map_of_sends [OF assms(1), of "\<lambda>j. map idValue (g b j)"] by (simp add: map_concat comp_def)
  qed
  show ?thesis unfolding sendAll_def lastSent_ReportToRssExe lastSent_ReportToPerfSo
    by (auto simp: m map_add_def split: option.splits)
qed

lemma toSend_keys: "fst ` set (toSend b s j) \<subseteq> {j}"
  by (auto simp: toSend_def split: option.splits)

definition sendChanged :: "'a SocPerfThreadWrap_scheme \<Rightarrow> 'a SocPerfThreadWrap_scheme" where
  "sendChanged s = (let ks = map fst (resStatusInfo s) in
     sendAll (concat (map (toSend True s) ks)) (concat (map (toSend False s) ks)) (fold syncAt ks s))"

lemma SendResStatus_eq: "wf_wrap s \<Longrightarrow> SendResStatus s = Inr (WeakInteraction (sendChanged s))"
  using sendLoop_eq [of s "map fst (resStatusInfo s)" "[]" "[]"]
  by (simp add: SendResStatus_def sendChanged_def sendAll_def wf_wrap_def)

lemma stm_keys: "stm s k \<noteq> None \<Longrightarrow> k \<in> set (map fst (resStatusInfo s))"
  by (auto simp: stm_def dest!: ptrAt_SomeD map_of_SomeD intro: rev_image_eqI)

subsection \<open>The state after a report\<close>

lemma sync_status [simp]: "typed_status (sync st) = typed_status st" "cand_ok (sync st) = cand_ok st"
  by (simp_all add: typed_status_def cand_ok_def)

lemma resInv_sync:
  assumes inv: "resInv K s" and only: "onlyStatus s t" and wf: "wf_wrap t"
    and m: "stm t = (\<lambda>j. map_option sync (stm s j))"
  shows "resInv K t"
proof -
  note fr = onlyStatus_frame [OF only]
  have dom: "stm s p \<noteq> None" if "pairOf k s = Some p" for k p
    using inv pair_status_present that unfolding resInv_def by blast
  have "typed_status st \<and> cand_ok st" if "stm t k = Some st" for k st
    using that inv by (auto simp: m resInv_def)
  moreover have "policy_at k t" if "k \<in> K" for k
    using that inv by (auto simp: m resInv_def policy_at_def fr)
  moreover have "values_ok t" if "sym_pairs t"
  proof -
    have "values_ok s" using that inv sym_pairs_cong [OF fr(1)] by (simp add: resInv_def)
    moreover have "the (stm t p) = sync (the (stm s p))" if "pairOf k s = Some p" for k p
      using dom [OF that] by (auto simp: m)
    ultimately show ?thesis
      unfolding values_ok_def pairOf_cong [OF fr(1)] isMaxRes_cong [OF fr(1)]
      by (fastforce simp: m split: option.splits)
  qed
  ultimately show ?thesis using wf unfolding resInv_def by blast
qed

lemma sendChanged_sync:
  assumes "wf_wrap s"
  obtains t r where "sendChanged s = t\<lparr>reports := r\<rparr>" and "onlyStatus s t" and "wf_wrap t"
    and "stm t = (\<lambda>j. map_option sync (stm s j))"
    and "sendChanged s = sendAll (concat (map (toSend True s) (map fst (resStatusInfo s))))
           (concat (map (toSend False s) (map fst (resStatusInfo s)))) t"
proof -
  let ?t = "fold syncAt (map fst (resStatusInfo s)) s"
  have "distinct (map fst (resStatusInfo s))" using assms by (simp add: wf_wrap_def)
  note l = sendLoop_eq [OF assms this]
  have "stm ?t j = map_option sync (stm s j)" for j
    using l stm_keys [of s j] by (cases "stm s j") auto
  moreover have eq: "sendChanged s = sendAll (concat (map (toSend True s) (map fst (resStatusInfo s))))
           (concat (map (toSend False s) (map fst (resStatusInfo s)))) ?t"
    by (simp add: sendChanged_def)
  moreover obtain r where "sendChanged s = ?t\<lparr>reports := r\<rparr>" using sendAll_eq unfolding eq by blast
  ultimately show thesis using l that by blast
qed

lemma sendChanged_inv:
  assumes inv: "resInv K s" and syn: "inSync s"
  shows "resInv K (sendChanged s)" and "inSync (sendChanged s)" and "settled (sendChanged s)"
proof -
  have wf: "wf_wrap s" using inv by (simp add: resInv_def)
  obtain t r where eq: "sendChanged s = t\<lparr>reports := r\<rparr>" and only: "onlyStatus s t"
    and wft: "wf_wrap t" and m: "stm t = (\<lambda>j. map_option sync (stm s j))"
    and snd: "sendChanged s = sendAll (concat (map (toSend True s) (map fst (resStatusInfo s))))
           (concat (map (toSend False s) (map fst (resStatusInfo s)))) t"
    using wf by (rule sendChanged_sync)
  note fr = onlyStatus_frame [OF only]
  have mt: "stm (sendChanged s) = stm t" by (simp add: eq stm_def)
  show "resInv K (sendChanged s)"
    using resInv_sync [OF inv only wft m] resInv_cong [of "sendChanged s" t K] by (simp add: eq)
  show "settled (sendChanged s)" by (auto simp: settled_def mt m)
  show "inSync (sendChanged s)" unfolding inSync_def
  proof (intro allI impI, elim conjE)
    fix k st' assume st': "stm (sendChanged s) k = Some st'" and send: "sendable (sendChanged s) k"
    obtain st where st: "stm s k = Some st" "st' = sync st" using st' by (auto simp: mt m)
    have send': "sendable s k" using send sendable_cong [of "sendChanged s" s k] by (simp add: eq fr)
    obtain n where n: "nodeAt k s = Some n" using send' by (auto simp: sendable_def split: option.splits)
    have k: "k \<in> set (map fst (resStatusInfo s))" using stm_keys [of s k] st by simp
    have d: "distinct (map fst (resStatusInfo s))" using wf by (simp add: wf_wrap_def)
    have before: "lastSent (reports t) k = Some (rs_previousValue st)"
      using syn st send' by (simp add: inSync_def fr)
    have "toSend b s k = (if changed st \<and> (rn_persistMode n = REPORT_TO_PERFSO) = b
        then [(k, rs_currentValue st, rs_currentEndTime st)] else [])" for b
      by (simp add: toSend_def n st)
    then show "lastSent (reports (sendChanged s)) k = Some (rs_previousValue st')"
      unfolding snd lastSent_sendAll [where g = "\<lambda>b. toSend b s", OF d toSend_keys] if_P [OF k]
      using before send' n st
      by (auto simp: idValue_def sendable_def fr changed_def)
  qed
qed

end
