(* ===== verification/WeakInteractions.thy ===== *)
theory WeakInteractions
  imports WrapTasks ResourceInvariant
begin

text \<open>
  The weak-interaction state machine (\<open>WeakInteraction\<close>, \<open>DoWeakInteraction\<close> and the timer
  closure). An interaction is in \<open>BOOST_STATUS\<close> while interactive actions are alive (or the
  feature is off), in \<open>BOOST_END_STATUS\<close> while its timer is pending, and in
  \<open>WEAK_INTERACTION_STATUS\<close> after the timer has fired. \<open>timerInv\<close> ties these states to the
  timers in the queue.
\<close>

subsection \<open>A queue whose entries can be cancelled\<close>

locale cancellable_queue =
  fixes pending :: "'s \<Rightarrow> (nat \<times> 't) list" and fresh :: "'s \<Rightarrow> nat"
    and enq :: "int \<Rightarrow> 't \<Rightarrow> 's \<Rightarrow> nat \<times> 's" and drop_entry :: "nat \<Rightarrow> 's \<Rightarrow> 's"
  assumes enq_handle: "fst (enq d t s) = fresh s"
    and enq_pending: "pending (snd (enq d t s)) = pending s @ [(fresh s, t)]"
    and enq_fresh: "fresh (snd (enq d t s)) = Suc (fresh s)"
    and drop_pending: "pending (drop_entry h s) = filter (\<lambda>e. fst e \<noteq> h) (pending s)"
    and drop_fresh: "fresh (drop_entry h s) = fresh s"
begin

definition handles_ok :: "'s \<Rightarrow> bool" where
  "handles_ok s \<longleftrightarrow> distinct (map fst (pending s)) \<and> (\<forall>e\<in>set (pending s). fst e < fresh s)"

definition tasks_of :: "('t \<Rightarrow> bool) \<Rightarrow> 's \<Rightarrow> nat list" where
  "tasks_of P s = map fst (filter (\<lambda>e. P (snd e)) (pending s))"

lemma handles_ok_enq: "handles_ok s \<Longrightarrow> handles_ok (snd (enq d t s))"
  by (fastforce simp: handles_ok_def enq_pending enq_fresh)

lemma handles_ok_drop: "handles_ok s \<Longrightarrow> handles_ok (drop_entry h s)"
  by (auto simp: handles_ok_def drop_pending drop_fresh distinct_map filter_empty_conv
      intro: inj_on_subset distinct_filter)

lemma tasks_of_enq: "tasks_of P (snd (enq d t s)) = tasks_of P s @ (if P t then [fresh s] else [])"
  by (simp add: tasks_of_def enq_pending)

lemma tasks_of_drop: "tasks_of P (drop_entry h s) = filter (\<lambda>x. x \<noteq> h) (tasks_of P s)"
  by (simp add: tasks_of_def drop_pending filter_map comp_def conj_commute)

lemma tasks_of_drop_other:
  assumes "handles_ok s" and "h \<in> set (tasks_of P s)" and "\<And>t. P t \<Longrightarrow> \<not> Q t"
  shows "tasks_of Q (drop_entry h s) = tasks_of Q s"
proof -
  have "h \<notin> set (tasks_of Q s)"
  proof
    assume "h \<in> set (tasks_of Q s)"
    then obtain t where t: "(h, t) \<in> set (pending s)" "Q t" by (auto simp: tasks_of_def)
    from assms(2) obtain u where u: "(h, u) \<in> set (pending s)" "P u" by (auto simp: tasks_of_def)
    have "t = u" using assms(1) t(1) u(1) by (auto simp: handles_ok_def dest: eq_key_imp_eq_value)
    with assms(3) t u show False by blast
  qed
  then show ?thesis unfolding tasks_of_drop by (intro filter_True) auto
qed

lemma drop_enq: "handles_ok s \<Longrightarrow> pending (drop_entry (fst (enq d t s)) (snd (enq d t s))) = pending s"
  by (auto simp: enq_handle drop_pending enq_pending handles_ok_def intro!: filter_True)

end

definition entryOf :: "QueueEntry \<Rightarrow> nat \<times> Task" where
  "entryOf e = (qe_handle e, qe_task e)"

definition pendingOf :: "'a SocPerfThreadWrap_scheme \<Rightarrow> (nat \<times> Task) list" where
  "pendingOf s = map entryOf (socperfQueue s)"

interpretation sq: cancellable_queue pendingOf nextHandle submit_h cancel
  by unfold_locales (simp_all add: pendingOf_def submit_h_def cancel_def entryOf_def filter_map comp_def)

subsection \<open>The actions a weak interaction submits\<close>

definition typed_config :: "'a SocPerfConfig_scheme \<Rightarrow> bool" where
  "typed_config s \<longleftrightarrow> (\<forall>mode k as. actionsAt mode k s = Some as \<longrightarrow>
     (\<forall>ac\<in>set (as_actionList as). \<forall>v\<in>set (ac_variable ac). in_int64 v))"

lemma actionsAt_touchActions [simp]: "actionsAt m k (touchActions m' k' s) = actionsAt m k s"
proof (cases "m = m'")
  case True
  then have "modeActions m (touchActions m' k' s) = touch k' (modeActions m s)"
    by (simp add: modeActions_def touchActions_def update_conv')
  then show ?thesis by (simp add: actionsAt_def)
next
  case False
  then have "modeActions m (touchActions m' k' s) = modeActions m s"
    by (simp add: modeActions_def touchActions_def update_conv')
  then show ?thesis by (simp add: actionsAt_def)
qed

lemma typed_config_touchActions [simp]: "typed_config (touchActions m k s) = typed_config s"
  by (simp add: typed_config_def)

text \<open>What the items built for one request have in common.\<close>

definition item_of ::
  "'a SocPerfConfig_scheme \<Rightarrow> int set \<Rightarrow> int \<Rightarrow> EventType \<Rightarrow> int \<Rightarrow> bool \<Rightarrow> ResActionItem \<Rightarrow> bool" where
  "item_of s vs type onOff endTime interact it \<longleftrightarrow> it_resId it \<in> resIds s \<and>
     ra_value (it_resAction it) \<in> vs \<and> ra_type (it_resAction it) = type \<and>
     ra_onOff (it_resAction it) = onOff \<and> ra_endTime (it_resAction it) = endTime \<and>
     ra_interaction (it_resAction it) = (interact \<and> type = ACTION_TYPE_PERF)"

lemma buildItems_items:
  assumes "it \<in> set (buildItems s d type onOff cmd e interact ref ps)"
  shows "item_of s (snd ` set ps) type onOff e interact it"
    and "ra_duration (it_resAction it) = d" and "ra_cmdId (it_resAction it) = cmd"
  using assms
  by (induction s d type onOff cmd e interact ref ps rule: buildItems.induct)
    (auto simp: item_of_def new_ResAction_def Let_def split: if_splits intro: rev_image_eqI)

lemma buildItems_refs:
  "map (ra_ref \<circ> it_resAction) (buildItems s d type onOff cmd e interact ref ps) =
     [ref..<ref + length (buildItems s d type onOff cmd e interact ref ps)]"
  by (induction s d type onOff cmd e interact ref ps rule: buildItems.induct)
    (simp_all add: new_ResAction_def Let_def upt_rec)

lemma varPairs_values: "snd ` set (varPairs vs) \<subseteq> set vs"
  by (induction vs rule: varPairs.induct) auto

lemma weakItems_items:
  assumes "it \<in> set (weakItems s type onOff cmd ref acs)"
  shows "item_of s (\<Union>ac\<in>set acs. set (ac_variable ac)) type onOff MAX_INT_VALUE False it"
  using assms
proof (induction s type onOff cmd ref acs rule: weakItems.induct)
  case (2 s type onOff cmd ref ac rest)
  consider "it \<in> set (buildItems s 0 type onOff cmd MAX_INT_VALUE False ref (varPairs (ac_variable ac)))"
    | "item_of s (\<Union>ac\<in>set rest. set (ac_variable ac)) type onOff MAX_INT_VALUE False it"
    using 2 by (auto simp: Let_def)
  then show ?case
  proof cases
    case 1
    show ?thesis using buildItems_items(1) [OF 1] varPairs_values [of "ac_variable ac"]
      by (auto simp: item_of_def)
  next
    case 2
    then show ?thesis by (auto simp: item_of_def)
  qed
qed simp

subsection \<open>What the state machine may change\<close>

definition weakFrame :: "'a SocPerfThreadWrap_scheme \<Rightarrow> 'a SocPerfThreadWrap_scheme \<Rightarrow> bool" where
  "weakFrame s s' \<longleftrightarrow>
     (\<exists>c ias q r h. s' = s\<lparr>configPerfActionsInfo := c, interAction := ias, socperfQueue := q,
         nextRef := r, nextHandle := h\<rparr>)
     \<and> (\<forall>m k. actionsAt m k s' = actionsAt m k s)"

lemma weakFrameI:
  "s' = s\<lparr>configPerfActionsInfo := c, interAction := ias, socperfQueue := q, nextRef := r, nextHandle := h\<rparr>
   \<Longrightarrow> (\<And>m k. actionsAt m k s' = actionsAt m k s) \<Longrightarrow> weakFrame s s'"
  unfolding weakFrame_def by blast

lemma weakFrame_frame:
  assumes "weakFrame s s'"
  shows "resourceNodeInfo s' = resourceNodeInfo s" "wrapThermalLvl s' = wrapThermalLvl s"
    "powerLimitBoost s' = powerLimitBoost s" "thermalLimitBoost s' = thermalLimitBoost s"
    "resStatusInfo s' = resStatusInfo s" "boostResCnt s' = boostResCnt s" "reports s' = reports s"
    "weakInteractionStatus s' = weakInteractionStatus s" "reportFunc s' = reportFunc s"
    "performanceModeStatus s' = performanceModeStatus s" "minThermalLvl s' = minThermalLvl s"
    "sceneResourceInfo s' = sceneResourceInfo s" "scenarioFunc s' = scenarioFunc s"
    "SocPerfThreadWrap.more s' = SocPerfThreadWrap.more s"
  using assms by (auto simp: weakFrame_def)

lemma weakFrame_actionsAt: "weakFrame s s' \<Longrightarrow> actionsAt m k s' = actionsAt m k s"
  by (simp add: weakFrame_def)

lemma weakFrame_refl [simp]: "weakFrame s s"
  by (rule weakFrameI [where c = "configPerfActionsInfo s" and ias = "interAction s"
        and q = "socperfQueue s" and r = "nextRef s" and h = "nextHandle s"]) simp_all

lemma weakFrame_trans:
  assumes "weakFrame s t" and "weakFrame t u"
  shows "weakFrame s u"
proof -
  obtain c ias q r h where t: "t = s\<lparr>configPerfActionsInfo := c, interAction := ias, socperfQueue := q,
    nextRef := r, nextHandle := h\<rparr>" using assms(1) unfolding weakFrame_def by blast
  obtain c' ias' q' r' h' where u: "u = t\<lparr>configPerfActionsInfo := c', interAction := ias',
    socperfQueue := q', nextRef := r', nextHandle := h'\<rparr>" using assms(2) unfolding weakFrame_def by blast
  show ?thesis
    by (rule weakFrameI [where c = c' and ias = ias' and q = q' and r = r' and h = h'])
      (use t u assms in \<open>simp_all add: weakFrame_actionsAt\<close>)
qed

lemma actionsAt_cong: "configPerfActionsInfo s' = configPerfActionsInfo s \<Longrightarrow> actionsAt m k s' = actionsAt m k s"
  by (simp add: actionsAt_def modeActions_def)

lemma weakFrame_setInterAction [simp]: "weakFrame s (setInterAction i ia s)"
  by (rule weakFrameI [where c = "configPerfActionsInfo s" and ias = "(interAction s)[i := ia]"
        and q = "socperfQueue s" and r = "nextRef s" and h = "nextHandle s"])
    (simp_all add: setInterAction_def actionsAt_def modeActions_def)

lemma weakFrame_submit_h [simp]: "weakFrame s (snd (submit_h d t s))"
  by (rule weakFrameI [where c = "configPerfActionsInfo s" and ias = "interAction s"
        and q = "socperfQueue (snd (submit_h d t s))" and r = "nextRef s" and h = "Suc (nextHandle s)"])
    (simp_all add: submit_h_def actionsAt_def modeActions_def)

lemma weakFrame_submit [simp]: "weakFrame s (submit d t s)"
  by (simp add: submit_def)

lemma weakFrame_cancel [simp]: "weakFrame s (cancel h s)"
  by (rule weakFrameI [where c = "configPerfActionsInfo s" and ias = "interAction s"
        and q = "socperfQueue (cancel h s)" and r = "nextRef s" and h = "nextHandle s"])
    (simp_all add: cancel_def actionsAt_def modeActions_def)

lemma weakFrame_touchActions [simp]: "weakFrame s (touchActions m k s)"
  by (rule weakFrameI [where c = "configPerfActionsInfo (touchActions m k s)" and ias = "interAction s"
        and q = "socperfQueue s" and r = "nextRef s" and h = "nextHandle s"])
    (simp_all only: actionsAt_touchActions, simp add: touchActions_def)

lemma weakFrame_nextRef [simp]: "weakFrame s (s\<lparr>nextRef := r\<rparr>)"
  by (rule weakFrameI [where c = "configPerfActionsInfo s" and ias = "interAction s"
        and q = "socperfQueue s" and r = r and h = "nextHandle s"])
    (simp_all add: actionsAt_def modeActions_def)

lemma interAction_sel [simp]:
  "interAction (snd (submit_h d t s)) = interAction s" "interAction (submit d t s) = interAction s"
  "interAction (cancel h s) = interAction s"
  "interAction (setInterAction i ia s) = (interAction s)[i := ia]"
  "interAction (touchActions m k s) = interAction s"
  by (simp_all add: submit_h_def submit_def cancel_def setInterAction_def)

lemma pendingOf_sel [simp]:
  "pendingOf (setInterAction i ia s) = pendingOf s" "pendingOf (touchActions m k s) = pendingOf s"
  "pendingOf (s\<lparr>nextRef := r\<rparr>) = pendingOf s" "nextHandle (setInterAction i ia s) = nextHandle s"
  "nextHandle (touchActions m k s) = nextHandle s"
  by (simp_all add: pendingOf_def setInterAction_def touchActions_def)

subsection \<open>Well-formed tasks\<close>

definition typed_item :: "ResActionItem \<Rightarrow> bool" where
  "typed_item it \<longleftrightarrow> typed_action (it_resAction it) \<and> 0 \<le> ra_type (it_resAction it)
     \<and> ra_type (it_resAction it) < ACTION_TYPE_MAX"

fun task_ok :: "'a SocPerfThreadWrap_scheme \<Rightarrow> Task \<Rightarrow> bool" where
  "task_ok s (TaskDoFreqActionPack items) = (\<forall>it\<in>set items. typed_item it)"
| "task_ok s (TaskPostDelay items) = (\<forall>it\<in>set items. typed_item it \<and> it_resId it \<in> resIds s)"
| "task_ok s (TaskUpdateLimitStatus ev a resId) =
     (typed_action a \<and> 0 \<le> ra_type a \<and> ra_type a < ACTION_TYPE_MAX)"
| "task_ok s (TaskWeakInteractionTimer i) = (i < length (interAction s))"
| "task_ok s TaskInitResourceNodeInfo = False"
| "task_ok s _ = True"

definition queue_ok :: "'a SocPerfThreadWrap_scheme \<Rightarrow> bool" where
  "queue_ok s \<longleftrightarrow> (\<forall>e\<in>set (pendingOf s). task_ok s (snd e))"

lemma task_ok_cong:
  "resourceNodeInfo s' = resourceNodeInfo s \<Longrightarrow> length (interAction s') = length (interAction s)
   \<Longrightarrow> task_ok s' t = task_ok s t"
  by (cases t) simp_all

text \<open>The action types of the configuration are indices of the five lists of a resource.\<close>

definition inter_ok :: "'a SocPerfConfig_scheme \<Rightarrow> bool" where
  "inter_ok s \<longleftrightarrow> (\<forall>ia\<in>set (interAction s). 0 \<le> ia_actionType ia \<and> ia_actionType ia < ACTION_TYPE_MAX)"

text \<open>An item that switches a weak interaction on or off.\<close>

definition weak_item :: "'a SocPerfConfig_scheme \<Rightarrow> InterAction \<Rightarrow> EventType \<Rightarrow> ResActionItem \<Rightarrow> bool" where
  "weak_item s ia onOff it \<longleftrightarrow> it_resId it \<in> resIds s \<and> typed_action (it_resAction it)
     \<and> ra_type (it_resAction it) = ia_actionType ia \<and> ra_onOff (it_resAction it) = onOff
     \<and> \<not> ra_interaction (it_resAction it)"

lemma weakInteractionOf_pending:
  assumes "typed_config s"
  obtains (none) "pendingOf (weakInteractionOf ia onOff s) = pendingOf s"
      and "nextHandle (weakInteractionOf ia onOff s) = nextHandle s"
    | (pack) items where "items \<noteq> []" and "\<forall>it\<in>set items. weak_item s ia onOff it"
      and "pendingOf (weakInteractionOf ia onOff s) = pendingOf s @ [(nextHandle s, TaskDoFreqActionPack items)]"
      and "nextHandle (weakInteractionOf ia onOff s) = Suc (nextHandle s)"
proof -
  let ?cmd = "GetModeCmdId (ia_cmdId ia) s"
  let ?t = "touchActions DEFAULT_CONFIG_MODE ?cmd s"
  have nodes: "resIds ?t = resIds s" by simp
  show thesis
  proof (cases "actionsAt DEFAULT_CONFIG_MODE ?cmd s")
    case None
    then show ?thesis by (intro none) (simp_all add: weakInteractionOf_def DoWeakInteraction_def Let_def)
  next
    case (Some as)
    let ?items = "weakItems ?t (ia_actionType ia) onOff (as_id as) (nextRef ?t) (as_actionList as)"
    have ok: "weak_item s ia onOff it" if "it \<in> set ?items" for it
    proof -
      have it: "item_of ?t (\<Union>ac\<in>set (as_actionList as). set (ac_variable ac)) (ia_actionType ia) onOff
          MAX_INT_VALUE False it" using that by (rule weakItems_items)
      moreover from it have "in_int64 (ra_value (it_resAction it))"
        using assms Some by (auto simp: typed_config_def item_of_def)
      ultimately show ?thesis by (auto simp: item_of_def weak_item_def typed_action_def in_int64_def)
    qed
    have eq: "weakInteractionOf ia onOff s = DoFreqActionPack ?items (?t\<lparr>nextRef := nextRef ?t + length ?items\<rparr>)"
      using Some by (simp add: weakInteractionOf_def DoWeakInteraction_def Let_def)
    show ?thesis
    proof (cases "?items = []")
      case True
      then show ?thesis by (intro none) (simp_all add: eq DoFreqActionPack_def)
    next
      case False
      then show ?thesis using ok
        by (intro pack [of ?items]) (simp_all add: eq DoFreqActionPack_def submit_def sq.enq_pending sq.enq_fresh)
    qed
  qed
qed

lemma weakInteractionOf_frame:
  "weakFrame s (weakInteractionOf ia onOff s)"
  "interAction (weakInteractionOf ia onOff s) = interAction s"
proof -
  let ?t = "touchActions DEFAULT_CONFIG_MODE (GetModeCmdId (ia_cmdId ia) s) s"
  have a: "weakFrame ?t (DoFreqActionPack items (?t\<lparr>nextRef := r\<rparr>))" for items r
    by (simp add: DoFreqActionPack_def weakFrame_trans [OF weakFrame_nextRef weakFrame_submit])
  show "weakFrame s (weakInteractionOf ia onOff s)"
    by (simp add: weakInteractionOf_def DoWeakInteraction_def Let_def
        weakFrame_trans [OF weakFrame_touchActions a] split: option.split)
  show "interAction (weakInteractionOf ia onOff s) = interAction s"
    by (simp add: weakInteractionOf_def DoWeakInteraction_def DoFreqActionPack_def Let_def split: option.split)
qed

subsection \<open>The state machine and its timers\<close>

definition idle :: "'a SocPerfThreadWrap_scheme \<Rightarrow> bool" where
  "idle s \<longleftrightarrow> weakInteractionStatus s \<and> boostResCnt s = 0"

definition nextStatus :: "bool \<Rightarrow> InterActionStatus \<Rightarrow> InterActionStatus" where
  "nextStatus i st = (if i then (if st = BOOST_STATUS then BOOST_END_STATUS else st) else BOOST_STATUS)"

definition timers :: "nat \<Rightarrow> 'a SocPerfThreadWrap_scheme \<Rightarrow> nat list" where
  "timers i s = sq.tasks_of (\<lambda>t. t = TaskWeakInteractionTimer i) s"

definition timer_ok :: "InterAction \<Rightarrow> nat list \<Rightarrow> bool" where
  "timer_ok ia hs \<longleftrightarrow>
     (if ia_status ia = BOOST_END_STATUS then (\<exists>h. ia_timerTask ia = Some h \<and> hs = [h]) else hs = [])"

definition timerInv :: "'a SocPerfThreadWrap_scheme \<Rightarrow> bool" where
  "timerInv s \<longleftrightarrow> sq.handles_ok s \<and>
     (\<forall>i. if i < length (interAction s) then timer_ok (interAction s ! i) (timers i s) else timers i s = [])"

lemma timerInvD:
  assumes "timerInv s"
  shows "sq.handles_ok s" and "i < length (interAction s) \<Longrightarrow> timer_ok (interAction s ! i) (timers i s)"
    and "\<not> i < length (interAction s) \<Longrightarrow> timers i s = []"
  using assms unfolding timerInv_def by meson+

lemma timerInv_step:
  assumes inv: "timerInv s" and h: "sq.handles_ok s'"
    and ia: "interAction s' = (interAction s)[i := ia]"
    and this_entry: "i < length (interAction s) \<Longrightarrow> timer_ok ia (timers i s')"
    and other: "\<And>j. j \<noteq> i \<or> \<not> i < length (interAction s) \<Longrightarrow> timers j s' = timers j s"
  shows "timerInv s'"
proof -
  have "if j < length (interAction s') then timer_ok (interAction s' ! j) (timers j s') else timers j s' = []" for j
    using timerInvD(2,3) [OF inv, of j] this_entry other [of j]
    by (cases "j = i"; cases "j < length (interAction s)") (simp_all add: ia)
  with h show ?thesis by (simp add: timerInv_def)
qed

text \<open>Entries that are not timers do not matter.\<close>

lemma timers_pack:
  assumes "pendingOf s' = pendingOf s \<and> nextHandle s' = nextHandle s \<or>
     (\<exists>items. pendingOf s' = pendingOf s @ [(nextHandle s, TaskDoFreqActionPack items)]
        \<and> nextHandle s' = Suc (nextHandle s))"
  shows "timers j s' = timers j s" and "sq.handles_ok s \<Longrightarrow> sq.handles_ok s'"
proof -
  show "timers j s' = timers j s" using assms by (auto simp: timers_def sq.tasks_of_def)
  assume "sq.handles_ok s"
  then show "sq.handles_ok s'" using assms by (fastforce simp: sq.handles_ok_def)
qed

lemma weakInteractionOf_timers:
  assumes "typed_config s"
  shows "timers j (weakInteractionOf ia onOff s) = timers j s"
    and "sq.handles_ok s \<Longrightarrow> sq.handles_ok (weakInteractionOf ia onOff s)"
  using assms by (cases rule: weakInteractionOf_pending [of s ia onOff]; blast intro: timers_pack)+

definition sameInter :: "InterAction \<Rightarrow> InterAction \<Rightarrow> bool" where
  "sameInter ia ia' \<longleftrightarrow> ia_cmdId ia' = ia_cmdId ia \<and> ia_actionType ia' = ia_actionType ia
     \<and> ia_delayTime ia' = ia_delayTime ia"

definition stepEffect ::
  "nat \<Rightarrow> InterActionStatus \<Rightarrow> 'a SocPerfThreadWrap_scheme \<Rightarrow> 'a SocPerfThreadWrap_scheme \<Rightarrow> bool" where
  "stepEffect i st s s' \<longleftrightarrow> weakFrame s s' \<and> timerInv s' \<and>
     (\<exists>ia. interAction s' = (interAction s)[i := ia] \<and> sameInter (interAction s ! i) ia \<and> ia_status ia = st) \<and>
     (queue_ok s \<and> inter_ok s \<longrightarrow> queue_ok s')"

lemma sel_timers [simp]:
  "timers j (setInterAction i ia s) = timers j s"
  "sq.handles_ok (setInterAction i ia s) = sq.handles_ok s"
  by (simp_all add: timers_def sq.tasks_of_def sq.handles_ok_def)

lemma queue_ok_mono:
  assumes "queue_ok s" and "resourceNodeInfo s' = resourceNodeInfo s"
    and "length (interAction s') = length (interAction s)"
    and "set (pendingOf s') \<subseteq> set (pendingOf s) \<union> new" and "\<And>e. e \<in> new \<Longrightarrow> task_ok s (snd e)"
  shows "queue_ok s'"
  using assms unfolding queue_ok_def by (auto simp: task_ok_cong [of s' s])

lemma setInterAction_frame [simp]:
  "resourceNodeInfo (setInterAction i ia s) = resourceNodeInfo s"
  "weakInteractionStatus (setInterAction i ia s) = weakInteractionStatus s"
  "boostResCnt (setInterAction i ia s) = boostResCnt s"
  "typed_config (setInterAction i ia s) = typed_config s"
  by (simp_all add: setInterAction_def typed_config_def actionsAt_def modeActions_def)

text \<open>An idle entry in \<open>BOOST_STATUS\<close> starts its timer.\<close>

lemma step_start_timer:
  fixes d :: int
  assumes inv: "timerInv s" and i: "i < length (interAction s)" and boost: "ia_status (interAction s ! i) = BOOST_STATUS"
  defines "ia \<equiv> interAction s ! i"
  defines "s1 \<equiv> snd (submit_h d (TaskWeakInteractionTimer i) s)"
  shows "stepEffect i BOOST_END_STATUS s
    (setInterAction i (ia\<lparr>ia_status := BOOST_END_STATUS, ia_timerTask := Some (nextHandle s)\<rparr>) s1)"
    (is "stepEffect _ _ _ (setInterAction i ?ia s1)")
  unfolding stepEffect_def
proof (intro conjI impI)
  have t: "timers j s1 = timers j s @ (if j = i then [nextHandle s] else [])" for j
    by (simp add: timers_def s1_def sq.tasks_of_enq)
  have none: "timers i s = []" using timerInvD(2) [OF inv i] boost by (simp add: timer_ok_def)
  show "weakFrame s (setInterAction i ?ia s1)"
    unfolding s1_def by (rule weakFrame_trans [OF weakFrame_submit_h weakFrame_setInterAction])
  show "timerInv (setInterAction i ?ia s1)"
  proof (rule timerInv_step [OF inv])
    show "sq.handles_ok (setInterAction i ?ia s1)"
      using timerInvD(1) [OF inv] by (simp add: s1_def sq.handles_ok_enq)
  qed (use i in \<open>auto simp: s1_def t [unfolded s1_def] none timer_ok_def\<close>)
  show "\<exists>ia'. interAction (setInterAction i ?ia s1) = (interAction s)[i := ia']
      \<and> sameInter (interAction s ! i) ia' \<and> ia_status ia' = BOOST_END_STATUS"
    by (rule exI [of _ ?ia]) (simp add: s1_def ia_def sameInter_def)
  assume "queue_ok s \<and> inter_ok s"
  then have q: "queue_ok s" ..
  show "queue_ok (setInterAction i ?ia s1)"
    by (rule queue_ok_mono [OF q, where new = "{(nextHandle s, TaskWeakInteractionTimer i)}"])
      (simp_all add: s1_def sq.enq_pending weakFrame_frame [OF weakFrame_submit_h] i)
qed

text \<open>An entry in the weak state is switched off.\<close>

lemma step_leave_weak:
  assumes inv: "timerInv s" and conf: "typed_config s" and i: "i < length (interAction s)"
    and weak: "ia_status (interAction s ! i) = WEAK_INTERACTION_STATUS"
  defines "ia \<equiv> interAction s ! i"
  shows "stepEffect i BOOST_STATUS s
    (weakInteractionOf ia EVENT_OFF (setInterAction i (ia\<lparr>ia_status := BOOST_STATUS\<rparr>) s))"
    (is "stepEffect _ _ _ ?s'")
  unfolding stepEffect_def
proof (intro conjI impI)
  let ?ia = "ia\<lparr>ia_status := BOOST_STATUS\<rparr>"
  let ?s1 = "setInterAction i ?ia s"
  have c1: "typed_config ?s1" using conf by simp
  note wt = weakInteractionOf_timers [OF c1, where ia = ia and onOff = EVENT_OFF]
  have none: "timers i s = []" using timerInvD(2) [OF inv i] weak by (simp add: timer_ok_def)
  have eq: "interAction ?s' = (interAction s)[i := ?ia]"
    using weakInteractionOf_frame(2) [of ia EVENT_OFF ?s1] by simp
  show "weakFrame s ?s'"
    by (rule weakFrame_trans [OF weakFrame_setInterAction weakInteractionOf_frame(1)])
  show "timerInv ?s'"
  proof (rule timerInv_step [OF inv _ eq])
    show "sq.handles_ok ?s'" using timerInvD(1) [OF inv] by (intro wt(2)) simp
  qed (simp_all add: wt(1) none timer_ok_def)
  show "\<exists>ia'. interAction ?s' = (interAction s)[i := ia'] \<and> sameInter (interAction s ! i) ia'
      \<and> ia_status ia' = BOOST_STATUS"
    unfolding eq by (rule exI [of _ ?ia]) (simp add: ia_def sameInter_def)
  assume ok: "queue_ok s \<and> inter_ok s"
  then have q: "queue_ok s" ..
  have nodes: "resourceNodeInfo ?s' = resourceNodeInfo s"
    using weakFrame_frame(1) [OF weakInteractionOf_frame(1) [of ?s1 ia EVENT_OFF]] by simp
  from c1 show "queue_ok ?s'"
  proof (cases rule: weakInteractionOf_pending [of ?s1 ia EVENT_OFF])
    case none
    then show ?thesis
      by (intro queue_ok_mono [OF q, where new = "{}"]) (simp_all add: nodes eq)
  next
    case (pack items)
    have "0 \<le> ia_actionType ia \<and> ia_actionType ia < ACTION_TYPE_MAX"
      using ok i by (simp add: inter_ok_def ia_def)
    with pack(2) have "\<forall>it\<in>set items. typed_item it" by (auto simp: weak_item_def typed_item_def)
    with pack(3) show ?thesis
      by (intro queue_ok_mono [OF q, where new = "{(nextHandle s, TaskDoFreqActionPack items)}"])
        (simp_all add: nodes eq)
  qed
qed

text \<open>A pending timer is cancelled.\<close>

lemma step_cancel_timer:
  assumes inv: "timerInv s" and i: "i < length (interAction s)"
    and pending: "ia_status (interAction s ! i) = BOOST_END_STATUS" and h: "ia_timerTask (interAction s ! i) = Some h"
  defines "ia \<equiv> interAction s ! i"
  shows "stepEffect i BOOST_STATUS s
    (setInterAction i (ia\<lparr>ia_status := BOOST_STATUS, ia_timerTask := None\<rparr>) (cancel h s))"
    (is "stepEffect _ _ _ (setInterAction i ?ia ?s1)")
  unfolding stepEffect_def
proof (intro conjI impI)
  have mine: "timers i s = [h]" using timerInvD(2) [OF inv i] pending h by (simp add: timer_ok_def)
  then have none: "timers i ?s1 = []" by (simp add: timers_def sq.tasks_of_drop)
  have other: "timers j ?s1 = timers j s" if "j \<noteq> i" for j
    unfolding timers_def
    by (rule sq.tasks_of_drop_other [OF timerInvD(1) [OF inv], where P = "\<lambda>t. t = TaskWeakInteractionTimer i"])
      (use mine that in \<open>auto simp: timers_def\<close>)
  show "weakFrame s (setInterAction i ?ia ?s1)"
    by (rule weakFrame_trans [OF weakFrame_cancel weakFrame_setInterAction])
  show "timerInv (setInterAction i ?ia ?s1)"
  proof (rule timerInv_step [OF inv])
    show "sq.handles_ok (setInterAction i ?ia ?s1)"
      using timerInvD(1) [OF inv] by (simp add: sq.handles_ok_drop)
  qed (use i other in \<open>auto simp: none timer_ok_def\<close>)
  show "\<exists>ia'. interAction (setInterAction i ?ia ?s1) = (interAction s)[i := ia']
      \<and> sameInter (interAction s ! i) ia' \<and> ia_status ia' = BOOST_STATUS"
    by (rule exI [of _ ?ia]) (simp add: ia_def sameInter_def)
  assume "queue_ok s \<and> inter_ok s"
  then have q: "queue_ok s" ..
  show "queue_ok (setInterAction i ?ia ?s1)"
    by (rule queue_ok_mono [OF q, where new = "{}"])
      (auto simp: sq.drop_pending weakFrame_frame [OF weakFrame_cancel])
qed

lemma WeakInteraction_step_effect:
  assumes inv: "timerInv s" and conf: "typed_config s" and i: "i < length (interAction s)"
  shows "stepEffect i (nextStatus (idle s) (ia_status (interAction s ! i))) s (WeakInteraction_step i s)"
proof -
  let ?ia = "interAction s ! i"
  have stay: "stepEffect i (ia_status ?ia) s s"
    using inv i by (auto simp: stepEffect_def sameInter_def intro!: exI [of _ ?ia])
  have def_eq: "WeakInteraction_step i s =
      (if idle s \<and> ia_status ?ia = BOOST_STATUS then
         setInterAction i (?ia\<lparr>ia_status := BOOST_END_STATUS, ia_timerTask := Some (nextHandle s)\<rparr>)
           (snd (submit_h (delayOfInterAction (ia_delayTime ?ia)) (TaskWeakInteractionTimer i) s))
       else if \<not> idle s \<and> ia_status ?ia = WEAK_INTERACTION_STATUS then
         weakInteractionOf ?ia EVENT_OFF (setInterAction i (?ia\<lparr>ia_status := BOOST_STATUS\<rparr>) s)
       else if \<not> idle s \<and> ia_status ?ia = BOOST_END_STATUS then
         case ia_timerTask ?ia of
           None \<Rightarrow> setInterAction i (?ia\<lparr>ia_status := BOOST_STATUS\<rparr>) s
         | Some h \<Rightarrow> setInterAction i (?ia\<lparr>ia_status := BOOST_STATUS, ia_timerTask := None\<rparr>) (cancel h s)
       else s)"
    by (simp add: WeakInteraction_step_def idle_def submit_h_def Let_def weakInteractionOf_def)
  show ?thesis
  proof (cases "ia_status ?ia")
    case BOOST_STATUS
    then show ?thesis
      using stay step_start_timer [OF inv i] by (simp add: def_eq nextStatus_def)
  next
    case BOOST_END_STATUS
    then obtain h where "ia_timerTask ?ia = Some h"
      using timerInvD(2) [OF inv i] by (auto simp: timer_ok_def)
    with BOOST_END_STATUS show ?thesis
      using stay step_cancel_timer [OF inv i] by (simp add: def_eq nextStatus_def)
  next
    case WEAK_INTERACTION_STATUS
    then show ?thesis
      using stay step_leave_weak [OF inv conf i] by (simp add: def_eq nextStatus_def)
  qed
qed

subsection \<open>The whole loop\<close>

text \<open>
  After \<open>WeakInteraction\<close> every entry has made the transition its status asks for, its parameters
  are unchanged, the timers of the queue are those of the entries in \<open>BOOST_END_STATUS\<close>.
\<close>

definition statuses :: "'a SocPerfThreadWrap_scheme \<Rightarrow> InterActionStatus list" where
  "statuses s = map ia_status (interAction s)"

definition loopEffect :: "nat \<Rightarrow> 'a SocPerfThreadWrap_scheme \<Rightarrow> 'a SocPerfThreadWrap_scheme \<Rightarrow> bool" where
  "loopEffect n s s' \<longleftrightarrow> weakFrame s s' \<and> timerInv s' \<and>
     statuses s' = map (nextStatus (idle s)) (take n (statuses s)) @ drop n (statuses s) \<and>
     list_all2 sameInter (interAction s) (interAction s') \<and>
     (queue_ok s \<and> inter_ok s \<longrightarrow> queue_ok s' \<and> inter_ok s')"

lemma sameInter_refl [simp]: "sameInter ia ia"
  by (simp add: sameInter_def)

lemma sameInter_trans: "sameInter a b \<Longrightarrow> sameInter b c \<Longrightarrow> sameInter a c"
  by (simp add: sameInter_def)

lemma inter_ok_same:
  "list_all2 sameInter (interAction s) (interAction s') \<Longrightarrow> inter_ok s \<Longrightarrow> inter_ok s'"
  by (fastforce simp: inter_ok_def sameInter_def list_all2_conv_all_nth in_set_conv_nth)

lemma typed_config_weakFrame: "weakFrame s s' \<Longrightarrow> typed_config s' = typed_config s"
  by (simp add: typed_config_def weakFrame_actionsAt)

lemma loopEffect_step:
  assumes "loopEffect n s t" and "n < length (interAction s)" and "typed_config s"
  shows "loopEffect (Suc n) s (WeakInteraction_step n t)"
proof -
  let ?u = "WeakInteraction_step n t"
  have st: "weakFrame s t" "timerInv t" "list_all2 sameInter (interAction s) (interAction t)"
    and stat: "statuses t = map (nextStatus (idle s)) (take n (statuses s)) @ drop n (statuses s)"
    and ok: "queue_ok s \<and> inter_ok s \<longrightarrow> queue_ok t \<and> inter_ok t"
    using assms(1) unfolding loopEffect_def by blast+
  have len: "length (interAction t) = length (interAction s)" using st(3) by (simp add: list_all2_lengthD)
  have n: "n < length (interAction t)" "n < length (statuses s)" using assms(2) len by (simp_all add: statuses_def)
  have idle: "idle t = idle s" using weakFrame_frame [OF st(1)] by (simp add: idle_def)
  have "ia_status (interAction t ! n) = statuses t ! n" using n(1) by (simp add: statuses_def)
  also have "\<dots> = statuses s ! n" using n(2) by (simp add: stat nth_append)
  finally have old: "ia_status (interAction t ! n) = statuses s ! n" .
  obtain ia where step: "weakFrame t ?u" "timerInv ?u" "queue_ok t \<and> inter_ok t \<longrightarrow> queue_ok ?u"
    and ia: "interAction ?u = (interAction t)[n := ia]" "sameInter (interAction t ! n) ia"
      "ia_status ia = nextStatus (idle s) (statuses s ! n)"
    using WeakInteraction_step_effect [OF st(2) _ n(1)] assms(3) typed_config_weakFrame [OF st(1)]
    unfolding stepEffect_def old idle by blast
  have same: "list_all2 sameInter (interAction s) (interAction ?u)"
    using st(3) ia(2) n(1) sameInter_trans
    by (auto simp: ia(1) list_all2_conv_all_nth nth_list_update)
  moreover have "statuses ?u = map (nextStatus (idle s)) (take (Suc n) (statuses s)) @ drop (Suc n) (statuses s)"
  proof -
    have "statuses ?u = (statuses t)[n := nextStatus (idle s) (statuses s ! n)]"
      by (simp add: statuses_def ia map_update)
    also have "\<dots> = map (nextStatus (idle s)) (take (Suc n) (statuses s)) @ drop (Suc n) (statuses s)"
      using n(2) by (simp add: stat list_update_append take_Suc_conv_app_nth Cons_nth_drop_Suc [symmetric])
    finally show ?thesis .
  qed
  ultimately show ?thesis
    using weakFrame_trans [OF st(1) step(1)] step(2,3) ok inter_ok_same [OF same]
    unfolding loopEffect_def by blast
qed

lemma WeakInteraction_effect:
  assumes "timerInv s" and "typed_config s"
  shows "loopEffect (length (interAction s)) s (WeakInteraction s)"
proof -
  have "loopEffect n s (fold WeakInteraction_step [0..<n] s)" if "n \<le> length (interAction s)" for n
    using that
  proof (induction n)
    case 0
    show ?case using assms(1) by (simp add: loopEffect_def list_all2_refl)
  next
    case (Suc n)
    then show ?case using loopEffect_step [OF _ _ assms(2)] by simp
  qed
  then show ?thesis by (simp add: WeakInteraction_def)
qed

lemma WeakInteraction_statuses:
  assumes "timerInv s" and "typed_config s"
  shows "statuses (WeakInteraction s) = map (nextStatus (idle s)) (statuses s)"
    and "weakFrame s (WeakInteraction s)" and "timerInv (WeakInteraction s)"
    and "list_all2 sameInter (interAction s) (interAction (WeakInteraction s))"
    and "queue_ok s \<Longrightarrow> inter_ok s \<Longrightarrow> queue_ok (WeakInteraction s) \<and> inter_ok (WeakInteraction s)"
  using WeakInteraction_effect [OF assms] unfolding loopEffect_def by (simp_all add: statuses_def)

end
