(* ===== verification/TaskInvariant.thy ===== *)
theory TaskInvariant
  imports Reporting WeakInteractions
begin

text \<open>
  The invariant of the thread wrap between two closures, \<open>wrapInv\<close>, and its preservation by every
  closure: none of them fails, the values in force stay the arbitrated ones, the values last sent are
  the values in force, and an interaction has left \<open>BOOST_STATUS\<close> only while no interactive action
  is alive. \<open>midInv\<close> is the part that holds inside a closure, before \<open>SendResStatus\<close>.
\<close>

subsection \<open>Invariants\<close>

definition avail_ok :: "'a SocPerfConfig_scheme \<Rightarrow> bool" where
  "avail_ok s \<longleftrightarrow> (\<forall>k n v. nodeAt k s = Some n \<and> v \<in> set (rn_available n) \<longrightarrow> in_int64 v)"

definition confInv :: "'a SocPerfConfig_scheme \<Rightarrow> bool" where
  "confInv s \<longleftrightarrow> typed_config s \<and> inter_ok s \<and> avail_ok s"

definition midInv :: "'a SocPerfThreadWrap_scheme \<Rightarrow> bool" where
  "midInv s \<longleftrightarrow> confInv s \<and> timerInv s \<and> queue_ok s \<and> resInv UNIV s \<and> inSync s"

definition weakOnlyIdle :: "'a SocPerfThreadWrap_scheme \<Rightarrow> bool" where
  "weakOnlyIdle s \<longleftrightarrow> (\<forall>st\<in>set (statuses s). st \<noteq> BOOST_STATUS \<longrightarrow> idle s)"

definition wrapInv :: "'a SocPerfThreadWrap_scheme \<Rightarrow> bool" where
  "wrapInv s \<longleftrightarrow> midInv s \<and> settled s \<and> weakOnlyIdle s"

lemma avail_ok_cong: "resourceNodeInfo s' = resourceNodeInfo s \<Longrightarrow> avail_ok s' = avail_ok s"
  by (simp add: avail_ok_def nodeAt_def)

lemma confInv_weakFrame:
  assumes "weakFrame s s'" and "list_all2 sameInter (interAction s) (interAction s')" and "confInv s"
  shows "confInv s'"
  using assms inter_ok_same [OF assms(2)] typed_config_weakFrame [OF assms(1)]
    avail_ok_cong [OF weakFrame_frame(1) [OF assms(1)]]
  by (simp add: confInv_def)

text \<open>Configuration, timers and queue depend on these fields only.\<close>

lemma static_cong:
  assumes "configPerfActionsInfo s' = configPerfActionsInfo s" and "interAction s' = interAction s"
    and "resourceNodeInfo s' = resourceNodeInfo s" and "socperfQueue s' = socperfQueue s"
    and "nextHandle s' = nextHandle s"
  shows "confInv s' = confInv s" "timerInv s' = timerInv s" "queue_ok s' = queue_ok s"
    "timers i s' = timers i s"
proof -
  have p: "pendingOf s' = pendingOf s" by (simp add: pendingOf_def assms(4))
  have "typed_config s' = typed_config s" by (simp add: typed_config_def actionsAt_cong [OF assms(1)])
  moreover have "inter_ok s' = inter_ok s" by (simp add: inter_ok_def assms(2))
  ultimately show "confInv s' = confInv s" by (simp add: confInv_def avail_ok_cong [OF assms(3)])
  show t: "timers i s' = timers i s" for i by (simp add: timers_def sq.tasks_of_def p)
  show "timerInv s' = timerInv s"
    unfolding timerInv_def t assms(2) sq.handles_ok_def p assms(5) ..
  have "task_ok s' t = task_ok s t" for t by (rule task_ok_cong) (simp_all add: assms)
  then show "queue_ok s' = queue_ok s" by (simp add: queue_ok_def p)
qed

lemma wrapFrame_static:
  assumes "wrapFrame s s'"
  shows "confInv s' = confInv s" "timerInv s' = timerInv s" "queue_ok s' = queue_ok s"
  using static_cong [of s' s] wrapFrame_frame [OF assms] by simp_all

definition samePrev :: "'a SocPerfThreadWrap_scheme \<Rightarrow> 'a SocPerfThreadWrap_scheme \<Rightarrow> bool" where
  "samePrev s s' \<longleftrightarrow> (\<forall>j. map_option rs_previousValue (stm s' j) = map_option rs_previousValue (stm s j))"

lemma inSync_samePrev:
  assumes "inSync s" and "wrapFrame s s'" and "samePrev s s'"
  shows "inSync s'"
  unfolding inSync_def
proof (intro allI impI, elim conjE)
  fix k st' assume st': "stm s' k = Some st'" and send: "sendable s' k"
  note fr = wrapFrame_frame [OF assms(2)]
  from assms(3) st' obtain st where "stm s k = Some st" "rs_previousValue st' = rs_previousValue st"
    unfolding samePrev_def by (metis map_option_eq_Some option.map(2))
  then show "lastSent (reports s') k = Some (rs_previousValue st')"
    using assms(1) send sendable_cong [OF fr(1,13), of k] by (simp add: inSync_def fr)
qed

lemma midInv_step:
  assumes "midInv s" and "wrapFrame s s'" and "samePrev s s'" and "resInv UNIV s'"
  shows "midInv s'"
  using assms inSync_samePrev [OF _ assms(2,3)] wrapFrame_static [OF assms(2)] by (simp add: midInv_def)

lemma kept_samePrev:
  assumes "\<And>j. map_option kept (stm s' j) = map_option kept (f j)"
    and "\<And>j. map_option rs_previousValue (f j) = map_option rs_previousValue (stm s j)"
  shows "samePrev s s'"
  unfolding samePrev_def
proof
  fix j
  have "map_option (\<lambda>k. fst (snd k)) (map_option kept x) = map_option rs_previousValue x" for x
    by (cases x) (simp_all add: kept_def)
  then show "map_option rs_previousValue (stm s' j) = map_option rs_previousValue (stm s j)"
    using arg_cong [OF assms(1) [of j], of "map_option (\<lambda>k. fst (snd k))"] assms(2) by simp
qed

lemma setActionList_previous [simp]: "rs_previousValue (setActionList t as st) = rs_previousValue st"
  by (simp add: setActionList_def)

lemma actionEffect_samePrev:
  assumes "actionEffect k d a s s'"
  shows "samePrev s s'"
proof -
  obtain st where st: "stm s k = Some st" and eq: "\<And>j. map_option kept (stm s' j) =
      map_option kept (if j = k then Some (setActionList (ra_type a)
        (actionsAfter d a (actionsOf (ra_type a) st)) st) else stm s j)"
    using assms by (fastforce simp: actionEffect_def)
  show ?thesis by (rule kept_samePrev [OF eq]) (use st in auto)
qed

subsection \<open>Loops over a list of operations\<close>

text \<open>
  The contract of a loop body: from a state with the invariant, an operation that is applicable
  returns, keeps the invariant and makes only changes allowed by \<open>frame\<close>; applicability is not lost
  by such changes.
\<close>

locale guarded_loop =
  fixes op :: "'x \<Rightarrow> 's \<Rightarrow> error + 's" and inv :: "'s \<Rightarrow> bool" and ok :: "'s \<Rightarrow> 'x \<Rightarrow> bool"
    and frame :: "'s \<Rightarrow> 's \<Rightarrow> bool"
  assumes op_ok: "inv s \<Longrightarrow> ok s x \<Longrightarrow> okE (\<lambda>s'. inv s' \<and> frame s s') (op x s)"
    and ok_frame: "frame s s' \<Longrightarrow> ok s x \<Longrightarrow> ok s' x"
    and frame_refl: "frame s s"
    and frame_trans: "frame s t \<Longrightarrow> frame t u \<Longrightarrow> frame s u"
begin

lemma loop_ok:
  assumes "inv s" and "\<forall>x\<in>set xs. ok s x"
  shows "okE (\<lambda>s'. inv s' \<and> frame s s') (foldE op xs s)"
proof (rule okE_foldE)
  show "inv s \<and> frame s s" using assms(1) frame_refl by simp
next
  fix x t assume x: "x \<in> set xs" and t: "inv t \<and> frame s t"
  then have "ok t x" using assms(2) ok_frame by blast
  then have "okE (\<lambda>s'. inv s' \<and> frame t s') (op x t)" using t op_ok by blast
  then show "okE (\<lambda>s'. inv s' \<and> frame s s') (op x t)"
    by (rule okE_mono) (use t frame_trans in blast)
qed

end

lemma UpdateResActionList_mid:
  assumes inv: "midInv s" and it: "typed_item it" and k: "it_resId it \<in> resIds s"
  shows "okE (\<lambda>s'. midInv s' \<and> wrapFrame s s') (UpdateResActionList (it_resId it) (it_resAction it) d s)"
proof -
  have r: "resInv UNIV s" and wf: "wf_wrap s" using inv by (simp_all add: midInv_def resInv_def)
  obtain st where st: "stm s (it_resId it) = Some st" using wf k by (rule wf_wrap_status)
  have "okE (\<lambda>s'. resInv UNIV s' \<and> actionEffect (it_resId it) d (it_resAction it) s s')
      (UpdateResActionList (it_resId it) (it_resAction it) d s)"
    using UpdateResActionList_inv [OF r st] it by (simp add: typed_item_def)
  then show ?thesis
    by (rule okE_mono)
      (use inv midInv_step actionEffect_samePrev in \<open>fastforce simp: actionEffect_def\<close>)
qed

text \<open>The body of a pack checks the resource id; the body of a delayed removal does not.\<close>

interpretation pack_loop: guarded_loop doPackItem midInv "\<lambda>s. typed_item" wrapFrame
proof
  fix s :: "'a SocPerfThreadWrap_scheme" and it
  assume "midInv s" and "typed_item it"
  then show "okE (\<lambda>s'. midInv s' \<and> wrapFrame s s') (doPackItem it s)"
    by (simp add: doPackItem_def UpdateResActionList_mid)
qed (auto intro: wrapFrame_trans)

interpretation delayed_loop: guarded_loop "\<lambda>it. UpdateResActionList (it_resId it) (it_resAction it) True"
  midInv "\<lambda>s it. typed_item it \<and> it_resId it \<in> resIds s" wrapFrame
proof
  fix s :: "'a SocPerfThreadWrap_scheme" and it
  assume "midInv s" and "typed_item it \<and> it_resId it \<in> resIds s"
  then show "okE (\<lambda>s'. midInv s' \<and> wrapFrame s s')
      (UpdateResActionList (it_resId it) (it_resAction it) True s)"
    by (blast intro: UpdateResActionList_mid)
qed (auto simp: wrapFrame_frame(1) intro: wrapFrame_trans)

subsection \<open>The end of a closure\<close>

text \<open>
  What a run of \<open>SendResStatus\<close> does: every status records the value in force as sent, every
  interaction makes its transition, nothing else of the resource table changes.
\<close>

definition sendEffect :: "'a SocPerfThreadWrap_scheme \<Rightarrow> 'a SocPerfThreadWrap_scheme \<Rightarrow> bool" where
  "sendEffect s s' \<longleftrightarrow> stm s' = (\<lambda>j. map_option sync (stm s j)) \<and> boostResCnt s' = boostResCnt s
     \<and> resourceNodeInfo s' = resourceNodeInfo s \<and> powerLimitBoost s' = powerLimitBoost s
     \<and> thermalLimitBoost s' = thermalLimitBoost s \<and> weakInteractionStatus s' = weakInteractionStatus s
     \<and> reportFunc s' = reportFunc s \<and> map fst (resStatusInfo s') = map fst (resStatusInfo s)
     \<and> statuses s' = map (nextStatus (idle s)) (statuses s)
     \<and> list_all2 sameInter (interAction s) (interAction s')"

lemma SendResStatus_inv:
  assumes inv: "midInv s"
  shows "okE (\<lambda>s'. wrapInv s' \<and> sendEffect s s') (SendResStatus s)"
proof -
  let ?t = "sendChanged s" and ?u = "WeakInteraction (sendChanged s)"
  have r: "resInv UNIV s" and syn: "inSync s" and stat: "confInv s" "timerInv s" "queue_ok s"
    using inv by (simp_all add: midInv_def)
  have wf: "wf_wrap s" using r by (simp add: resInv_def)
  obtain u r where eq: "?t = u\<lparr>reports := r\<rparr>" and only: "onlyStatus s u"
    and m: "stm u = (\<lambda>j. map_option sync (stm s j))"
    using wf by (rule sendChanged_sync)
  note fr = onlyStatus_frame [OF only]
  have st: "confInv ?t" "timerInv ?t" "queue_ok ?t"
    using stat static_cong [of ?t s] by (simp_all add: eq fr)
  then have c: "typed_config ?t" and io: "inter_ok ?t" by (simp_all add: confInv_def)
  note wi = WeakInteraction_statuses [OF st(2) c]
  note wf' = weakFrame_frame [OF wi(2)]
  have idle: "idle ?t = idle s" "idle ?u = idle s"
    unfolding idle_def wf' by (simp_all add: eq fr)
  have mu: "stm ?u = stm ?t" "stm ?t = stm u" unfolding stm_def wf' by (simp_all add: eq)
  have "resInv UNIV ?u" and "inSync ?u" and "settled ?u"
    using sendChanged_inv [OF r syn] resInv_cong [of ?u ?t UNIV] inSync_cong [of ?u ?t] by (simp_all add: wf')
  moreover have "confInv ?u" by (rule confInv_weakFrame [OF wi(2) wi(4) st(1)])
  moreover have "weakOnlyIdle ?u"
    by (auto simp: weakOnlyIdle_def wi(1) idle nextStatus_def)
  ultimately have "wrapInv ?u"
    using wi(3) wi(5) [OF st(3) io] by (simp add: wrapInv_def midInv_def)
  moreover have "sendEffect s ?u"
    using wi(1,4) unfolding sendEffect_def mu m idle wf' by (simp add: eq fr statuses_def)
  ultimately show ?thesis by (simp add: SendResStatus_eq [OF wf])
qed

lemma then_send:
  assumes "okE midInv m"
  shows "okE wrapInv (bindE m SendResStatus)"
  by (rule okE_bind [OF assms]) (rule okE_mono [OF SendResStatus_inv], simp_all)

lemma wrapInv_mid: "wrapInv s \<Longrightarrow> midInv s"
  by (simp add: wrapInv_def)

subsection \<open>Packs and delayed removals\<close>

lemma doFreqActionPackFunc_inv:
  assumes "midInv s" and "\<forall>it\<in>set items. typed_item it"
  shows "okE wrapInv (doFreqActionPackFunc items s)"
  unfolding doFreqActionPackFunc_def
  by (rule then_send, rule okE_mono [OF pack_loop.loop_ok [OF assms]]) simp

lemma postDelayTaskFunc_inv:
  assumes "midInv s" and "\<forall>it\<in>set items. typed_item it \<and> it_resId it \<in> resIds s"
  shows "okE wrapInv (postDelayTaskFunc items s)"
  unfolding postDelayTaskFunc_def
  by (rule then_send, rule okE_mono [OF delayed_loop.loop_ok [OF assms]]) simp

subsection \<open>Clearing\<close>

lemma clearEntry_mid:
  assumes inv: "midInv s"
  shows "okE (\<lambda>s'. midInv s' \<and> wrapFrame s s') (clearEntry k s)"
proof (cases "stm s k")
  case None
  then show ?thesis using inv by (simp add: clearEntry_def statusAt_stm)
next
  case (Some st)
  have r: "resInv UNIV s" using inv by (simp add: midInv_def)
  have "okE (\<lambda>s'. resInv UNIV s' \<and> onlyStatus s s' \<and>
        (\<forall>j. map_option kept (stm s' j) = map_option kept (((stm s)(k \<mapsto> setActionList ACTION_TYPE_PERF [] st)) j)))
      (clearEntry k s)"
    unfolding clearEntry_def statusAt_stm Some option.case
    by (rule UpdateCandidatesValue_inv [OF r Some]) simp_all
  then show ?thesis
  proof (rule okE_mono, elim conjE, intro conjI)
    fix s' assume a: "resInv UNIV s'" "onlyStatus s s'"
      "\<forall>j. map_option kept (stm s' j) = map_option kept (((stm s)(k \<mapsto> setActionList ACTION_TYPE_PERF [] st)) j)"
    have "samePrev s s'" by (rule kept_samePrev [OF spec [OF a(3)]]) (use Some in auto)
    then show "midInv s'" using midInv_step [OF inv onlyStatus_wrapFrame [OF a(2)]] a(1) by blast
    show "wrapFrame s s'" by (rule onlyStatus_wrapFrame [OF a(2)])
  qed
qed

interpretation clear_loop: guarded_loop clearEntry midInv "\<lambda>s k. True" wrapFrame
  by unfold_locales (auto intro: clearEntry_mid wrapFrame_trans)

lemma clearAllAliveRequestFunc_inv:
  assumes "midInv s"
  shows "okE wrapInv (clearAllAliveRequestFunc s)"
  unfolding clearAllAliveRequestFunc_def
  by (rule then_send, rule okE_mono [OF clear_loop.loop_ok [OF assms]]) simp_all

subsection \<open>The limit switches\<close>

lemma resInv_mono: "resInv K s \<Longrightarrow> L \<subseteq> K \<Longrightarrow> resInv L s"
  unfolding resInv_def by blast

lemma resInv_keys:
  assumes "resInv (set (map fst (resStatusInfo s))) s"
  shows "resInv UNIV s"
proof -
  have "policy_at k s" for k
  proof (cases "stm s k")
    case None
    then show ?thesis by (simp add: policy_at_def)
  next
    case (Some st)
    then show ?thesis using assms stm_keys [of s k] unfolding resInv_def by blast
  qed
  then show ?thesis using assms by (simp add: resInv_def)
qed

lemma resInv_switch:
  assumes "resInv K s" and "resourceNodeInfo s' = resourceNodeInfo s" and "resStatusInfo s' = resStatusInfo s"
  shows "resInv {} s'"
proof -
  have m: "stm s' = stm s" using assms(3) by (simp add: stm_def)
  have "wf_wrap s' = wf_wrap s" using assms(2,3) m by (simp add: wf_wrap_def wf_nodes_def)
  moreover have "values_ok s' = values_ok s"
    unfolding values_ok_def m pairOf_cong [OF assms(2)] isMaxRes_cong [OF assms(2)] ..
  ultimately show ?thesis using assms(1) unfolding resInv_def sym_pairs_cong [OF assms(2)] m by simp
qed

lemma arbitrateEntry_inv:
  assumes "resInv K s"
  shows "okE (\<lambda>s'. resInv (insert k K) s' \<and> onlyStatus s s' \<and> samePrev s s') (arbitrateEntry k s)"
proof (cases "stm s k")
  case None
  then have "policy_at k s" by (simp add: policy_at_def)
  with assms have "resInv (insert k K) s" by (simp add: resInv_def)
  with None show ?thesis by (simp add: arbitrateEntry_def statusAt_stm samePrev_def)
next
  case (Some st)
  then have eq: "arbitrateEntry k s = ArbitrateCandidate k s" by (simp add: arbitrateEntry_def statusAt_stm)
  show ?thesis unfolding eq
    by (rule okE_mono [OF ArbitrateCandidate_inv [OF assms]]) (use Some in \<open>auto intro: kept_samePrev\<close>)
qed

lemma arbitrateLoop_inv:
  assumes "resInv K s"
  shows "okE (\<lambda>s'. resInv (K \<union> set ks) s' \<and> onlyStatus s s' \<and> samePrev s s') (foldE arbitrateEntry ks s)"
  using assms
proof (induction ks arbitrary: s K)
  case Nil
  then show ?case by (simp add: samePrev_def)
next
  case (Cons k ks)
  show ?case unfolding foldE.simps
  proof (rule okE_bind [OF arbitrateEntry_inv [OF Cons.prems, of k]], elim conjE)
    fix t assume t: "resInv (insert k K) t" "onlyStatus s t" "samePrev s t"
    show "okE (\<lambda>s'. resInv (K \<union> set (k # ks)) s' \<and> onlyStatus s s' \<and> samePrev s s') (foldE arbitrateEntry ks t)"
      by (rule okE_mono [OF Cons.IH [OF t(1)]])
        (use t(2,3) in \<open>auto simp: samePrev_def intro: onlyStatus_trans\<close>)
  qed
qed

lemma switch_mid:
  assumes inv: "midInv s" and stat: "configPerfActionsInfo s' = configPerfActionsInfo s"
      "interAction s' = interAction s" "resourceNodeInfo s' = resourceNodeInfo s"
      "socperfQueue s' = socperfQueue s" "nextHandle s' = nextHandle s"
    and more: "resStatusInfo s' = resStatusInfo s" "reportFunc s' = reportFunc s" "reports s' = reports s"
  shows "okE midInv (foldE arbitrateEntry (map fst (resStatusInfo s')) s')"
proof -
  have r: "resInv {} s'" using inv resInv_switch [OF _ stat(3) more(1), of UNIV] by (simp add: midInv_def)
  have mid: "confInv s' \<and> timerInv s' \<and> queue_ok s' \<and> inSync s'"
    using inv static_cong [of s' s, OF stat] inSync_cong [of s' s] stat(3) more by (simp add: midInv_def)
  show ?thesis
  proof (rule okE_mono [OF arbitrateLoop_inv [OF r]], elim conjE)
    fix t assume t: "resInv ({} \<union> set (map fst (resStatusInfo s'))) t" "onlyStatus s' t" "samePrev s' t"
    have "resInv UNIV t" using t(1) onlyStatus_frame(7) [OF t(2)] by (intro resInv_keys) simp
    moreover have f: "wrapFrame s' t" by (rule onlyStatus_wrapFrame [OF t(2)])
    ultimately show "midInv t"
      using mid inSync_samePrev [OF _ f t(3)] wrapFrame_static [OF f] by (simp add: midInv_def)
  qed
qed

lemmas switch_loop_inv = then_send [OF switch_mid]

lemma updatePowerLimitBoostFreqFunc_inv:
  "midInv s \<Longrightarrow> okE wrapInv (updatePowerLimitBoostFreqFunc b s)"
  unfolding updatePowerLimitBoostFreqFunc_def Let_def by (rule switch_loop_inv) simp_all

lemma updateThermalLimitBoostFreqFunc_inv:
  "midInv s \<Longrightarrow> okE wrapInv (updateThermalLimitBoostFreqFunc b s)"
  unfolding updateThermalLimitBoostFreqFunc_def Let_def by (rule switch_loop_inv) simp_all

subsection \<open>Limit requests\<close>

lemma GetResValueByLevel_in:
  assumes "GetResValueByLevel k l s = Some v" and "avail_ok s"
  shows "in_int64 v"
proof -
  obtain n where n: "nodeAt k s = Some n" "rn_available n \<noteq> []" "\<not> l < 0"
    and v: "v = sort (remdups (rn_available n)) !
        (if l < int (length (sort (remdups (rn_available n)))) then
           nat (int (length (sort (remdups (rn_available n)))) - 1 - l) else 0)"
    using assms(1) by (auto simp: GetResValueByLevel_def Let_def split: option.splits if_splits)
  have "0 < length (sort (remdups (rn_available n)))" using n(2) by simp
  then have "v \<in> set (sort (remdups (rn_available n)))" unfolding v using n(3) by (intro nth_mem) auto
  then show ?thesis using assms(2) n(1) by (auto simp: avail_ok_def)
qed

lemma DoFreqAction_mid:
  assumes "midInv s" and "typed_action a" and "0 \<le> ra_type a" and "ra_type a < ACTION_TYPE_MAX"
  shows "okE midInv (DoFreqAction k a s)"
  using assms okE_mono [OF UpdateResActionList_mid [of s "\<lparr>it_resId = k, it_resAction = a\<rparr>" False]]
  by (simp add: DoFreqAction_def typed_item_def)

lemma DoFreqActionLevel_mid:
  assumes "midInv s" and "typed_action a" and "0 \<le> ra_type a" and "ra_type a < ACTION_TYPE_MAX"
  shows "okE midInv (DoFreqActionLevel k a s)"
proof (cases "k - RES_ID_ADDITION \<in> resIds s \<and> GetResValueByLevel (k - RES_ID_ADDITION) (to_int32 (ra_value a)) s \<noteq> None")
  case False
  then show ?thesis using assms by (auto simp: DoFreqActionLevel_def Let_def)
next
  case True
  then obtain v where k: "k - RES_ID_ADDITION \<in> resIds s"
    and v: "GetResValueByLevel (k - RES_ID_ADDITION) (to_int32 (ra_value a)) s = Some v" by blast
  have "avail_ok s" using assms(1) by (simp add: midInv_def confInv_def)
  then have "typed_item \<lparr>it_resId = k - RES_ID_ADDITION, it_resAction = a\<lparr>ra_value := v\<rparr>\<rparr>"
    using assms(2-4) GetResValueByLevel_in [OF v] by (simp add: typed_item_def typed_action_def)
  from UpdateResActionList_mid [OF assms(1) this, of False] k v show ?thesis
    by (auto simp: DoFreqActionLevel_def Let_def intro: okE_mono)
qed

lemma touchStatus_inv:
  assumes "wrapInv s"
  shows "wrapInv (touchStatus k s)"
proof -
  let ?s = "touchStatus k s"
  have fr: "resourceNodeInfo ?s = resourceNodeInfo s" "powerLimitBoost ?s = powerLimitBoost s"
    "thermalLimitBoost ?s = thermalLimitBoost s" "reports ?s = reports s" "reportFunc ?s = reportFunc s"
    "interAction ?s = interAction s" "boostResCnt ?s = boostResCnt s"
    "weakInteractionStatus ?s = weakInteractionStatus s"
    by (simp_all add: touchStatus_def)
  have "distinct (map fst (resStatusInfo ?s)) = distinct (map fst (resStatusInfo s))"
    using assms by (simp add: touchStatus_def wrapInv_def midInv_def resInv_def wf_wrap_def)
  then have "wf_wrap ?s = wf_wrap s" by (simp add: wf_wrap_def wf_nodes_def fr(1))
  moreover have "policy_at j ?s = policy_at j s" for j by (simp add: policy_at_def fr)
  moreover have "values_ok ?s = values_ok s"
    unfolding values_ok_def stm_touchStatus pairOf_cong [OF fr(1)] isMaxRes_cong [OF fr(1)] ..
  ultimately have "resInv UNIV ?s = resInv UNIV s"
    unfolding resInv_def sym_pairs_cong [OF fr(1)] stm_touchStatus by simp
  moreover have "inSync ?s = inSync s" "settled ?s = settled s"
    unfolding inSync_def settled_def stm_touchStatus fr(4) sendable_cong [OF fr(1,5)] by simp_all
  moreover have "confInv ?s = confInv s" "timerInv ?s = timerInv s" "queue_ok ?s = queue_ok s"
    by (rule static_cong; simp add: touchStatus_def)+
  moreover have "weakOnlyIdle ?s = weakOnlyIdle s" by (simp add: weakOnlyIdle_def statuses_def idle_def fr)
  ultimately show ?thesis using assms by (simp add: wrapInv_def midInv_def)
qed

lemma updateLimitStatusFunc_inv:
  assumes "midInv s" and "typed_action a" and "0 \<le> ra_type a" and "ra_type a < ACTION_TYPE_MAX"
  shows "okE wrapInv (updateLimitStatusFunc ev a k s)"
proof -
  have "okE midInv (if ev = INNER_EVENT_ID_DO_FREQ_ACTION then DoFreqAction k a s
            else if ev = INNER_EVENT_ID_DO_FREQ_ACTION_LEVEL then DoFreqActionLevel k a s else Inr s)"
    using DoFreqAction_mid [OF assms] DoFreqActionLevel_mid [OF assms] assms(1) by simp
  then show ?thesis unfolding updateLimitStatusFunc_def bindE_assoc [symmetric]
    by (rule okE_bind [OF then_send]) (simp add: touchStatus_inv)
qed

subsection \<open>Taking an entry from the queue\<close>

lemma pendingOf_dequeue:
  assumes "n < length (pendingOf s)"
  obtains xs ys where "pendingOf s = xs @ pendingOf s ! n # ys" and "pendingOf (dequeue n s) = xs @ ys"
proof
  show "pendingOf s = take n (pendingOf s) @ pendingOf s ! n # drop (Suc n) (pendingOf s)"
    using assms by (simp add: id_take_nth_drop [symmetric])
  show "pendingOf (dequeue n s) = take n (pendingOf s) @ drop (Suc n) (pendingOf s)"
    by (simp add: pendingOf_def dequeue_def take_map drop_map)
qed

lemma dequeue_effect:
  assumes "n < length (pendingOf s)" and "snd (pendingOf s ! n) = t"
  shows "sq.handles_ok s \<Longrightarrow> sq.handles_ok (dequeue n s)"
    and "t \<noteq> TaskWeakInteractionTimer j \<Longrightarrow> timers j (dequeue n s) = timers j s"
    and "t = TaskWeakInteractionTimer j \<Longrightarrow> timers j s = [h] \<Longrightarrow> timers j (dequeue n s) = []"
    and "queue_ok s \<Longrightarrow> queue_ok (dequeue n s) \<and> task_ok s t"
proof -
  obtain xs ys where p: "pendingOf s = xs @ pendingOf s ! n # ys" "pendingOf (dequeue n s) = xs @ ys"
    using assms(1) by (rule pendingOf_dequeue)
  have h: "nextHandle (dequeue n s) = nextHandle s" by (simp add: dequeue_def)
  show "sq.handles_ok s \<Longrightarrow> sq.handles_ok (dequeue n s)"
    unfolding sq.handles_ok_def h p(2) by (subst (asm) (1 2) p(1)) auto
  show "t \<noteq> TaskWeakInteractionTimer j \<Longrightarrow> timers j (dequeue n s) = timers j s"
    unfolding timers_def sq.tasks_of_def p(2) by (subst p(1)) (simp add: assms(2))
  show "t = TaskWeakInteractionTimer j \<Longrightarrow> timers j s = [h] \<Longrightarrow> timers j (dequeue n s) = []"
    unfolding timers_def sq.tasks_of_def p(2) by (subst (asm) p(1)) (simp add: assms(2) append_eq_Cons_conv)
  have ok: "task_ok (dequeue n s) = task_ok s" by (rule ext, rule task_ok_cong) (simp_all add: dequeue_def)
  show "queue_ok s \<Longrightarrow> queue_ok (dequeue n s) \<and> task_ok s t"
    unfolding queue_ok_def p(2) ok by (subst (asm) p(1)) (simp add: assms(2))
qed

lemma dequeue_sel [simp]:
  "resourceNodeInfo (dequeue n s) = resourceNodeInfo s" "resStatusInfo (dequeue n s) = resStatusInfo s"
  "powerLimitBoost (dequeue n s) = powerLimitBoost s" "thermalLimitBoost (dequeue n s) = thermalLimitBoost s"
  "interAction (dequeue n s) = interAction s" "reports (dequeue n s) = reports s"
  "reportFunc (dequeue n s) = reportFunc s" "boostResCnt (dequeue n s) = boostResCnt s"
  "weakInteractionStatus (dequeue n s) = weakInteractionStatus s" "nextHandle (dequeue n s) = nextHandle s"
  "configPerfActionsInfo (dequeue n s) = configPerfActionsInfo s"
  by (simp_all add: dequeue_def)

lemma dequeue_other_inv:
  assumes "resInv UNIV s" and "inSync s" and "confInv s"
  shows "resInv UNIV (dequeue n s)" and "inSync (dequeue n s)" and "confInv (dequeue n s)"
    and "settled (dequeue n s) = settled s" and "weakOnlyIdle (dequeue n s) = weakOnlyIdle s"
  using assms resInv_cong [of "dequeue n s" s UNIV] inSync_cong [of "dequeue n s" s]
    avail_ok_cong [of "dequeue n s" s]
  by (simp_all add: confInv_def typed_config_def actionsAt_cong [of "dequeue n s" s] inter_ok_def
      weakOnlyIdle_def statuses_def idle_def)

lemma dequeue_inv:
  assumes inv: "wrapInv s" and n: "n < length (pendingOf s)" and t: "snd (pendingOf s ! n) = t"
    and no: "\<And>j. t \<noteq> TaskWeakInteractionTimer j"
  shows "wrapInv (dequeue n s)" and "task_ok (dequeue n s) t"
proof -
  note de = dequeue_effect [OF n t]
  have i: "timerInv s" "queue_ok s" using inv by (simp_all add: wrapInv_def midInv_def)
  have "timerInv (dequeue n s)"
    unfolding timerInv_def de(2) [OF no] using i(1) de(1) by (simp add: timerInv_def)
  then show "wrapInv (dequeue n s)"
    using inv de(4) dequeue_other_inv [of s n] by (simp add: wrapInv_def midInv_def)
  show "task_ok (dequeue n s) t"
    using de(4) [OF i(2)] task_ok_cong [of "dequeue n s" s t] by simp
qed

subsection \<open>The weak-interaction timer\<close>

text \<open>
  When the timer of an entry is taken from the queue the entry is still in \<open>BOOST_END_STATUS\<close>; the
  closure puts it in the weak state and submits the pack that switches the weak interaction on.
\<close>

lemma timer_inv:
  assumes inv: "wrapInv s" and n: "n < length (pendingOf s)"
    and t: "snd (pendingOf s ! n) = TaskWeakInteractionTimer i"
  shows "okE wrapInv (weakInteractionTimer i (dequeue n s))"
proof -
  note de = dequeue_effect [OF n t]
  have ti: "timerInv s" and q: "queue_ok s" and others: "resInv UNIV s" "inSync s" "confInv s"
    using inv by (simp_all add: wrapInv_def midInv_def)
  have i: "i < length (interAction s)" using de(4) [OF q] by simp
  have "timers i s \<noteq> []"
    using n t nth_mem [OF n] by (fastforce simp: timers_def sq.tasks_of_def filter_empty_conv)
  then obtain h where h: "timers i s = [h]" "ia_status (interAction s ! i) = BOOST_END_STATUS"
    using timerInvD(2) [OF ti i] by (auto simp: timer_ok_def split: if_splits)
  have idle: "idle s"
    using inv h(2) i by (auto simp: wrapInv_def weakOnlyIdle_def statuses_def)
  let ?ia = "(interAction s ! i)\<lparr>ia_status := WEAK_INTERACTION_STATUS\<rparr>"
  let ?s1 = "setInterAction i ?ia (dequeue n s)"
  let ?s2 = "weakInteractionOf ?ia EVENT_ON ?s1"
  have eq: "weakInteractionTimer i (dequeue n s) = Inr ?s2"
    using i by (simp add: weakInteractionTimer_def Let_def)
  have ia2: "interAction ?s2 = (interAction s)[i := ?ia]" by (simp add: weakInteractionOf_frame(2))
  have conf: "typed_config (dequeue n s)" using dequeue_other_inv(3) [OF others, of n] by (simp add: confInv_def)
  then have c1: "typed_config ?s1" by simp
  note wt = weakInteractionOf_timers [OF c1, where ia = ?ia and onOff = EVENT_ON]
  have wf: "weakFrame (dequeue n s) ?s2"
    by (rule weakFrame_trans [OF weakFrame_setInterAction weakInteractionOf_frame(1)])
  note fr = weakFrame_frame [OF wf]
  have same: "list_all2 sameInter (interAction (dequeue n s)) (interAction ?s2)"
  proof (unfold ia2 dequeue_sel, rule list_all2_all_nthI)
    fix j assume "j < length (interAction s)"
    then show "sameInter (interAction s ! j) ((interAction s)[i := ?ia] ! j)"
      by (cases "j = i") (simp_all add: sameInter_def)
  qed simp
  have "confInv ?s2" by (rule confInv_weakFrame [OF wf same dequeue_other_inv(3) [OF others]])
  moreover have "timerInv ?s2"
  proof (rule timerInv_step [OF ti _ ia2])
    show "sq.handles_ok ?s2" using timerInvD(1) [OF ti] de(1) by (intro wt(2)) simp
    show "timer_ok ?ia (timers i ?s2)" using de(3) [OF _ h(1)] by (simp add: wt(1) timer_ok_def)
  next
    fix j assume "j \<noteq> i \<or> \<not> i < length (interAction s)"
    then show "timers j ?s2 = timers j s" using i de(2) by (simp add: wt(1))
  qed
  moreover have "queue_ok ?s2"
  proof -
    have q1: "queue_ok (dequeue n s)" and io: "inter_ok s" using de(4) [OF q] others(3) by (simp_all add: confInv_def)
    from c1 show ?thesis
    proof (cases rule: weakInteractionOf_pending [of ?s1 ?ia EVENT_ON])
      case none
      then show ?thesis
        by (intro queue_ok_mono [OF q1, where new = "{}"]) (simp_all add: fr ia2)
    next
      case (pack items)
      have "0 \<le> ia_actionType ?ia \<and> ia_actionType ?ia < ACTION_TYPE_MAX"
        using io i by (simp add: inter_ok_def)
      with pack(2) have "\<forall>it\<in>set items. typed_item it" by (auto simp: weak_item_def typed_item_def)
      with pack(3) show ?thesis
        by (intro queue_ok_mono [OF q1, where new = "{(nextHandle s, TaskDoFreqActionPack items)}"])
          (simp_all add: fr ia2)
    qed
  qed
  moreover have "resInv UNIV ?s2" "inSync ?s2" "settled ?s2"
    using inv dequeue_other_inv [OF others, of n] resInv_cong [of ?s2 "dequeue n s" UNIV] inSync_cong [of ?s2 "dequeue n s"]
    by (simp_all add: fr wrapInv_def)
  moreover have "weakOnlyIdle ?s2"
    unfolding weakOnlyIdle_def idle_def fr using idle by (simp add: idle_def)
  ultimately show ?thesis by (simp add: eq wrapInv_def midInv_def)
qed

subsection \<open>Every closure\<close>

text \<open>
  \<open>task_ok\<close> excludes \<open>TaskInitResourceNodeInfo\<close>: it runs once, before the invariant holds (theory
  \<open>Startup\<close>).
\<close>

lemma wrapInv_flags:
  assumes "wrapInv s"
  shows "wrapInv (s\<lparr>performanceModeStatus := b\<rparr>)"
  using assms resInv_cong [of "s\<lparr>performanceModeStatus := b\<rparr>" s UNIV]
    inSync_cong [of "s\<lparr>performanceModeStatus := b\<rparr>" s] static_cong [of "s\<lparr>performanceModeStatus := b\<rparr>" s]
  by (simp add: wrapInv_def midInv_def weakOnlyIdle_def statuses_def idle_def)

lemma weakInteractionFunc_inv:
  assumes "wrapInv s"
  shows "wrapInv (weakInteractionFunc b s)"
proof -
  let ?t = "s\<lparr>weakInteractionStatus := b\<rparr>" and ?u = "weakInteractionFunc b s"
  have st: "confInv ?t" "timerInv ?t" "queue_ok ?t"
    using assms static_cong [of ?t s] by (simp_all add: wrapInv_def midInv_def)
  then have c: "typed_config ?t" and io: "inter_ok ?t" by (simp_all add: confInv_def)
  note wi = WeakInteraction_statuses [OF st(2) c, folded weakInteractionFunc_def]
  note fr = weakFrame_frame [OF wi(2)]
  have "resInv UNIV ?u" "inSync ?u" "settled ?u"
    using assms resInv_cong [of ?u s UNIV] inSync_cong [of ?u s] by (simp_all add: fr wrapInv_def midInv_def)
  moreover have "weakOnlyIdle ?u"
    by (auto simp: weakOnlyIdle_def wi(1) idle_def fr nextStatus_def)
  ultimately show ?thesis
    using wi(3) wi(5) [OF st(3) io] confInv_weakFrame [OF wi(2,4) st(1)] by (simp add: wrapInv_def midInv_def)
qed

lemma execTask_inv:
  assumes inv: "wrapInv s" and ok: "task_ok s t"
    and no: "\<And>j. t \<noteq> TaskWeakInteractionTimer j"
  shows "okE wrapInv (execTask t s)"
proof (cases t)
  case (TaskDoFreqActionPack items)
  then show ?thesis using ok doFreqActionPackFunc_inv [OF wrapInv_mid [OF inv]] by simp
next
  case (TaskPowerLimitBoost b)
  then show ?thesis using updatePowerLimitBoostFreqFunc_inv [OF wrapInv_mid [OF inv]] by simp
next
  case (TaskThermalLimitBoost b)
  then show ?thesis using updateThermalLimitBoostFreqFunc_inv [OF wrapInv_mid [OF inv]] by simp
next
  case (TaskUpdateLimitStatus ev a k)
  then show ?thesis using ok updateLimitStatusFunc_inv [OF wrapInv_mid [OF inv]] by simp
next
  case TaskClearAllAliveRequest
  then show ?thesis using clearAllAliveRequestFunc_inv [OF wrapInv_mid [OF inv]] by simp
next
  case (TaskPerformanceMode b)
  then show ?thesis using wrapInv_flags [OF inv] by simp
next
  case (TaskWeakInteractionStatus b)
  then show ?thesis using weakInteractionFunc_inv [OF inv] by simp
next
  case (TaskPostDelay items)
  then show ?thesis using ok postDelayTaskFunc_inv [OF wrapInv_mid [OF inv]] by simp
next
  case TaskStatistics
  then show ?thesis using inv by simp
qed (use no ok in auto)

lemma runEntry_inv:
  assumes inv: "wrapInv s" and n: "n < length (socperfQueue s)"
  shows "okE wrapInv (runEntry n s)"
proof -
  have n': "n < length (pendingOf s)" using n by (simp add: pendingOf_def)
  have t: "snd (pendingOf s ! n) = qe_task (socperfQueue s ! n)"
    using n by (simp add: pendingOf_def entryOf_def)
  show ?thesis
  proof (cases "\<exists>i. qe_task (socperfQueue s ! n) = TaskWeakInteractionTimer i")
    case True
    then show ?thesis using timer_inv [OF inv n'] t by (auto simp: runEntry_def)
  next
    case False
    then show ?thesis unfolding runEntry_def
      by (intro execTask_inv dequeue_inv [OF inv n' t]) blast+
  qed
qed

lemma submit_inv:
  assumes "wrapInv s" and "task_ok s t" and "\<And>j. t \<noteq> TaskWeakInteractionTimer j"
  shows "wrapInv (submit d t s)"
proof -
  have q: "queue_ok s" and ti: "timerInv s" using assms(1) by (simp_all add: wrapInv_def midInv_def)
  let ?s = "submit d t s"
  have fr: "resourceNodeInfo ?s = resourceNodeInfo s" "interAction ?s = interAction s"
    "configPerfActionsInfo ?s = configPerfActionsInfo s" "resStatusInfo ?s = resStatusInfo s"
    "powerLimitBoost ?s = powerLimitBoost s" "thermalLimitBoost ?s = thermalLimitBoost s"
    "reports ?s = reports s" "reportFunc ?s = reportFunc s" "boostResCnt ?s = boostResCnt s"
    "weakInteractionStatus ?s = weakInteractionStatus s"
    by (simp_all add: submit_def submit_h_def)
  have "queue_ok ?s"
    by (rule queue_ok_mono [OF q, where new = "{(nextHandle s, t)}"])
      (simp_all add: fr assms(2), simp add: submit_def sq.enq_pending)
  moreover have "timers j ?s = timers j s" for j
    using assms(3) by (simp add: timers_def submit_def sq.tasks_of_enq)
  then have "timerInv ?s"
    using ti by (simp add: timerInv_def fr submit_def sq.handles_ok_enq)
  moreover have "confInv ?s"
    using assms(1) avail_ok_cong [OF fr(1)]
    by (simp add: wrapInv_def midInv_def confInv_def typed_config_def actionsAt_cong [OF fr(3)] inter_ok_def fr(2))
  moreover have "resInv UNIV ?s" "inSync ?s" "settled ?s"
    using assms(1) resInv_cong [of ?s s UNIV] inSync_cong [of ?s s] by (simp_all add: fr wrapInv_def midInv_def)
  moreover have "weakOnlyIdle ?s"
    using assms(1) by (simp add: wrapInv_def weakOnlyIdle_def statuses_def idle_def fr)
  ultimately show ?thesis by (simp add: wrapInv_def midInv_def)
qed

end
