(* ===== verification/Startup.thy ===== *)
theory Startup
  imports TaskInvariant
begin

text \<open>
  The first closure, submitted by \<open>InitResourceNodeInfo\<close>: from the state the loader leaves
  (\<open>startInv\<close>: no resource status yet) it establishes \<open>wrapInv\<close>.
\<close>

definition startInv :: "'a SocPerfThreadWrap_scheme \<Rightarrow> bool" where
  "startInv s \<longleftrightarrow> confInv s \<and> wf_nodes s \<and> timerInv s \<and> queue_ok s \<and> resStatusInfo s = []
     \<and> (\<forall>st\<in>set (statuses s). st = BOOST_STATUS)"

subsection \<open>The statuses inserted\<close>

lemma initLoop_eq:
  assumes "\<forall>(k, p)\<in>set xs. \<exists>n. p = Some n \<and> rn_id n = k" and "resStatusInfo s = m0"
  shows "\<exists>m. fold initResStatusEntry xs s = s\<lparr>resStatusInfo := m\<rparr>
      \<and> (distinct (map fst m0) \<longrightarrow> distinct (map fst m))
      \<and> map_of m = (\<lambda>k. if k \<in> fst ` set xs \<and> map_of m0 k = None
           then Some (Some new_ResStatus) else map_of m0 k)"
  using assms
proof (induction xs arbitrary: s m0)
  case Nil
  then show ?case by (intro exI [of _ "resStatusInfo s"]) simp
next
  case (Cons x xs)
  obtain k n where x: "x = (k, Some n)" "rn_id n = k" using Cons.prems(1) by (cases x) force
  define m1 where "m1 = (if map_of m0 k = None then AList.update k (Some new_ResStatus) m0 else m0)"
  have step: "initResStatusEntry x s = s\<lparr>resStatusInfo := m1\<rparr>"
    using Cons.prems(2) by (auto simp: initResStatusEntry_def x m1_def)
  have xs: "\<forall>(k, p)\<in>set xs. \<exists>n. p = Some n \<and> rn_id n = k" using Cons.prems(1) by simp
  have s1: "resStatusInfo (s\<lparr>resStatusInfo := m1\<rparr>) = m1" by simp
  obtain m where m: "fold initResStatusEntry xs (s\<lparr>resStatusInfo := m1\<rparr>) = s\<lparr>resStatusInfo := m1\<rparr>\<lparr>resStatusInfo := m\<rparr>"
    "distinct (map fst m1) \<longrightarrow> distinct (map fst m)"
    "map_of m = (\<lambda>k. if k \<in> fst ` set xs \<and> map_of m1 k = None
           then Some (Some new_ResStatus) else map_of m1 k)"
    using Cons.IH [OF xs s1] by blast
  have d: "distinct (map fst m0) \<Longrightarrow> distinct (map fst m1)"
    by (simp add: m1_def distinct_update)
  have m1: "map_of m1 = (\<lambda>j. if j = k \<and> map_of m0 j = None
      then Some (Some new_ResStatus) else map_of m0 j)"
    by (auto simp: m1_def update_conv' fun_eq_iff)
  have "map_of m = (\<lambda>j. if j \<in> fst ` set (x # xs) \<and> map_of m0 j = None
           then Some (Some new_ResStatus) else map_of m0 j)"
    by (auto simp: m(3) m1 x fun_eq_iff)
  with m d step show ?case by (intro exI [of _ m]) simp
qed

lemma startInv_nodes:
  "wf_nodes s \<Longrightarrow> \<forall>(k, p)\<in>set (resourceNodeInfo s). \<exists>n. p = Some n \<and> rn_id n = k"
  by (fastforce simp: wf_nodes_def wf_node_def)

text \<open>A resource without actions is in order.\<close>

lemma new_status_ok:
  "wf_status new_ResStatus" "typed_status new_ResStatus" "cand_ok new_ResStatus" "noCandidate new_ResStatus"
proof -
  have five: "t = 0 \<or> t = 1 \<or> t = 2 \<or> t = 3 \<or> t = 4" if "0 \<le> t" "t < (5::int)" for t
    using that by presburger
  show "wf_status new_ResStatus" by (simp add: wf_status_def new_ResStatus_def)
  have a: "actionsOf t new_ResStatus = []" if "0 \<le> t" "t < ACTION_TYPE_MAX" for t
    using five [OF that] by (auto simp: actionsOf_def new_ResStatus_def)
  then show "typed_status new_ResStatus" by (auto simp: typed_status_def)
  have "candVal t new_ResStatus = INVALID_VALUE \<and> candEnd t new_ResStatus = MAX_INT_VALUE"
    if "0 \<le> t" "t < ACTION_TYPE_BATTERY" for t
    using five [of t] that by (auto simp: candVal_def candEnd_def new_ResStatus_def)
  then show "cand_ok new_ResStatus" using a by (simp add: cand_ok_def candidateSpec_def)
  show "noCandidate new_ResStatus" by (simp add: noCandidate_def candVal_def new_ResStatus_def)
qed

subsection \<open>The first report\<close>

definition initSend :: "bool \<Rightarrow> 'a SocPerfThreadWrap_scheme \<Rightarrow> int \<Rightarrow> (int \<times> int \<times> int) list" where
  "initSend perfSo s k = (case nodeAt k s of None \<Rightarrow> [] | Some n \<Rightarrow>
     if (rn_persistMode n = REPORT_TO_PERFSO) = perfSo then [(k, NODE_DEFAULT_VALUE, MAX_INT_VALUE)] else [])"

lemma initResEntry_fold:
  "fold (initResEntry s) ks (po, re) =
     (po @ concat (map (initSend True s) ks), re @ concat (map (initSend False s) ks))"
proof (induction ks arbitrary: po re)
  case Nil
  show ?case by simp
next
  case (Cons k ks)
  have "initResEntry s k (po, re) = (po @ initSend True s k, re @ initSend False s k)"
    by (auto simp: initResEntry_def initSend_def nodeAt_def ptrAt_def split: option.split)
  then show ?case using Cons.IH by simp
qed

lemma InitResStatus_eq:
  "InitResStatus s = sendAll (concat (map (initSend True s) (map fst (resStatusInfo s))))
     (concat (map (initSend False s) (map fst (resStatusInfo s)))) s"
  unfolding InitResStatus_def initResEntry_fold by (simp add: sendAll_def)

lemma initSend_keys: "fst ` set (initSend b s j) \<subseteq> {j}"
  by (auto simp: initSend_def split: option.splits)

lemma initResourceNodeInfoFunc_inv:
  assumes start: "startInv s"
  shows "wrapInv (initResourceNodeInfoFunc s)"
    and "stm (initResourceNodeInfoFunc s) = (\<lambda>k. if k \<in> resIds s then Some new_ResStatus else None)"
proof -
  have wfn: "wf_nodes s" and nil: "resStatusInfo s = []" using start by (simp_all add: startInv_def)
  let ?t = "fold initResStatusEntry (resourceNodeInfo s) s"
  note ex = initLoop_eq [OF startInv_nodes [OF wfn] nil]
  let ?e = "[] :: (int \<times> ResStatus option) list"
  obtain m where t: "?t = s\<lparr>resStatusInfo := m\<rparr>"
    and d': "distinct (map fst ?e) \<longrightarrow> distinct (map fst m)"
    and m': "map_of m = (\<lambda>k. if k \<in> resIds s \<and> map_of ?e k = None
           then Some (Some new_ResStatus) else map_of ?e k)"
    using ex by (elim exE conjE) (rule that)
  have d: "distinct (map fst m)" using d' by simp
  have m: "map_of m = (\<lambda>k. if k \<in> resIds s then Some (Some new_ResStatus) else None)"
    by (auto simp: m' fun_eq_iff)
  let ?po = "concat (map (initSend True ?t) (map fst m))"
  let ?re = "concat (map (initSend False ?t) (map fst m))"
  let ?u = "initResourceNodeInfoFunc s"
  have ueq: "?u = sendAll ?po ?re ?t" by (simp add: initResourceNodeInfoFunc_def InitResStatus_eq t)
  obtain r where u: "?u = s\<lparr>resStatusInfo := m, reports := r\<rparr>"
    using sendAll_eq [of ?po ?re ?t] unfolding ueq t by auto
  have fr: "resourceNodeInfo ?u = resourceNodeInfo s" by (simp add: u)
  show stm: "stm ?u = (\<lambda>k. if k \<in> resIds s then Some new_ResStatus else None)"
    by (rule ext) (simp add: stm_def u ptrAt_def m)
  have wf: "wf_wrap ?u"
    using wfn d new_status_ok(1) by (simp add: wf_wrap_def stm) (simp add: u wf_nodes_def)
  have cand: "rs_candidate new_ResStatus = NODE_DEFAULT_VALUE" "rs_currentValue new_ResStatus = NODE_DEFAULT_VALUE"
    "rs_currentEndTime new_ResStatus = MAX_INT_VALUE" "rs_previousValue new_ResStatus = NODE_DEFAULT_VALUE"
    "rs_previousEndTime new_ResStatus = MAX_INT_VALUE"
    by (simp_all add: new_ResStatus_def)
  have "policy_at k ?u" for k
    using new_status_ok(4) by (simp add: policy_at_def stm candidateOf_def endTimeOf_def cand)
  moreover have "values_ok ?u"
    using pairOf_resIds(2) [OF wfn] unfolding values_ok_def stm pairOf_cong [OF fr]
    by (auto simp: cand split: option.split)
  ultimately have "resInv UNIV ?u"
    using wf new_status_ok(2,3) by (simp add: resInv_def stm)
  moreover have "settled ?u" by (simp add: settled_def stm cand)
  moreover have "inSync ?u" unfolding inSync_def
  proof (intro allI impI, elim conjE)
    fix k st assume k: "stm ?u k = Some st" and send: "sendable ?u k"
    have st: "k \<in> resIds s" "st = new_ResStatus" using k by (auto simp: stm split: if_splits)
    have km: "k \<in> set (map fst m)" using stm_keys [of ?u k] k by (simp add: u)
    have send': "sendable ?t k" using send sendable_cong [of ?u ?t k] by (simp add: u t)
    then obtain n where n: "nodeAt k ?t = Some n" by (auto simp: sendable_def split: option.splits)
    show "lastSent (reports ?u) k = Some (rs_previousValue st)"
      unfolding ueq lastSent_sendAll [where g = "\<lambda>b. initSend b ?t", OF d initSend_keys] if_P [OF km]
      using send' n st by (auto simp: initSend_def idValue_def sendable_def cand)
  qed
  moreover have "confInv ?u" "timerInv ?u" "queue_ok ?u"
    using start static_cong [of ?u s] by (simp_all add: startInv_def u)
  moreover have "weakOnlyIdle ?u" using start by (simp add: weakOnlyIdle_def statuses_def u startInv_def)
  ultimately show "wrapInv ?u" by (simp add: wrapInv_def midInv_def)
qed

text \<open>Nothing else changes.\<close>

lemma initResourceNodeInfoFunc_frame:
  assumes "wf_nodes s" and "resStatusInfo s = []"
  obtains m r where "initResourceNodeInfoFunc s = s\<lparr>resStatusInfo := m, reports := r\<rparr>"
proof -
  obtain m where "fold initResStatusEntry (resourceNodeInfo s) s = s\<lparr>resStatusInfo := m\<rparr>"
    using initLoop_eq [OF startInv_nodes [OF assms(1)] assms(2)] by blast
  then show thesis
    using that sendAll_eq unfolding initResourceNodeInfoFunc_def InitResStatus_eq by metis
qed

end
