(* ===== verification/ConfigFrame.thy ===== *)
theory ConfigFrame
  imports Startup
begin

text \<open>
  What the closures of the serial queue leave of the configuration. \<open>cfgOf\<close> is the part of the state
  that the requests of \<open>SocPerf\<close> read and the closures must not change: the actions of the commands,
  the commands of the interactions, the resource nodes, the report function and the members of
  \<open>SocPerf\<close> itself. No closure changes it,
  provided every command of an interaction is configured; otherwise \<open>WeakInteraction\<close> inserts null
  pointers.
\<close>

definition cfgOf :: "'a SocPerfThreadWrap_scheme
  \<Rightarrow> (string \<times> (int \<times> Actions option) list) list \<times> int list
    \<times> (int \<Rightarrow> ResourceNode option) \<times> string option \<times> 'a" where
  "cfgOf s = (configPerfActionsInfo s, map ia_cmdId (interAction s), ptrAt (resourceNodeInfo s),
     reportFunc s, SocPerfThreadWrap.more s)"

abbreviation sameCfg :: "'a SocPerfThreadWrap_scheme \<Rightarrow> error + 'a SocPerfThreadWrap_scheme \<Rightarrow> bool" where
  "sameCfg s \<equiv> retE (\<lambda>s'. cfgOf s' = cfgOf s)"

text \<open>The commands of the interactions are configured, also the one of the performance mode.\<close>

definition inter_configured :: "'a SocPerfConfig_scheme \<Rightarrow> bool" where
  "inter_configured s \<longleftrightarrow> (\<forall>k\<in>set (map ia_cmdId (interAction s)).
     map_of (modeActions DEFAULT_CONFIG_MODE s) k \<noteq> None
     \<and> (k = PERF_REQUEST_CMD_ID_WEAK_INTERACTION \<longrightarrow>
        map_of (modeActions DEFAULT_CONFIG_MODE s)
          PERF_REQUEST_CMD_ID_WEAK_INTERACTION_PERFORMANCE_MODE \<noteq> None))"

lemma inter_configured_cong:
  assumes "cfgOf s' = cfgOf s"
  shows "inter_configured s' = inter_configured s"
proof -
  have "map ia_cmdId (interAction s') = map ia_cmdId (interAction s)"
    "modeActions DEFAULT_CONFIG_MODE s' = modeActions DEFAULT_CONFIG_MODE s"
    using assms by (simp_all add: modeActions_def cfgOf_def)
  then show ?thesis unfolding inter_configured_def by simp
qed

subsection \<open>Operations on the resources\<close>

named_theorems cfg_simps \<open>operations that do not change \<open>cfgOf\<close>\<close>

lemma cfg_basic [cfg_simps]:
  "cfgOf (setStatus k st s) = cfgOf s" "cfgOf (touchStatus k s) = cfgOf s" "cfgOf (touchNode k s) = cfgOf s"
  "cfgOf (addBoostResCnt d s) = cfgOf s" "cfgOf (s\<lparr>nextRef := r\<rparr>) = cfgOf s"
  "cfgOf (submit d t s) = cfgOf s" "cfgOf (snd (submit_h d t s)) = cfgOf s" "cfgOf (cancel h s) = cfgOf s"
  "cfgOf (ReportToPerfSo xs s) = cfgOf s" "cfgOf (ReportToRssExe xs s) = cfgOf s"
  "cfgOf (dequeue n s) = cfgOf s" "cfgOf (s\<lparr>powerLimitBoost := b\<rparr>) = cfgOf s"
  "cfgOf (s\<lparr>thermalLimitBoost := b\<rparr>) = cfgOf s" "cfgOf (s\<lparr>weakInteractionStatus := b\<rparr>) = cfgOf s"
  "cfgOf (s\<lparr>performanceModeStatus := b\<rparr>) = cfgOf s"
  by (simp_all add: cfgOf_def setStatus_def touchStatus_def touchNode_def addBoostResCnt_def submit_def
      submit_h_def cancel_def ReportToPerfSo_def ReportToRssExe_def dequeue_def)

lemma cfg_UpdateCurrentValue [cfg_simps]: "cfgOf (UpdateCurrentValue k v s) = cfgOf s"
  by (simp add: UpdateCurrentValue_def Let_def cfg_simps split: option.split)

lemma cfg_UpdatePairResValue [cfg_simps]: "cfgOf (UpdatePairResValue j v k w s) = cfgOf s"
  by (simp add: UpdatePairResValue_def cfg_simps)

lemma sameCfg_bind:
  assumes "sameCfg s m" and "\<And>t. cfgOf t = cfgOf s \<Longrightarrow> sameCfg s (f t)"
  shows "sameCfg s (bindE m f)"
  using assms by (rule retE_bind)

lemma sameCfg_trans: "cfgOf t = cfgOf s \<Longrightarrow> sameCfg t m \<Longrightarrow> sameCfg s m"
  by (simp add: retE_iff)

lemma cfg_ArbitratePairRes: "sameCfg s (ArbitratePairRes k l s)"
  unfolding ArbitratePairRes_def Let_def by (auto simp: cfg_simps intro!: retE_skip split: option.split)

lemma cfg_ExistNoCandidate: "retE (\<lambda>(b, s'). cfgOf s' = cfgOf s) (ExistNoCandidate k st s)"
  unfolding ExistNoCandidate_def Let_def
  by (auto intro!: retE_bind [where Q = "\<lambda>t. cfgOf t = cfgOf s"] sameCfg_trans [OF _ cfg_ArbitratePairRes]
      simp: cfg_simps)

lemma cfg_ProcessLimitCase: "sameCfg s (ProcessLimitCase k s)"
  unfolding ProcessLimitCase_def Let_def by (auto simp: cfg_simps intro!: retE_skip)

lemma cfg_pairIdOf: "retE (\<lambda>(p, s'). cfgOf s' = cfgOf s) (pairIdOf k s)"
  unfolding pairIdOf_def Let_def by (auto simp: cfg_simps intro!: retE_skip)

lemma cfg_noPerfLvl [cfg_simps]: "cfgOf (snd (noPerfLvl p st s)) = cfgOf s"
  by (simp add: noPerfLvl_def Let_def cfg_simps split: option.split)

lemma cfg_perfLvlLimit: "retE (\<lambda>(b, s'). cfgOf s' = cfgOf s) (perfLvlLimit k p s)"
  unfolding perfLvlLimit_def Let_def by (auto simp: cfg_simps intro!: retE_skip)

lemma cfg_ArbitratePairResInPerfLvl: "retE (\<lambda>(b, s'). cfgOf s' = cfgOf s) (ArbitratePairResInPerfLvl k s)"
proof -
  have lim: "retE (\<lambda>(b, s'). cfgOf s' = cfgOf s)
      (bindE (perfLvlLimit k p t) (\<lambda>(l, t). bindE (ArbitratePairRes k l t) (\<lambda>t. Inr (True, t))))"
    if "cfgOf t = cfgOf s" for p and t :: "'a SocPerfThreadWrap_scheme"
  proof (rule retE_bind [where Q = "\<lambda>(b, t). cfgOf t = cfgOf s"])
    show "retE (\<lambda>(b, t). cfgOf t = cfgOf s) (perfLvlLimit k p t)" using cfg_perfLvlLimit [of t] that by simp
    show "retE (\<lambda>(b, s'). cfgOf s' = cfgOf s) (case x of (l, t) \<Rightarrow> bindE (ArbitratePairRes k l t) (\<lambda>t. Inr (True, t)))"
      if "case x of (b, t) \<Rightarrow> cfgOf t = cfgOf s" for x
      using that by (auto split: prod.split intro!: retE_bind [OF sameCfg_trans [OF _ cfg_ArbitratePairRes]])
  qed
  show ?thesis
    unfolding ArbitratePairResInPerfLvl_def Let_def
  proof (rule retE_bind [where Q = "\<lambda>(p, t). cfgOf t = cfgOf s"])
    show "retE (\<lambda>(p, t). cfgOf t = cfgOf s) (pairIdOf k (touchStatus k s))"
      using cfg_pairIdOf [of "touchStatus k s"] by (simp add: cfg_simps)
  next
    fix x :: "int \<times> 'a SocPerfThreadWrap_scheme"
    assume x: "case x of (p, t) \<Rightarrow> cfgOf t = cfgOf s"
    obtain p t where xp: "x = (p, t)" by (cases x)
    have no: "cfgOf u = cfgOf s" if "noPerfLvl p st t = (b, u)" for st b and u :: "'a SocPerfThreadWrap_scheme"
      using cfg_noPerfLvl [of p st t] x xp that by simp
    show "retE (\<lambda>(b, s'). cfgOf s' = cfgOf s) (case x of (p, t) \<Rightarrow>
        bindE (derefE (statusAt k t)) (\<lambda>st. case noPerfLvl p st t of (none, t) \<Rightarrow>
          if none then Inr (False, t)
          else bindE (perfLvlLimit k p (if candVal ACTION_TYPE_PERFLVL st \<noteq> INVALID_VALUE
              then setStatus k (st\<lparr>rs_candidate := (if wrapThermalLvl t = 0 \<and> rs_candidate st \<noteq> INVALID_VALUE
                   then Min64 (rs_candidate st) (candVal ACTION_TYPE_PERFLVL st) else candVal ACTION_TYPE_PERFLVL st)\<rparr>) t
              else t)) (\<lambda>(l, t). bindE (ArbitratePairRes k l t) (\<lambda>t. Inr (True, t)))))"
      unfolding xp by (auto intro!: retE_skip lim simp: no cfg_simps split: prod.split)
  qed
qed

lemma cfg_ArbitrateCandidate: "sameCfg s (ArbitrateCandidate k s)"
  unfolding ArbitrateCandidate_def Let_def
proof (rule retE_skip)
  fix st :: ResStatus
  show "sameCfg s (bindE (ExistNoCandidate k st (touchStatus k s)) (\<lambda>(none, s). if none then Inr s
      else bindE (ProcessLimitCase k s) (\<lambda>s. bindE (ArbitratePairResInPerfLvl k s)
        (\<lambda>(handled, s). if handled then Inr s else ArbitratePairRes k False s))))"
  proof (rule retE_bind [where Q = "\<lambda>(b, t). cfgOf t = cfgOf s"])
    show "retE (\<lambda>(b, t). cfgOf t = cfgOf s) (ExistNoCandidate k st (touchStatus k s))"
      using cfg_ExistNoCandidate [of "touchStatus k s"] by (simp add: cfg_simps)
  next
    have rest: "sameCfg s (bindE (ProcessLimitCase k t) (\<lambda>s. bindE (ArbitratePairResInPerfLvl k s)
        (\<lambda>(handled, s). if handled then Inr s else ArbitratePairRes k False s)))"
      if t: "cfgOf t = cfgOf s" for t :: "'a SocPerfThreadWrap_scheme"
    proof (rule sameCfg_bind [OF sameCfg_trans [OF t cfg_ProcessLimitCase]])
      fix u :: "'a SocPerfThreadWrap_scheme"
      assume u: "cfgOf u = cfgOf s"
      show "sameCfg s (bindE (ArbitratePairResInPerfLvl k u)
          (\<lambda>(handled, s). if handled then Inr s else ArbitratePairRes k False s))"
      proof (rule retE_bind [where Q = "\<lambda>(b, t). cfgOf t = cfgOf s"])
        show "retE (\<lambda>(b, t). cfgOf t = cfgOf s) (ArbitratePairResInPerfLvl k u)"
          using cfg_ArbitratePairResInPerfLvl [of u] u by simp
      qed (auto intro: sameCfg_trans [OF _ cfg_ArbitratePairRes])
    qed
    show "sameCfg s (case x of (none, s) \<Rightarrow> if none then Inr s
        else bindE (ProcessLimitCase k s) (\<lambda>s. bindE (ArbitratePairResInPerfLvl k s)
          (\<lambda>(handled, s). if handled then Inr s else ArbitratePairRes k False s)))"
      if "case x of (b, t) \<Rightarrow> cfgOf t = cfgOf s" for x
      using that rest by (auto split: prod.split)
  qed
qed

lemma cfg_UpdateCandidatesValue: "sameCfg s (UpdateCandidatesValue k t s)"
  unfolding UpdateCandidatesValue_def Let_def
  by (auto intro!: retE_skip sameCfg_trans [OF _ cfg_ArbitrateCandidate] simp: cfg_simps)

subsection \<open>Operations on the live actions\<close>

lemma cfg_UpdateCandidatesValue': "cfgOf t = cfgOf s \<Longrightarrow> sameCfg s (UpdateCandidatesValue k ty t)"
  by (rule sameCfg_trans [OF _ cfg_UpdateCandidatesValue])

lemma cfg_UpdateResActionList: "sameCfg s (UpdateResActionList k a d s)"
proof -
  have del: "sameCfg s (UpdateResActionListByDelayedMsg k ty a st t)"
    and hnd: "sameCfg s (HandleResAction k ty a st t)"
    and ins: "sameCfg s (UpdateResActionListByInstantMsg k ty a st t)"
    if "cfgOf t = cfgOf s" for ty st and t :: "'a SocPerfThreadWrap_scheme"
  proof -
    show "sameCfg s (UpdateResActionListByDelayedMsg k ty a st t)"
      unfolding UpdateResActionListByDelayedMsg_def Let_def
      by (auto intro!: retE_skip [of "atE _ _"] sameCfg_bind cfg_UpdateCandidatesValue' simp: cfg_simps that)
    show h: "sameCfg s (HandleResAction k ty a st t)"
      unfolding HandleResAction_def Let_def
      by (auto intro!: retE_skip [of "atE _ _"] sameCfg_bind cfg_UpdateCandidatesValue' simp: cfg_simps that)
    show "sameCfg s (UpdateResActionListByInstantMsg k ty a st t)"
      unfolding UpdateResActionListByInstantMsg_def Let_def
      by (cases "ra_onOff a")
        (auto intro!: h retE_skip [of "atE _ _"] sameCfg_bind cfg_UpdateCandidatesValue' simp: cfg_simps that)
  qed
  show ?thesis
    unfolding UpdateResActionList_def Let_def by (auto intro!: retE_skip del ins simp: cfg_simps)
qed

lemma cfg_foldE:
  assumes "\<And>x t. sameCfg t (op x t)"
  shows "sameCfg s (foldE op xs s)"
  by (rule retE_foldE) (auto intro: sameCfg_trans [OF _ assms])

subsection \<open>The weak interactions\<close>

lemma cfg_DoWeakInteraction [cfg_simps]: "cfgOf (DoWeakInteraction as onOff ty s) = cfgOf s"
  by (simp add: DoWeakInteraction_def DoFreqActionPack_def Let_def cfg_simps split: option.split)

lemma cfg_setInterAction [cfg_simps]:
  "ia_cmdId ia = ia_cmdId (interAction s ! i) \<Longrightarrow> cfgOf (setInterAction i ia s) = cfgOf s"
  unfolding cfgOf_def setInterAction_def
  by (cases "i < length (interAction s)") (simp_all add: map_update list_update_beyond list_update_same_conv)

lemma inter_configuredD:
  assumes "inter_configured s" and "i < length (interAction s)"
  shows "map_of (modeActions DEFAULT_CONFIG_MODE s) (GetModeCmdId (ia_cmdId (interAction s ! i)) s) \<noteq> None"
proof -
  have "ia_cmdId (interAction s ! i) \<in> set (map ia_cmdId (interAction s))" using assms(2) by simp
  then show ?thesis using assms(1) unfolding inter_configured_def GetModeCmdId_def by auto
qed

lemma cfg_weakInteractionOf:
  assumes "map_of (modeActions DEFAULT_CONFIG_MODE s) (GetModeCmdId (ia_cmdId ia) s) \<noteq> None"
  shows "cfgOf (weakInteractionOf ia onOff s) = cfgOf s"
  by (simp add: weakInteractionOf_def Let_def touchActions_id [OF assms] cfg_simps)

lemma GetModeCmdId_setInterAction [simp]: "GetModeCmdId k (setInterAction i ia s) = GetModeCmdId k s"
  by (simp add: GetModeCmdId_def setInterAction_def)

lemma modeActions_setInterAction [simp]: "modeActions m (setInterAction i ia s) = modeActions m s"
  by (simp add: modeActions_def setInterAction_def)

lemma cfg_WeakInteraction_step:
  assumes "inter_configured s" and "i < length (interAction s)"
  shows "cfgOf (WeakInteraction_step i s) = cfgOf s"
proof -
  have sub: "interAction t = interAction s \<Longrightarrow> cfgOf t = cfgOf s \<Longrightarrow> ia_cmdId ia = ia_cmdId (interAction s ! i)
      \<Longrightarrow> cfgOf (setInterAction i ia t) = cfgOf s" for t ia
    using cfg_setInterAction [of ia t i] by simp
  have enq: "submit_h d t s = (h, u) \<Longrightarrow> interAction u = interAction s \<and> cfgOf u = cfgOf s" for d t h u
    using cfg_basic(7) [of d t s] interAction_sel(1) [of d t s] by simp
  show ?thesis
    using inter_configuredD [OF assms] enq
    by (auto simp: WeakInteraction_step_def Let_def cfg_simps
        intro!: sub trans [OF cfg_weakInteractionOf cfg_setInterAction] split: prod.split option.split)
qed

lemma cfg_WeakInteraction:
  fixes s :: "'a SocPerfThreadWrap_scheme"
  assumes "inter_configured s"
  shows "cfgOf (WeakInteraction s) = cfgOf s"
proof -
  have "cfgOf (fold WeakInteraction_step is t) = cfgOf s"
    if "cfgOf t = cfgOf s" and "\<forall>i\<in>set is. i < length (interAction s)" for "is" and t :: "'a SocPerfThreadWrap_scheme"
    using that
  proof (induction "is" arbitrary: t)
    case (Cons i "is")
    have len: "length (interAction t) = length (interAction s)"
      using Cons.prems(1) by (metis cfgOf_def fst_conv length_map snd_conv)
    have "cfgOf (WeakInteraction_step i t) = cfgOf t"
      using Cons.prems(2) inter_configured_cong [OF Cons.prems(1)] assms len
      by (intro cfg_WeakInteraction_step) simp_all
    then show ?case using Cons.prems by (auto intro!: Cons.IH)
  qed simp
  then show ?thesis unfolding WeakInteraction_def by simp
qed

lemma cfg_weakInteractionTimer:
  assumes "inter_configured s"
  shows "sameCfg s (weakInteractionTimer i s)"
proof (cases "i < length (interAction s)")
  case True
  then show ?thesis
    using inter_configuredD [OF assms True]
    by (simp add: weakInteractionTimer_def Let_def cfg_weakInteractionOf cfg_setInterAction)
qed (simp add: weakInteractionTimer_def atE_def)

subsection \<open>The closures\<close>

lemma cfg_sendEntry: "retE (\<lambda>(po, re, t). cfgOf t = cfgOf s) (sendEntry k (po, re, s))"
  unfolding sendEntry_def Let_def by (auto intro!: retE_skip simp: cfg_simps split: option.split)

lemma cfg_SendResStatus:
  fixes s :: "'a SocPerfThreadWrap_scheme"
  assumes "inter_configured s"
  shows "sameCfg s (SendResStatus s)"
  unfolding SendResStatus_def
proof (rule retE_bind [where Q = "\<lambda>(po, re, t). cfgOf t = cfgOf s"])
  show "retE (\<lambda>(po, re, t). cfgOf t = cfgOf s) (foldE sendEntry (map fst (resStatusInfo s)) ([], [], s))"
  proof (rule retE_foldE)
    fix x and acc :: "(int \<times> int \<times> int) list \<times> (int \<times> int \<times> int) list \<times> 'a SocPerfThreadWrap_scheme"
    assume "case acc of (po, re, t) \<Rightarrow> cfgOf t = cfgOf s"
    then show "retE (\<lambda>(po, re, t). cfgOf t = cfgOf s) (sendEntry x acc)"
      using cfg_sendEntry [where s = "snd (snd acc)" and po = "fst acc" and re = "fst (snd acc)"]
      by (auto split: prod.splits)
  qed simp
next
  fix x :: "(int \<times> int \<times> int) list \<times> (int \<times> int \<times> int) list \<times> 'a SocPerfThreadWrap_scheme"
  obtain po re t where x: "x = (po, re, t)" by (cases x)
  assume "case x of (po, re, t) \<Rightarrow> cfgOf t = cfgOf s"
  then have t: "cfgOf (ReportToRssExe re (ReportToPerfSo po t)) = cfgOf s" by (simp add: x cfg_simps)
  have "inter_configured (ReportToRssExe re (ReportToPerfSo po t))"
    using inter_configured_cong [OF t] assms by simp
  from cfg_WeakInteraction [OF this] t
  show "sameCfg s (case x of (po, re, t) \<Rightarrow> Inr (WeakInteraction (ReportToRssExe re (ReportToPerfSo po t))))"
    by (simp add: x)
qed

lemma cfg_then_send:
  assumes "inter_configured s" and "sameCfg s m"
  shows "sameCfg s (bindE m SendResStatus)"
  using assms(2)
  by (rule sameCfg_bind) (metis assms(1) cfg_SendResStatus inter_configured_cong sameCfg_trans)

lemma cfg_arbitrateEntry: "sameCfg s (arbitrateEntry k s)"
  by (simp add: arbitrateEntry_def cfg_ArbitrateCandidate)

lemma cfg_clearEntry: "sameCfg s (clearEntry k s)"
  by (auto simp: clearEntry_def cfg_simps intro!: cfg_UpdateCandidatesValue' split: option.split)

lemma cfg_InitResStatus [cfg_simps]: "cfgOf (InitResStatus s) = cfgOf s"
  by (simp add: InitResStatus_def cfg_simps split: prod.split)

lemma cfg_initResourceNodeInfoFunc: "cfgOf (initResourceNodeInfoFunc s) = cfgOf s"
proof -
  have "cfgOf (fold initResStatusEntry xs t) = cfgOf t" for xs and t :: "'a SocPerfThreadWrap_scheme"
    by (induction xs arbitrary: t) (auto simp: initResStatusEntry_def cfgOf_def split: option.split)
  then show ?thesis by (simp add: initResourceNodeInfoFunc_def cfg_simps)
qed

lemma cfg_updateLimitStatusFunc:
  fixes s :: "'a SocPerfThreadWrap_scheme"
  assumes "inter_configured s"
  shows "sameCfg s (updateLimitStatusFunc ev a k s)"
proof -
  have step: "sameCfg s (if ev = INNER_EVENT_ID_DO_FREQ_ACTION then DoFreqAction k a s
      else if ev = INNER_EVENT_ID_DO_FREQ_ACTION_LEVEL then DoFreqActionLevel k a s else Inr s)"
    by (simp add: DoFreqAction_def DoFreqActionLevel_def Let_def cfg_UpdateResActionList split: option.split)
  have send: "sameCfg s (SendResStatus t)" if "cfgOf t = cfgOf s" for t :: "'a SocPerfThreadWrap_scheme"
    using that assms cfg_SendResStatus [of t] inter_configured_cong [OF that] by simp
  show ?thesis unfolding updateLimitStatusFunc_def
    by (rule sameCfg_bind [OF step], rule sameCfg_bind [OF send]) (simp_all add: cfg_simps)
qed

lemma execTask_cfg:
  assumes "inter_configured s"
  shows "sameCfg s (execTask t s)"
proof -
  have item: "sameCfg u (doPackItem it u)" for it u
    by (simp add: doPackItem_def cfg_UpdateResActionList)
  have enable: "inter_configured (s\<lparr>weakInteractionStatus := b\<rparr>)" for b
    using assms inter_configured_cong [of "s\<lparr>weakInteractionStatus := b\<rparr>" s] by (simp add: cfg_simps)
  show ?thesis
    by (cases t)
      (auto simp: doFreqActionPackFunc_def postDelayTaskFunc_def updatePowerLimitBoostFreqFunc_def
        updateThermalLimitBoostFreqFunc_def clearAllAliveRequestFunc_def weakInteractionFunc_def Let_def
        cfg_simps cfg_initResourceNodeInfoFunc cfg_WeakInteraction [OF enable]
        intro!: cfg_then_send [OF assms] sameCfg_trans [OF _ cfg_foldE] item cfg_UpdateResActionList
          cfg_arbitrateEntry cfg_clearEntry cfg_updateLimitStatusFunc cfg_weakInteractionTimer assms)
qed

theorem runEntry_cfg:
  assumes "inter_configured s"
  shows "sameCfg s (runEntry n s)"
  unfolding runEntry_def
  using execTask_cfg [of "dequeue n s"] inter_configured_cong [of "dequeue n s" s] assms
  by (simp add: cfg_simps)

end
