(* ===== verification/CommonStrings.thy ===== *)
theory CommonStrings
  imports SocperfCommon
begin

text \<open>
  The string helpers of \<open>socperf_common.h\<close> (\<open>IsNumber\<close>, \<open>SplitEx\<close>, \<open>Split\<close>) and the
  standard library functions the program applies to strings: \<open>atoi\<close>, \<open>atoll\<close>,
  \<open>std::to_string\<close> and \<open>std::string::find\<close>. The lemmas: what \<open>IsNumber\<close> accepts, that
  \<open>atoi\<close> inverts \<open>to_string\<close>, and that \<open>Split\<close> with a one-character separator returns and
  computes the pieces between the separators.
\<close>

subsection \<open>IsNumber\<close>

text \<open>The loop over the characters; \<open>i\<close> is the position of the first character of the list.\<close>

fun IsNumber_loop :: "nat \<Rightarrow> string \<Rightarrow> bool" where
  "IsNumber_loop i [] = True"
| "IsNumber_loop i (c # cs) =
     (if i = 0 \<and> c = CHR ''-'' then IsNumber_loop (Suc i) cs
      else if c < CHR ''0'' \<or> c > CHR ''9'' then False
      else IsNumber_loop (Suc i) cs)"

definition IsNumber :: "string \<Rightarrow> bool" where
  "IsNumber str = IsNumber_loop 0 str"

definition is_digit :: "char \<Rightarrow> bool" where
  "is_digit c \<longleftrightarrow> CHR ''0'' \<le> c \<and> c \<le> CHR ''9''"

lemma IsNumber_loop_Suc: "IsNumber_loop (Suc i) cs \<longleftrightarrow> list_all is_digit cs"
  by (induction cs arbitrary: i) (auto simp: is_digit_def)

lemma IsNumber_iff:
  "IsNumber str \<longleftrightarrow> list_all is_digit (case str of c # cs \<Rightarrow> if c = CHR ''-'' then cs else str | [] \<Rightarrow> [])"
proof (cases str)
  case Nil
  then show ?thesis by (simp add: IsNumber_def)
next
  case (Cons c cs)
  then show ?thesis
    by (cases "c = CHR ''-''") (auto simp: IsNumber_def IsNumber_loop_Suc is_digit_def)
qed

subsection \<open>atoi, atoll and to_string\<close>

definition is_space :: "char \<Rightarrow> bool" where
  "is_space c \<longleftrightarrow> c = CHR '' '' \<or> (9 \<le> (of_char c :: nat) \<and> (of_char c :: nat) \<le> 13)"

definition digit_value :: "char \<Rightarrow> int" where
  "digit_value c = of_char c - 48"

fun digits_value :: "int \<Rightarrow> string \<Rightarrow> int" where
  "digits_value acc [] = acc"
| "digits_value acc (c # cs) =
     (if is_digit c then digits_value (10 * acc + digit_value c) cs else acc)"

text \<open>
  The number a C string starts with: white space, a sign, then digits. On a number outside the
  result type the C standard leaves \<open>atoi\<close> undefined; here it wraps around, as the conversion
  of the C library of the platform (musl) does.
\<close>

definition string_to_int :: "string \<Rightarrow> int" where
  "string_to_int str = (case dropWhile is_space str of
       [] \<Rightarrow> 0
     | c # cs \<Rightarrow> if c = CHR ''-'' then - digits_value 0 cs
                 else if c = CHR ''+'' then digits_value 0 cs
                 else digits_value 0 (c # cs))"

definition atoi :: "string \<Rightarrow> int" where
  "atoi str = to_int32 (string_to_int str)"

definition atoll :: "string \<Rightarrow> int" where
  "atoll str = to_int64 (string_to_int str)"

definition digit_char :: "nat \<Rightarrow> char" where
  "digit_char d = char_of (48 + d)"

fun nat_to_string :: "nat \<Rightarrow> string" where
  "nat_to_string n =
     (if n < 10 then [digit_char n] else nat_to_string (n div 10) @ [digit_char (n mod 10)])"

declare nat_to_string.simps [simp del]

definition to_string :: "int \<Rightarrow> string" where
  "to_string i = (if i < 0 then CHR ''-'' # nat_to_string (nat (- i)) else nat_to_string (nat i))"

lemma of_digit_char: "d < 10 \<Longrightarrow> (of_char (digit_char d) :: nat) = 48 + d"
  by (simp add: digit_char_def)

lemma is_digit_code: "is_digit c \<longleftrightarrow> 48 \<le> (of_char c :: nat) \<and> (of_char c :: nat) \<le> 57"
  by (simp add: is_digit_def less_eq_char_def)

lemma is_digit_digit_char: "d < 10 \<Longrightarrow> is_digit (digit_char d)"
  by (simp add: is_digit_code of_digit_char)

lemma digit_value_digit_char: "d < 10 \<Longrightarrow> digit_value (digit_char d) = int d"
proof -
  assume "d < 10"
  then have "int (of_char (digit_char d)) = 48 + int d" by (simp add: of_digit_char)
  then show ?thesis by (simp add: digit_value_def of_nat_of_char)
qed

lemma nat_to_string_digits: "list_all is_digit (nat_to_string n)"
proof (induction n rule: nat_to_string.induct)
  case (1 n)
  then show ?case
    by (subst nat_to_string.simps) (auto simp: is_digit_digit_char)
qed

lemma nat_to_string_nonempty [simp]: "nat_to_string n \<noteq> []"
  by (subst nat_to_string.simps) simp

lemma digits_value_snoc:
  "list_all is_digit cs \<Longrightarrow> is_digit c \<Longrightarrow>
   digits_value acc (cs @ [c]) = 10 * digits_value acc cs + digit_value c"
  by (induction cs arbitrary: acc) auto

lemma digits_value_nat_to_string: "digits_value 0 (nat_to_string n) = int n"
proof (induction n rule: nat_to_string.induct)
  case (1 n)
  show ?case
  proof (cases "n < 10")
    case True
    then show ?thesis
      by (subst nat_to_string.simps) (simp add: is_digit_digit_char digit_value_digit_char)
  next
    case False
    with 1 have IH: "digits_value 0 (nat_to_string (n div 10)) = int (n div 10)" by simp
    have "digits_value 0 (nat_to_string n)
        = 10 * digits_value 0 (nat_to_string (n div 10)) + digit_value (digit_char (n mod 10))"
      using False
      by (subst nat_to_string.simps)
        (simp add: digits_value_snoc nat_to_string_digits is_digit_digit_char)
    with IH have "digits_value 0 (nat_to_string n) = 10 * int (n div 10) + int (n mod 10)"
      by (simp add: digit_value_digit_char del: of_nat_div of_nat_mod)
    moreover have "10 * int (n div 10) + int (n mod 10) = int n" by presburger
    ultimately show ?thesis by simp
  qed
qed

lemma is_digit_not: "is_digit c \<Longrightarrow> \<not> is_space c \<and> c \<noteq> CHR ''-'' \<and> c \<noteq> CHR ''+''"
  by (auto simp: is_digit_code is_space_def)

lemma string_to_int_digits:
  assumes "list_all is_digit cs"
  shows "string_to_int cs = digits_value 0 cs"
proof (cases cs)
  case Nil
  then show ?thesis by (simp add: string_to_int_def)
next
  case (Cons c cs')
  with assms have "is_digit c" by simp
  then have "\<not> is_space c" and "c \<noteq> CHR ''-''" and "c \<noteq> CHR ''+''"
    by (auto dest: is_digit_not)
  with Cons show ?thesis by (simp add: string_to_int_def)
qed

lemma string_to_int_to_string: "string_to_int (to_string i) = i"
proof (cases "i < 0")
  case True
  have "\<not> is_space (CHR ''-'')" by (simp add: is_space_def)
  with True show ?thesis
    by (simp add: to_string_def string_to_int_def digits_value_nat_to_string)
next
  case False
  then show ?thesis
    by (simp add: to_string_def string_to_int_digits nat_to_string_digits digits_value_nat_to_string)
qed

lemma atoi_to_string: "in_int32 i \<Longrightarrow> atoi (to_string i) = i"
  by (simp add: atoi_def string_to_int_to_string to_int32_id)

lemma atoll_to_string: "in_int64 i \<Longrightarrow> atoll (to_string i) = i"
  by (simp add: atoll_def string_to_int_to_string to_int64_id)

lemma IsNumber_to_string: "IsNumber (to_string i)"
proof (cases "i < 0")
  case True
  then show ?thesis by (simp add: IsNumber_iff to_string_def nat_to_string_digits)
next
  case False
  obtain c cs where c: "nat_to_string (nat i) = c # cs"
    by (cases "nat_to_string (nat i)") auto
  have d: "list_all is_digit (c # cs)" unfolding c [symmetric] by (rule nat_to_string_digits)
  then have "c \<noteq> CHR ''-''" by (auto dest: is_digit_not)
  with False c d show ?thesis by (simp add: IsNumber_iff to_string_def)
qed

subsection \<open>Split\<close>

fun is_prefix :: "string \<Rightarrow> string \<Rightarrow> bool" where
  "is_prefix [] s = True"
| "is_prefix (p # ps) [] = False"
| "is_prefix (p # ps) (c # cs) = (p = c \<and> is_prefix ps cs)"

text \<open>\<open>str_find\<close>: the distance from the start of \<open>s\<close> of the first occurrence of the pattern.\<close>

fun str_find :: "string \<Rightarrow> string \<Rightarrow> nat option" where
  "str_find pat [] = (if is_prefix pat [] then Some 0 else None)"
| "str_find pat (c # cs) =
     (if is_prefix pat (c # cs) then Some 0 else map_option Suc (str_find pat cs))"

text \<open>\<open>(int32_t)s.find(pattern, i)\<close>: \<open>npos\<close> becomes \<open>-1\<close>.\<close>

definition find_from :: "string \<Rightarrow> string \<Rightarrow> nat \<Rightarrow> int" where
  "find_from pat s i = (if i \<le> length s then
     (case str_find pat (drop i s) of None \<Rightarrow> - 1 | Some k \<Rightarrow> int (i + k)) else - 1)"

text \<open>\<open>s.substr(i, n)\<close> with \<open>n\<close> converted to \<open>size_t\<close>: a negative \<open>n\<close> takes the rest.\<close>

definition substr :: "string \<Rightarrow> nat \<Rightarrow> int \<Rightarrow> string" where
  "substr s i n = (if n < 0 then drop i s else take (nat n) (drop i s))"

partial_function (option) SplitEx_loop :: "string \<Rightarrow> string \<Rightarrow> nat \<Rightarrow> string list \<Rightarrow> string list option" where
  "SplitEx_loop tempStr pattern i result =
     (if i < length tempStr then
        let position = find_from pattern tempStr i in
        if position < int (length tempStr) then
          let tmp = substr tempStr i (position - int i) in
          SplitEx_loop tempStr pattern (nat (position + int (length pattern) - 1 + 1)) (result @ [tmp])
        else SplitEx_loop tempStr pattern (Suc i) result
      else Some result)"

definition SplitEx :: "string \<Rightarrow> string \<Rightarrow> string list option" where
  "SplitEx str pattern = SplitEx_loop (str @ pattern) pattern 0 []"

text \<open>\<open>None\<close> is a call that does not return.\<close>

definition Split :: "string \<Rightarrow> string \<Rightarrow> string list option" where
  "Split str pattern = SplitEx str pattern"

text \<open>The reference: the pieces of a string between the occurrences of a character.\<close>

fun split_on :: "char \<Rightarrow> string \<Rightarrow> string list" where
  "split_on c [] = [[]]"
| "split_on c (x # xs) =
     (if x = c then [] # split_on c xs
      else (case split_on c xs of [] \<Rightarrow> [[x]] | p # ps \<Rightarrow> (x # p) # ps))"

fun join_with :: "char \<Rightarrow> string list \<Rightarrow> string" where
  "join_with c [] = []"
| "join_with c [p] = p"
| "join_with c (p # q # ps) = p @ c # join_with c (q # ps)"

lemma split_on_nonempty [simp]: "split_on c s \<noteq> []"
  by (cases s) (auto split: list.splits)

lemma split_on_no_sep: "c \<notin> set p \<Longrightarrow> split_on c p = [p]"
  by (induction p) auto

lemma split_on_append: "c \<notin> set p \<Longrightarrow> split_on c (p @ c # s) = p # split_on c s"
  by (induction p) auto

lemma join_split_on: "join_with c (split_on c s) = s"
proof (induction s)
  case Nil
  then show ?case by simp
next
  case (Cons x xs)
  then show ?case
    by (cases "(c, split_on c xs)" rule: join_with.cases) (auto split: list.splits)
qed

lemma split_on_pieces: "\<forall>p\<in>set (split_on c s). c \<notin> set p"
  by (induction s) (auto split: list.splits)

lemma length_split_on: "length (split_on c s) = Suc (count_list s c)"
proof (induction s)
  case (Cons x s)
  then show ?case by (cases "split_on c s") auto
qed simp

lemma split_on_join: 
  "ps \<noteq> [] \<Longrightarrow> \<forall>p\<in>set ps. c \<notin> set p \<Longrightarrow> split_on c (join_with c ps) = ps"
  by (induction c ps rule: join_with.induct) (auto simp: split_on_no_sep split_on_append)

lemma str_find_char_app: "c \<notin> set p \<Longrightarrow> str_find [c] (p @ c # s) = Some (length p)"
  by (induction p) auto

text \<open>
  From a position that is not past the end, the loop appends the pieces of the remaining string.
\<close>

lemma SplitEx_loop_char:
  assumes "length done + length s + 1 = length tempStr"
    and "tempStr = done @ s @ [c]"
  shows "SplitEx_loop tempStr [c] (length done) result = Some (result @ split_on c s)"
  using assms
proof (induction "length s" arbitrary: s "done" result rule: less_induct)
  case less
  obtain p rest where s: "s @ [c] = p @ c # rest" "c \<notin> set p"
    using split_list_first [of c "s @ [c]"] by auto
  have pos: "find_from [c] tempStr (length done) = int (length done + length p)"
    using less.prems s by (simp add: find_from_def str_find_char_app)
  have sub: "substr tempStr (length done) (int (length done + length p) - int (length done)) = p"
    using less.prems s by (simp add: substr_def)
  have len: "length done + length p < length tempStr"
    using less.prems(2) s by simp
  have nxt: "nat (int (length done + length p) + 1) = Suc (length done + length p)"
    by simp
  have step: "SplitEx_loop tempStr [c] (length done) result
      = SplitEx_loop tempStr [c] (length (done @ p @ [c])) (result @ [p])"
    using len by (subst SplitEx_loop.simps) (simp add: pos sub nxt Let_def del: of_nat_add)
  show ?case
  proof (cases rest rule: rev_cases)
    case Nil
    with s have "s = p" by simp
    moreover from this less.prems have "length (done @ p @ [c]) = length tempStr" by simp
    then have "SplitEx_loop tempStr [c] (length (done @ p @ [c])) (result @ [p]) = Some (result @ [p])"
      by (subst SplitEx_loop.simps) simp
    ultimately show ?thesis using step s(2) by (simp add: split_on_no_sep)
  next
    case (snoc r' d)
    with s have s': "s = p @ c # r'" and d: "d = c" by auto
    have "SplitEx_loop tempStr [c] (length (done @ p @ [c])) (result @ [p])
        = Some ((result @ [p]) @ split_on c r')"
      using less.prems s' by (intro less.hyps) auto
    with step s(2) s' show ?thesis by (simp add: split_on_append)
  qed
qed

lemma Split_char: "Split str [c] = Some (split_on c str)"
  using SplitEx_loop_char [of "[]" str "str @ [c]" c "[]"] by (simp add: Split_def SplitEx_def)

end
