(* ===== verification/SocperfCore.thy ===== *)
theory SocperfCore
  imports WrapTasks CommonStrings "HOL-Library.List_Lexorder"
begin

text \<open>
  The class \<open>SocPerf\<close> (\<open>services/core/include/socperf.h\<close>, \<open>services/core/src/socperf.cpp\<close>): its
  state extends that of the one \<open>SocPerfThreadWrap\<close> it owns. Requests run on the caller's thread and
  only submit closures; the closures run on the serial queue (theory \<open>WrapTasks\<close>). The readings of
  \<open>std::chrono::system_clock\<close> a request makes are arguments, in the order of the code.
\<close>

subsection \<open>Constants and state\<close>

abbreviation (input) TIME_INTERVAL :: "64 word" where "TIME_INTERVAL \<equiv> 8"
abbreviation (input) CANCEL_CMDID_PREFIX :: int where "CANCEL_CMDID_PREFIX \<equiv> 100000"
abbreviation (input) DEFAULT_MODE :: string where "DEFAULT_MODE \<equiv> ''default''"
abbreviation (input) SPLIT_COLON :: string where "SPLIT_COLON \<equiv> '':''"
abbreviation (input) ACTION_MODE_STRING :: string where "ACTION_MODE_STRING \<equiv> ''actionmode''"
abbreviation (input) WEAK_ACTION_STRING :: string where "WEAK_ACTION_STRING \<equiv> ''weakaction''"
abbreviation (input) INVALID_CMD_ID :: int where "INVALID_CMD_ID \<equiv> - 1"
abbreviation (input) BATTERY_LIMIT_CMD_ID :: int where "BATTERY_LIMIT_CMD_ID \<equiv> - 2"
abbreviation (input) PERF_REQUEST_CMD_ID_EVENT_FLING :: int where "PERF_REQUEST_CMD_ID_EVENT_FLING \<equiv> 10008"
abbreviation (input) PERF_REQUEST_CMD_ID_EVENT_TOUCH_DOWN :: int where "PERF_REQUEST_CMD_ID_EVENT_TOUCH_DOWN \<equiv> 10010"
abbreviation (input) PERF_REQUEST_CMD_ID_EVENT_TOUCH_UP :: int where "PERF_REQUEST_CMD_ID_EVENT_TOUCH_UP \<equiv> 10040"
abbreviation (input) PERF_REQUEST_CMD_ID_EVENT_DRAG :: int where "PERF_REQUEST_CMD_ID_EVENT_DRAG \<equiv> 10092"
abbreviation (input) STATISTICS_REPORT_INTERVAL_US :: int where "STATISTICS_REPORT_INTERVAL_US \<equiv> 86400000000"

text \<open>
  \<open>recordDeviceMode\<close> is a \<open>std::set\<close>: a sorted list without duplicates. \<open>scenarioMsgs\<close> and
  \<open>statisticsInfo\<close> are the histories of the strings handed to \<open>scenarioFunc_\<close> and to the daily
  statistics event.
\<close>

record SocPerf = SocPerfThreadWrap +
  enabled :: bool
  recordDeviceMode :: "string list"
  limitRequest :: "(int \<times> int) list list"
  perfRequestEnable :: bool
  thermalLvl :: int
  batteryLimitStatus :: bool
  powerLimitStatus :: bool
  boostCmdCount :: "(int \<times> 32 word) list"
  boostTime :: "(int \<times> 64 word) list"
  dailyCmdIdCount :: "(int \<times> 32 word) list"
  statisticsTimer :: "nat option"
  statisticsTimerRunning :: bool
  scenarioMsgs :: "string list"
  statisticsInfo :: "string list"

subsection \<open>Device modes and the command in force\<close>

definition GetDeviceMode :: "'a SocPerf_scheme \<Rightarrow> string" where
  "GetDeviceMode s = (case recordDeviceMode s of [] \<Rightarrow> DEFAULT_CONFIG_MODE | m # _ \<Rightarrow> m)"

text \<open>The loop over the items of \<open>MatchDeviceMode\<close>, on \<open>(itemName, recordDeviceMode)\<close>.\<close>

fun matchItems :: "string \<Rightarrow> SceneItem list \<Rightarrow> string \<times> string list \<Rightarrow> string \<times> string list" where
  "matchItems mode [] acc = acc"
| "matchItems mode (item # items) (itemName, modes) =
     matchItems mode items
       (if si_name item = mode then
          (if si_req item = REPORT_TO_PERFSO then mode else itemName, insort_insert mode modes)
        else (itemName, remove1 (si_name item) modes))"

definition MatchDeviceMode ::
  "string \<Rightarrow> bool \<Rightarrow> SceneItem list \<Rightarrow> 'a SocPerf_scheme \<Rightarrow> string \<times> 'a SocPerf_scheme" where
  "MatchDeviceMode mode status items s =
     (if \<not> status then (DEFAULT_MODE, s\<lparr>recordDeviceMode := remove1 mode (recordDeviceMode s)\<rparr>)
      else case matchItems mode items (DEFAULT_MODE, recordDeviceMode s) of
        (itemName, modes) \<Rightarrow> (itemName, s\<lparr>recordDeviceMode := modes\<rparr>))"

text \<open>The loop over \<open>modeMap\<close> in \<open>MatchDeviceModeCmd\<close>: the first entry whose mode is recorded decides.\<close>

fun modeCmd ::
  "int \<Rightarrow> bool \<Rightarrow> (int \<times> Actions option) list \<Rightarrow> string list \<Rightarrow> ModeMap list \<Rightarrow> error + int" where
  "modeCmd cmdId isTagOnOff actionsInfo modes [] = Inr cmdId"
| "modeCmd cmdId isTagOnOff actionsInfo modes (mm # mms) =
     (if mm_mode mm \<in> set modes then
        case map_of actionsInfo (mm_cmdId mm) of
          None \<Rightarrow> Inr cmdId
        | Some p \<Rightarrow>
            if isTagOnOff then
              bindE (derefE p) (\<lambda>as. if as_isLongTimePerf as then Inr cmdId else Inr (mm_cmdId mm))
            else Inr (mm_cmdId mm)
      else modeCmd cmdId isTagOnOff actionsInfo modes mms)"

definition MatchDeviceModeCmd :: "int \<Rightarrow> bool \<Rightarrow> 'a SocPerf_scheme \<Rightarrow> error + int" where
  "MatchDeviceModeCmd cmdId isTagOnOff s =
     (case map_of (configPerfActionsInfo s) DEFAULT_CONFIG_MODE of
        None \<Rightarrow> Inr cmdId
      | Some actionsInfo \<Rightarrow>
          (case map_of actionsInfo cmdId of
             None \<Rightarrow> Inr cmdId
           | Some p \<Rightarrow>
               bindE (derefE p) (\<lambda>as.
               if as_modeMap as = [] \<or> (isTagOnOff \<and> as_isLongTimePerf as) then Inr cmdId
               else if recordDeviceMode s = [] then Inr cmdId
               else modeCmd cmdId isTagOnOff actionsInfo (recordDeviceMode s) (as_modeMap as))))"

text \<open>
  \<open>GetMatchCmdId\<close> looks in the map of the device mode, then in the default map; the second lookup
  goes through \<open>operator[]\<close> and inserts an empty default map if there is none.
\<close>

definition GetMatchCmdId :: "int \<Rightarrow> bool \<Rightarrow> 'a SocPerf_scheme \<Rightarrow> error + (int \<times> 'a SocPerf_scheme)" where
  "GetMatchCmdId cmdId isTagOnOff s =
     (let inMode = (map_of (modeActions (GetDeviceMode s) s) cmdId \<noteq> None);
          s = (if inMode then s else touchMode DEFAULT_CONFIG_MODE s) in
      if \<not> inMode \<and> map_of (modeActions DEFAULT_CONFIG_MODE s) cmdId = None then Inr (INVALID_CMD_ID, s)
      else if length (configPerfActionsInfo s) = 1
              \<and> map_of (configPerfActionsInfo s) DEFAULT_CONFIG_MODE \<noteq> None then
        bindE (MatchDeviceModeCmd cmdId isTagOnOff s) (\<lambda>m. Inr (m, s))
      else Inr (cmdId, s))"

definition GetActionsInfo :: "int \<Rightarrow> 'a SocPerf_scheme \<Rightarrow> Actions option \<times> 'a SocPerf_scheme" where
  "GetActionsInfo cmdId s =
     (if map_of (modeActions (GetDeviceMode s) s) cmdId \<noteq> None
      then (actionsAt (GetDeviceMode s) cmdId s, s)
      else (actionsAt DEFAULT_CONFIG_MODE cmdId s, touchActions DEFAULT_CONFIG_MODE cmdId s))"

subsection \<open>Rate limiting\<close>

definition CheckTimeInterval :: "int \<Rightarrow> bool \<Rightarrow> int \<Rightarrow> 'a SocPerf_scheme \<Rightarrow> bool \<times> 'a SocPerf_scheme" where
  "CheckTimeInterval now onOff cmdId s =
     (let curMs = word_of_int now;
          cancelCmdId = to_int32 (cmdId + CANCEL_CMDID_PREFIX);
          recordCmdId = (if onOff then cmdId else cancelCmdId);
          s = (if onOff then s\<lparr>boostTime := AList.update cancelCmdId 0 (boostTime s)\<rparr> else s) in
      case map_of (boostTime s) recordCmdId of
        None \<Rightarrow> (True, s\<lparr>boostTime := AList.update recordCmdId curMs (boostTime s)\<rparr>)
      | Some t \<Rightarrow>
          if curMs - t > TIME_INTERVAL
          then (True, s\<lparr>boostTime := AList.update recordCmdId curMs (boostTime s)\<rparr>)
          else (False, s))"

subsection \<open>Turning a command into actions\<close>

text \<open>The loop of \<open>DoPerfRequestThremalLvl\<close> that selects the nearest thermal level.\<close>

fun nearestAction :: "int \<Rightarrow> Action list \<Rightarrow> Action option \<Rightarrow> Action option" where
  "nearestAction lvl [] action = action"
| "nearestAction lvl (a # as) action =
     nearestAction lvl as
       (if ac_thermalLvl a \<le> lvl
           \<and> (case action of None \<Rightarrow> True | Some b \<Rightarrow> ac_thermalLvl b \<le> ac_thermalLvl a)
        then Some a else action)"

text \<open>
  The chain built so far is \<open>items\<close>, its last element is \<open>curItem\<close>; nothing is appended to an
  empty chain.
\<close>

definition DoPerfRequestThremalLvl ::
  "int \<Rightarrow> Action \<Rightarrow> EventType \<Rightarrow> ResActionItem list \<Rightarrow> int \<Rightarrow> 'a SocPerf_scheme
   \<Rightarrow> ResActionItem list \<times> 'a SocPerf_scheme" where
  "DoPerfRequestThremalLvl cmdId originAction onOff items endTime s =
     (if items = [] then (items, s)
      else case GetActionsInfo (ac_thermalCmdId originAction) s of (cmdConfig, s) \<Rightarrow>
        (case cmdConfig of
           None \<Rightarrow> (items, s)
         | Some config \<Rightarrow>
             (case nearestAction (thermalLvl s) (as_actionList config) None of
                None \<Rightarrow> (items, s)
              | Some action \<Rightarrow>
                  let new = buildItems s (ac_duration originAction) ACTION_TYPE_PERFLVL onOff cmdId endTime True
                              (nextRef s) (varPairs (ac_variable action)) in
                  (items @ new, s\<lparr>nextRef := nextRef s + length new\<rparr>))))"

text \<open>One iteration of the loop of \<open>DoFreqActions\<close>.\<close>

definition freqAction ::
  "int \<Rightarrow> Actions \<Rightarrow> EventType \<Rightarrow> int \<Rightarrow> Action \<Rightarrow> ResActionItem list \<times> 'a SocPerf_scheme
   \<Rightarrow> ResActionItem list \<times> 'a SocPerf_scheme" where
  "freqAction curMs actions onOff actionType action = (\<lambda>(items, s).
     if ac_duration action = 0 \<and> onOff = EVENT_INVALID then (items, s)
     else
       let endTime = (if ac_duration action = 0 then MAX_INT_VALUE
                      else to_int64 (curMs + ac_duration action));
           new = buildItems s (ac_duration action) actionType onOff (as_id actions) endTime
                   (as_interaction actions) (nextRef s) (varPairs (ac_variable action));
           items = items @ new;
           s = s\<lparr>nextRef := nextRef s + length new\<rparr> in
       if ac_thermalCmdId action \<noteq> INVALID_THERMAL_CMD_ID \<and> thermalLvl s \<ge> minThermalLvl s
       then DoPerfRequestThremalLvl (as_id actions) action onOff items endTime s
       else (items, s))"

definition DoFreqActions ::
  "int \<Rightarrow> Actions option \<Rightarrow> EventType \<Rightarrow> int \<Rightarrow> 'a SocPerf_scheme \<Rightarrow> error + 'a SocPerf_scheme" where
  "DoFreqActions curMs actions onOff actionType s =
     bindE (derefE actions) (\<lambda>as.
     case fold (freqAction curMs as onOff actionType) (as_actionList as) ([], s) of
       (header, s) \<Rightarrow> Inr (PostDelayTask header (DoFreqActionPack header s)))"

subsection \<open>Performance requests\<close>

definition UpdateCmdIdCount :: "int \<Rightarrow> 'a SocPerf_scheme \<Rightarrow> 'a SocPerf_scheme" where
  "UpdateCmdIdCount cmdId s =
     (let m = boostCmdCount s; m = (if map_of m cmdId = None then AList.update cmdId 0 m else m) in
      s\<lparr>boostCmdCount := AList.update cmdId (the (map_of m cmdId) + 1) m\<rparr>)"

definition UpdateDailyCmdIdCount :: "int \<Rightarrow> 'a SocPerf_scheme \<Rightarrow> 'a SocPerf_scheme" where
  "UpdateDailyCmdIdCount cmdId s =
     (let m = dailyCmdIdCount s in
      s\<lparr>dailyCmdIdCount := AList.update cmdId ((case map_of m cmdId of None \<Rightarrow> 0 | Some n \<Rightarrow> n) + 1) m\<rparr>)"

text \<open>\<open>now\<close> and \<open>curMs\<close> are the clock readings of \<open>CheckTimeInterval\<close> and \<open>DoFreqActions\<close>.\<close>

definition PerfRequest :: "int \<Rightarrow> int \<Rightarrow> int \<Rightarrow> string \<Rightarrow> 'a SocPerf_scheme \<Rightarrow> error + 'a SocPerf_scheme" where
  "PerfRequest now curMs cmdId msg s =
     (if \<not> enabled s \<or> \<not> perfRequestEnable s then Inr s
      else case CheckTimeInterval now True cmdId s of (pass, s) \<Rightarrow>
        if \<not> pass then Inr s
        else
          bindE (GetMatchCmdId cmdId False s) (\<lambda>(matchCmdId, s).
          if matchCmdId = INVALID_CMD_ID then Inr s
          else case GetActionsInfo matchCmdId s of (actions, s) \<Rightarrow>
            bindE (DoFreqActions curMs actions EVENT_INVALID ACTION_TYPE_PERF s) (\<lambda>s.
            Inr (UpdateDailyCmdIdCount cmdId (UpdateCmdIdCount cmdId s)))))"

definition PerfRequestEx ::
  "int \<Rightarrow> int \<Rightarrow> int \<Rightarrow> bool \<Rightarrow> string \<Rightarrow> 'a SocPerf_scheme \<Rightarrow> error + 'a SocPerf_scheme" where
  "PerfRequestEx now curMs cmdId onOffTag msg s =
     (if \<not> enabled s \<or> \<not> perfRequestEnable s then Inr s
      else case CheckTimeInterval now onOffTag cmdId s of (pass, s) \<Rightarrow>
        if \<not> pass then Inr s
        else
          bindE (GetMatchCmdId cmdId True s) (\<lambda>(matchCmdId, s).
          if matchCmdId = INVALID_CMD_ID then Inr s
          else case GetActionsInfo matchCmdId s of (actions, s) \<Rightarrow>
            bindE (DoFreqActions curMs actions (if onOffTag then EVENT_ON else EVENT_OFF) ACTION_TYPE_PERF s) (\<lambda>s.
            Inr (if onOffTag then UpdateDailyCmdIdCount cmdId (UpdateCmdIdCount cmdId s) else s))))"

subsection \<open>Limits\<close>

definition PowerLimitBoost :: "bool \<Rightarrow> string \<Rightarrow> 'a SocPerf_scheme \<Rightarrow> 'a SocPerf_scheme" where
  "PowerLimitBoost onOffTag msg s =
     (if \<not> enabled s then s
      else
        let s = (if msg = ''Low_battery_limit'' then s\<lparr>batteryLimitStatus := onOffTag\<rparr>
                 else s\<lparr>powerLimitStatus := onOffTag\<rparr>) in
        UpdatePowerLimitBoostFreq (batteryLimitStatus s \<or> powerLimitStatus s) s)"

definition ThermalLimitBoost :: "bool \<Rightarrow> string \<Rightarrow> 'a SocPerf_scheme \<Rightarrow> 'a SocPerf_scheme" where
  "ThermalLimitBoost onOffTag msg s = (if \<not> enabled s then s else UpdateThermalLimitBoostFreq onOffTag s)"

text \<open>
  \<open>limitRequest_[clientId]\<close>: the index is in range after the check of \<open>LimitRequest\<close>. The map
  stores the value as \<open>int32_t\<close>.
\<close>

definition limitsOf :: "int \<Rightarrow> 'a SocPerf_scheme \<Rightarrow> (int \<times> int) list" where
  "limitsOf clientId s = limitRequest s ! nat clientId"

definition setLimits :: "int \<Rightarrow> (int \<times> int) list \<Rightarrow> 'a SocPerf_scheme \<Rightarrow> 'a SocPerf_scheme" where
  "setLimits clientId m s = s\<lparr>limitRequest := (limitRequest s)[nat clientId := m]\<rparr>"

definition limitCmdId :: "int \<Rightarrow> int" where
  "limitCmdId clientId = (if clientId = ACTION_TYPE_BATTERY then BATTERY_LIMIT_CMD_ID else - 1)"

definition limitType :: "int \<Rightarrow> int" where
  "limitType clientId = (if clientId = ACTION_TYPE_BATTERY then ACTION_TYPE_POWER else clientId)"

definition SendLimitRequestEventOff ::
  "int \<Rightarrow> int \<Rightarrow> SocPerfInnerEvent \<Rightarrow> 'a SocPerf_scheme \<Rightarrow> 'a SocPerf_scheme" where
  "SendLimitRequestEventOff clientId resId eventId s =
     (case map_of (limitsOf clientId s) resId of
        None \<Rightarrow> s
      | Some v \<Rightarrow>
          if v \<noteq> INVALID_VALUE then
            let resAction = new_ResAction (nextRef s) v 0 (limitType clientId) EVENT_OFF
                              (limitCmdId clientId) MAX_INT_VALUE;
                s = UpdateLimitStatus eventId resAction resId (s\<lparr>nextRef := Suc (nextRef s)\<rparr>) in
            setLimits clientId (AList.delete resId (limitsOf clientId s)) s
          else s)"

definition SendLimitRequestEventOn ::
  "int \<Rightarrow> int \<Rightarrow> int \<Rightarrow> SocPerfInnerEvent \<Rightarrow> 'a SocPerf_scheme \<Rightarrow> 'a SocPerf_scheme" where
  "SendLimitRequestEventOn clientId resId resValue eventId s =
     (if resValue \<noteq> INVALID_VALUE \<and> resValue \<noteq> RESET_VALUE then
        let resAction = new_ResAction (nextRef s) resValue 0 (limitType clientId) EVENT_ON
                          (limitCmdId clientId) MAX_INT_VALUE;
            s = UpdateLimitStatus eventId resAction resId (s\<lparr>nextRef := Suc (nextRef s)\<rparr>) in
        if map_of (limitsOf clientId s) resId = None
        then setLimits clientId (AList.update resId (to_int32 resValue) (limitsOf clientId s)) s
        else s
      else s)"

definition SendLimitRequestEvent :: "int \<Rightarrow> int \<times> int \<Rightarrow> 'a SocPerf_scheme \<Rightarrow> 'a SocPerf_scheme" where
  "SendLimitRequestEvent clientId = (\<lambda>(resId, resValue) s.
     case (if resId > RES_ID_ADDITION
           then (resId - RES_ID_ADDITION, resId, INNER_EVENT_ID_DO_FREQ_ACTION_LEVEL)
           else (resId, resId + RES_ID_ADDITION, INNER_EVENT_ID_DO_FREQ_ACTION)) of
       (realResId, levelResId, eventId) \<Rightarrow>
         if \<not> IsValidResId realResId s then s
         else SendLimitRequestEventOn clientId resId resValue eventId
                (SendLimitRequestEventOff clientId levelResId INNER_EVENT_ID_DO_FREQ_ACTION_LEVEL
                  (SendLimitRequestEventOff clientId realResId INNER_EVENT_ID_DO_FREQ_ACTION s)))"

definition LimitRequest ::
  "int \<Rightarrow> int list \<Rightarrow> int list \<Rightarrow> string \<Rightarrow> 'a SocPerf_scheme \<Rightarrow> 'a SocPerf_scheme" where
  "LimitRequest clientId tags configs msg s =
     (if \<not> enabled s then s
      else if length tags \<noteq> length configs then s
      else if clientId \<le> ACTION_TYPE_PERF \<or> clientId \<ge> ACTION_TYPE_MAX then s
      else fold (SendLimitRequestEvent clientId) (zip tags configs) s)"

definition ClearAllAliveRequest :: "'a SocPerf_scheme \<Rightarrow> 'a SocPerf_scheme" where
  "ClearAllAliveRequest s = (if \<not> enabled s then s else ClearAllAliveRequest_wrap s)"

definition SetRequestStatus :: "bool \<Rightarrow> string \<Rightarrow> 'a SocPerf_scheme \<Rightarrow> 'a SocPerf_scheme" where
  "SetRequestStatus status msg s =
     (let s = s\<lparr>perfRequestEnable := status\<rparr> in if \<not> perfRequestEnable s then ClearAllAliveRequest s else s)"

definition SetThermalLevel :: "int \<Rightarrow> 'a SocPerf_scheme \<Rightarrow> 'a SocPerf_scheme" where
  "SetThermalLevel level s = (if \<not> enabled s then s else s\<lparr>thermalLvl := level, wrapThermalLvl := level\<rparr>)"

subsection \<open>Device mode requests\<close>

text \<open>The end of \<open>RequestDeviceMode\<close>, once the scene of the mode type is found.\<close>

definition reportScenario ::
  "string \<Rightarrow> string \<Rightarrow> bool \<Rightarrow> SceneResNode \<Rightarrow> 'a SocPerf_scheme \<Rightarrow> 'a SocPerf_scheme" where
  "reportScenario modeType modeName status sceneResNode s =
     (case MatchDeviceMode modeName status (sr_items sceneResNode) s of (modeStr, s) \<Rightarrow>
        if sr_persistMode sceneResNode = REPORT_TO_PERFSO \<and> scenarioFunc s \<noteq> None
        then s\<lparr>scenarioMsgs := scenarioMsgs s @ [modeType @ '':'' @ modeStr]\<rparr> else s)"

definition RequestDeviceMode :: "string \<Rightarrow> bool \<Rightarrow> 'a SocPerf_scheme \<Rightarrow> error + 'a SocPerf_scheme" where
  "RequestDeviceMode mode status s =
     (if \<not> enabled s then Inr s
      else if mode = [] \<or> length mode > MAX_RES_MODE_LEN then Inr s
      else case Split mode SPLIT_COLON of
        None \<Rightarrow> Inl NoReturn
      | Some modeParamList \<Rightarrow>
          if length modeParamList \<noteq> 2 then Inr s
          else
            let modeType = modeParamList ! 0; modeName = modeParamList ! 1 in
            if modeType = ACTION_MODE_STRING \<and> modeName = WEAK_ACTION_STRING
            then Inr (SetWeakInteractionStatus status s)
            else
              let s = (if mode = ''powerStatus:perfMode'' then SetPerformanceModeStatus status s else s) in
              case map_of (sceneResourceInfo s) modeType of
                None \<Rightarrow> Inr s
              | Some sceneResNode \<Rightarrow> Inr (reportScenario modeType modeName status sceneResNode s))"

subsection \<open>Counts\<close>

text \<open>The loops that print a map of counts as \<open>id:count\<close> entries with a separator.\<close>

definition countEntry :: "int \<times> 32 word \<Rightarrow> string" where
  "countEntry = (\<lambda>(k, n). to_string k @ '':'' @ to_string (uint n))"

definition printCounts :: "string \<Rightarrow> (int \<times> 32 word) list \<Rightarrow> string" where
  "printCounts sep m = fold (\<lambda>kn ret. (if length ret > 0 then ret @ sep else ret) @ countEntry kn) m []"

definition RequestCmdIdCount :: "string \<Rightarrow> 'a SocPerf_scheme \<Rightarrow> string" where
  "RequestCmdIdCount msg s = printCounts '','' (boostCmdCount s)"

subsection \<open>Daily statistics\<close>

definition ReportCmdIdStatistics :: "'a SocPerf_scheme \<Rightarrow> 'a SocPerf_scheme" where
  "ReportCmdIdStatistics s =
     (if dailyCmdIdCount s = [] then s
      else s\<lparr>dailyCmdIdCount := [],
             statisticsInfo := statisticsInfo s @ [printCounts '';'' (dailyCmdIdCount s)]\<rparr>)"

definition SubmitStatisticsTask :: "int \<Rightarrow> 'a SocPerfThreadWrap_scheme \<Rightarrow> nat \<times> 'a SocPerfThreadWrap_scheme" where
  "SubmitStatisticsTask delay s = submit_h delay TaskStatistics s"

definition CancelStatisticsTask :: "nat option \<Rightarrow> 'a SocPerfThreadWrap_scheme \<Rightarrow> 'a SocPerfThreadWrap_scheme" where
  "CancelStatisticsTask timer s = (case timer of None \<Rightarrow> s | Some h \<Rightarrow> cancel h s)"

definition StartStatisticsTimer :: "'a SocPerf_scheme \<Rightarrow> 'a SocPerf_scheme" where
  "StartStatisticsTimer s =
     (let s = (if \<not> statisticsTimerRunning s then s\<lparr>statisticsTimerRunning := True\<rparr> else s) in
      case SubmitStatisticsTask STATISTICS_REPORT_INTERVAL_US s of (h, s) \<Rightarrow> s\<lparr>statisticsTimer := Some h\<rparr>)"

definition StopStatisticsTimer :: "'a SocPerf_scheme \<Rightarrow> 'a SocPerf_scheme" where
  "StopStatisticsTimer s =
     (let s = s\<lparr>statisticsTimerRunning := False\<rparr> in
      case statisticsTimer s of
        None \<Rightarrow> s
      | Some h \<Rightarrow> CancelStatisticsTask (Some h) (s\<lparr>statisticsTimer := None\<rparr>))"

text \<open>The closure that \<open>StartStatisticsTimer\<close> submits.\<close>

definition statisticsFunc :: "'a SocPerf_scheme \<Rightarrow> 'a SocPerf_scheme" where
  "statisticsFunc s =
     (if \<not> statisticsTimerRunning s then s
      else
        let s = ReportCmdIdStatistics s in
        if statisticsTimerRunning s then StartStatisticsTimer s else s)"

text \<open>The closures of the queue, with the body of \<open>TaskStatistics\<close>.\<close>

definition runTask :: "Task \<Rightarrow> 'a SocPerf_scheme \<Rightarrow> error + 'a SocPerf_scheme" where
  "runTask t s = (if t = TaskStatistics then Inr (statisticsFunc s) else execTask t s)"

definition runNext :: "nat \<Rightarrow> 'a SocPerf_scheme \<Rightarrow> error + 'a SocPerf_scheme" where
  "runNext i s = runTask (qe_task (socperfQueue s ! i)) (dequeue i s)"

subsection \<open>Initialisation\<close>

definition CopyEvent :: "int \<Rightarrow> int \<Rightarrow> 'a SocPerf_scheme \<Rightarrow> error + 'a SocPerf_scheme" where
  "CopyEvent oldCmdId newCmdId s =
     (let info = modeActions DEFAULT_CONFIG_MODE s in
      case map_of info oldCmdId of
        None \<Rightarrow> Inr s
      | Some p \<Rightarrow>
          if map_of info newCmdId \<noteq> None then Inr s
          else bindE (derefE p) (\<lambda>oldActions.
            Inr (s\<lparr>configPerfActionsInfo := AList.update DEFAULT_CONFIG_MODE
                     (AList.update newCmdId (Some (oldActions\<lparr>as_id := newCmdId\<rparr>)) info)
                     (configPerfActionsInfo s)\<rparr>)))"

definition CompleteEvent :: "'a SocPerf_scheme \<Rightarrow> error + 'a SocPerf_scheme" where
  "CompleteEvent s =
     bindE (CopyEvent PERF_REQUEST_CMD_ID_EVENT_TOUCH_DOWN PERF_REQUEST_CMD_ID_EVENT_TOUCH_UP
              (touchMode DEFAULT_CONFIG_MODE s))
       (CopyEvent PERF_REQUEST_CMD_ID_EVENT_FLING PERF_REQUEST_CMD_ID_EVENT_DRAG)"

text \<open>A new \<open>SocPerfThreadWrap\<close>: the initial values of its members.\<close>

definition CreateThreadWraps :: "'a SocPerf_scheme \<Rightarrow> 'a SocPerf_scheme" where
  "CreateThreadWraps s =
     s\<lparr>wrapThermalLvl := DEFAULT_THERMAL_LVL, resStatusInfo := [], socperfQueue := [],
       powerLimitBoost := False, thermalLimitBoost := False, weakInteractionStatus := True,
       performanceModeStatus := False, boostResCnt := 0\<rparr>"

definition InitThreadWraps :: "'a SocPerf_scheme \<Rightarrow> 'a SocPerf_scheme" where
  "InitThreadWraps s = InitResourceNodeInfo s"

text \<open>\<open>SocPerf::Init\<close>; the argument is \<open>socPerfConfig_.Init()\<close>.\<close>

definition Init :: "('a SocPerf_scheme \<Rightarrow> error + (bool \<times> 'a SocPerf_scheme)) \<Rightarrow>
  'a SocPerf_scheme \<Rightarrow> error + (bool \<times> 'a SocPerf_scheme)" where
  "Init configInit s =
     bindE (configInit s) (\<lambda>(ok, s).
     if \<not> ok then Inr (False, s)
     else
       bindE (CompleteEvent ((InitThreadWraps (CreateThreadWraps s))\<lparr>enabled := True\<rparr>)) (\<lambda>s.
       Inr (True, StartStatisticsTimer s)))"

text \<open>The members of a new \<open>SocPerf\<close> and of the configuration it refers to.\<close>

definition new_SocPerf :: SocPerf where
  "new_SocPerf =
     \<lparr>reportFunc = None, scenarioFunc = None, resourceNodeInfo = [], sceneResourceInfo = [],
      configPerfActionsInfo = [], interAction = [], minThermalLvl = INVALID_THERMAL_LVL,
      g_resStrToIdInfo = [], g_handle = None,
      wrapThermalLvl = DEFAULT_THERMAL_LVL, resStatusInfo = [], socperfQueue = [],
      powerLimitBoost = False, thermalLimitBoost = False, weakInteractionStatus = True,
      performanceModeStatus = False, boostResCnt = 0, nextRef = 0, nextHandle = 0, reports = [],
      enabled = False, recordDeviceMode = [], limitRequest = [[], [], [], [], []],
      perfRequestEnable = True, thermalLvl = DEFAULT_THERMAL_LVL, batteryLimitStatus = False,
      powerLimitStatus = False, boostCmdCount = [], boostTime = [], dailyCmdIdCount = [],
      statisticsTimer = None, statisticsTimerRunning = False, scenarioMsgs = [], statisticsInfo = []\<rparr>"

end
