(* ===== verification/Requests.thy ===== *)
theory Requests
  imports ConfigFrame SocperfCore
begin

text \<open>
  The requests of \<open>SocPerf\<close> as operations that run on a caller's thread between two closures of the
  serial queue. They read the configuration, change members of \<open>SocPerf\<close>, allocate actions and submit
  well-formed closures, and nothing else: the locale \<open>request_safe\<close> states what an invariant of the
  thread wrap has to satisfy to be kept by every request, and proves that then no request fails.
\<close>

subsection \<open>What a request may change\<close>

definition sameWrap :: "'a SocPerfThreadWrap_scheme \<Rightarrow> 'a SocPerfThreadWrap_scheme \<Rightarrow> bool" where
  "sameWrap s s' \<longleftrightarrow> resourceNodeInfo s' = resourceNodeInfo s \<and> resStatusInfo s' = resStatusInfo s
     \<and> powerLimitBoost s' = powerLimitBoost s \<and> thermalLimitBoost s' = thermalLimitBoost s
     \<and> interAction s' = interAction s \<and> reports s' = reports s \<and> reportFunc s' = reportFunc s
     \<and> boostResCnt s' = boostResCnt s \<and> weakInteractionStatus s' = weakInteractionStatus s
     \<and> socperfQueue s' = socperfQueue s \<and> nextHandle s' = nextHandle s
     \<and> (\<forall>m. modeActions m s' = modeActions m s)"

lemma sameWrap_refl [simp]: "sameWrap s s"
  by (simp add: sameWrap_def)

lemma sameWrap_trans: "sameWrap s t \<Longrightarrow> sameWrap t u \<Longrightarrow> sameWrap s u"
  by (simp add: sameWrap_def)

lemma sameWrap_actionsAt: "sameWrap s s' \<Longrightarrow> actionsAt m k s' = actionsAt m k s"
  by (simp add: sameWrap_def actionsAt_def)

lemma sameWrap_touchMode [simp]: "sameWrap s (touchMode m s)"
  by (auto simp: sameWrap_def touchMode_def modeActions_def update_conv')

lemma sameWrap_conf:
  assumes "sameWrap s s'"
  shows "typed_config s' = typed_config s" "inter_ok s' = inter_ok s" "avail_ok s' = avail_ok s"
    "confInv s' = confInv s" "timerInv s' = timerInv s" "queue_ok s' = queue_ok s" "statuses s' = statuses s"
    "task_ok s' t = task_ok s t" "inter_configured s' = inter_configured s" "wf_nodes s' = wf_nodes s"
proof -
  have e: "interAction s' = interAction s" "resourceNodeInfo s' = resourceNodeInfo s"
      "socperfQueue s' = socperfQueue s" "nextHandle s' = nextHandle s"
      "modeActions DEFAULT_CONFIG_MODE s' = modeActions DEFAULT_CONFIG_MODE s"
    using assms by (simp_all add: sameWrap_def)
  show t: "typed_config s' = typed_config s"
    by (simp add: typed_config_def sameWrap_actionsAt [OF assms])
  show i: "inter_ok s' = inter_ok s" by (simp add: inter_ok_def e)
  show a: "avail_ok s' = avail_ok s" by (rule avail_ok_cong [OF e(2)])
  show "confInv s' = confInv s" by (simp add: confInv_def t i a)
  have p: "pendingOf s' = pendingOf s" by (simp add: pendingOf_def e)
  then have "timers j s' = timers j s" for j by (simp add: timers_def sq.tasks_of_def)
  moreover have "sq.handles_ok s' = sq.handles_ok s" by (simp add: sq.handles_ok_def p e)
  ultimately show "timerInv s' = timerInv s" by (simp add: timerInv_def e)
  show tk: "task_ok s' t = task_ok s t" for t by (rule task_ok_cong) (simp_all add: e)
  show "queue_ok s' = queue_ok s" by (simp add: queue_ok_def p tk)
  show "statuses s' = statuses s" by (simp add: statuses_def e)
  show "inter_configured s' = inter_configured s" by (simp add: inter_configured_def e)
  show "wf_nodes s' = wf_nodes s" by (simp add: wf_nodes_def e)
qed

lemma sameWrap_wrapInv:
  assumes "sameWrap s s'" and "wrapInv s"
  shows "wrapInv s'"
proof -
  have e: "resourceNodeInfo s' = resourceNodeInfo s" "resStatusInfo s' = resStatusInfo s"
    "powerLimitBoost s' = powerLimitBoost s" "thermalLimitBoost s' = thermalLimitBoost s"
    "reportFunc s' = reportFunc s" "reports s' = reports s" "weakInteractionStatus s' = weakInteractionStatus s"
    "boostResCnt s' = boostResCnt s"
    using assms(1) by (simp_all add: sameWrap_def)
  show ?thesis
    using assms(2) resInv_cong [OF e(1-4)] inSync_cong [OF e(1,5,2,6)]
    by (simp add: wrapInv_def midInv_def sameWrap_conf [OF assms(1)] weakOnlyIdle_def idle_def e)
qed

subsection \<open>Configurations without loose ends\<close>

text \<open>
  No command maps to a null pointer, and every command another entry refers to (the thermal command of
  an action, the command of an interaction) is configured. The loader checks neither.
\<close>

definition no_null :: "'a SocPerfConfig_scheme \<Rightarrow> bool" where
  "no_null s \<longleftrightarrow> (\<forall>m k. map_of (modeActions m s) k \<noteq> Some None)"

definition thermal_configured :: "'a SocPerfConfig_scheme \<Rightarrow> bool" where
  "thermal_configured s \<longleftrightarrow> (\<forall>m k as. actionsAt m k s = Some as \<longrightarrow>
     (\<forall>ac\<in>set (as_actionList as). ac_thermalCmdId ac \<noteq> INVALID_THERMAL_CMD_ID \<longrightarrow>
        map_of (modeActions DEFAULT_CONFIG_MODE s) (ac_thermalCmdId ac) \<noteq> None))"

definition closed_config :: "'a SocPerfConfig_scheme \<Rightarrow> bool" where
  "closed_config s \<longleftrightarrow> no_null s \<and> thermal_configured s \<and> inter_configured s"

lemma sameWrap_closed: "sameWrap s s' \<Longrightarrow> closed_config s' = closed_config s"
  unfolding closed_config_def no_null_def thermal_configured_def
  by (simp add: sameWrap_actionsAt sameWrap_conf) (simp add: sameWrap_def)

definition limits_ok :: "'a SocPerf_scheme \<Rightarrow> bool" where
  "limits_ok s \<longleftrightarrow> length (limitRequest s) = 5 \<and> (\<forall>m\<in>set (limitRequest s). \<forall>(k, v)\<in>set m. in_int64 v)"

text \<open>A command that the lookups of the device mode find.\<close>

definition known :: "int \<Rightarrow> 'a SocPerf_scheme \<Rightarrow> bool" where
  "known k s \<longleftrightarrow> map_of (modeActions (GetDeviceMode s) s) k \<noteq> None
     \<or> map_of (modeActions DEFAULT_CONFIG_MODE s) k \<noteq> None"

lemma actionsAt_Some:
  assumes "no_null s" and "map_of (modeActions m s) k \<noteq> None"
  obtains as where "actionsAt m k s = Some as"
proof -
  obtain p where p: "map_of (modeActions m s) k = Some p" using assms(2) by auto
  then obtain as where "p = Some as" using assms(1) unfolding no_null_def by (cases p) auto
  with p show thesis by (intro that) (simp add: actionsAt_def ptrAt_def)
qed

lemma GetActionsInfo_known:
  assumes "no_null s" and "known k s"
  obtains as m where "GetActionsInfo k s = (Some as, s)" and "actionsAt m k s = Some as"
proof (cases "map_of (modeActions (GetDeviceMode s) s) k = None")
  case True
  then have d: "map_of (modeActions DEFAULT_CONFIG_MODE s) k \<noteq> None" using assms(2) by (simp add: known_def)
  obtain as where "actionsAt DEFAULT_CONFIG_MODE k s = Some as" by (rule actionsAt_Some [OF assms(1) d])
  then show thesis using True touchActions_id [OF d] by (intro that) (simp_all add: GetActionsInfo_def)
next
  case False
  obtain as where "actionsAt (GetDeviceMode s) k s = Some as" by (rule actionsAt_Some [OF assms(1) False])
  then show thesis using False by (intro that) (simp_all add: GetActionsInfo_def)
qed

lemma modeCmd_known:
  assumes "\<forall>k. map_of info k \<noteq> Some None"
  shows "okE (\<lambda>m. m = cmdId \<or> map_of info m \<noteq> None) (modeCmd cmdId tag info modes mms)"
proof (induction mms)
  case (Cons mm mms)
  show ?case
  proof (cases "map_of info (mm_cmdId mm)")
    case None
    then show ?thesis using Cons.IH by simp
  next
    case (Some p)
    then obtain as where "p = Some as" using assms by (cases p) auto
    then show ?thesis using Cons.IH Some by simp
  qed
qed simp

lemma MatchDeviceModeCmd_known:
  assumes "no_null s"
  shows "okE (\<lambda>m. m = cmdId \<or> map_of (modeActions DEFAULT_CONFIG_MODE s) m \<noteq> None) (MatchDeviceModeCmd cmdId tag s)"
proof (cases "map_of (configPerfActionsInfo s) DEFAULT_CONFIG_MODE")
  case (Some info)
  have m: "modeActions DEFAULT_CONFIG_MODE s = info" using Some by (simp add: modeActions_def)
  have null: "\<forall>k. map_of info k \<noteq> Some None" using assms m unfolding no_null_def by metis
  then have "map_of info cmdId \<noteq> Some None" by blast
  then show ?thesis
    using Some modeCmd_known [OF null] by (auto simp: MatchDeviceModeCmd_def m split: option.split)
qed (simp add: MatchDeviceModeCmd_def)

lemma GetMatchCmdId_known:
  assumes "no_null s"
  shows "okE (\<lambda>(m, s'). (s' = s \<or> s' = touchMode DEFAULT_CONFIG_MODE s) \<and> (m \<noteq> INVALID_CMD_ID \<longrightarrow> known m s'))
    (GetMatchCmdId cmdId tag s)"
proof -
  have known_touch: "known k (touchMode m s) = known k s" for k m
    using sameWrap_touchMode [of s m] by (simp add: known_def sameWrap_def GetDeviceMode_def touchMode_def)
  have null: "no_null (touchMode m s)" for m
    using assms sameWrap_touchMode [of s m] by (simp add: no_null_def sameWrap_def)
  have step: "okE (\<lambda>(m, s'). (s' = s \<or> s' = touchMode DEFAULT_CONFIG_MODE s) \<and> (m \<noteq> INVALID_CMD_ID \<longrightarrow> known m s'))
     (bindE (MatchDeviceModeCmd cmdId tag t) (\<lambda>m. Inr (m, t)))"
    if "t = s \<or> t = touchMode DEFAULT_CONFIG_MODE s" and "known cmdId t" for t
  proof -
    have "no_null t" using that(1) assms null by auto
    from MatchDeviceModeCmd_known [OF this, of cmdId tag] that show ?thesis
      by (auto elim!: okE_bind simp: known_def)
  qed
  let ?in = "map_of (modeActions (GetDeviceMode s) s) cmdId \<noteq> None"
  define t where "t = (if ?in then s else touchMode DEFAULT_CONFIG_MODE s)"
  have t: "t = s \<or> t = touchMode DEFAULT_CONFIG_MODE s" by (simp add: t_def)
  have k: "known cmdId t" if "\<not> (\<not> ?in \<and> map_of (modeActions DEFAULT_CONFIG_MODE t) cmdId = None)"
  proof (cases ?in)
    case True
    then show ?thesis by (simp add: t_def known_def)
  next
    case False
    then show ?thesis using that by (simp add: known_def)
  qed
  show ?thesis
    unfolding GetMatchCmdId_def Let_def t_def [symmetric]
    using step [OF t k] t k by simp
qed

subsection \<open>The items of a command\<close>

text \<open>What a loop that builds items keeps: only \<open>nextRef\<close> moves, the items are well-formed.\<close>

definition buildFrame :: "'a SocPerf_scheme \<Rightarrow> 'a SocPerf_scheme \<Rightarrow> bool" where
  "buildFrame s t \<longleftrightarrow> (\<exists>r. t = s\<lparr>nextRef := r\<rparr>)"

definition items_ok :: "'a SocPerf_scheme \<Rightarrow> ResActionItem list \<Rightarrow> bool" where
  "items_ok s items \<longleftrightarrow> (\<forall>it\<in>set items. typed_item it \<and> it_resId it \<in> resIds s)"

lemma buildFrame_sel:
  assumes "buildFrame s t"
  shows "sameWrap s t" "limits_ok t = limits_ok s" "known k t = known k s" "no_null t = no_null s"
    "actionsAt m k t = actionsAt m k s" "items_ok t items = items_ok s items" "thermalLvl t = thermalLvl s"
    "modeActions m t = modeActions m s"
  using assms
  by (auto simp: buildFrame_def sameWrap_def limits_ok_def known_def GetDeviceMode_def modeActions_def
      no_null_def actionsAt_def items_ok_def)

lemma buildFrame_nextRef: "buildFrame s t \<Longrightarrow> buildFrame s (t\<lparr>nextRef := r\<rparr>)"
  by (auto simp: buildFrame_def)

lemma buildItems_ok:
  assumes "\<forall>v\<in>set vs. in_int64 v" and "in_int64 e" and "0 \<le> type" and "type < ACTION_TYPE_MAX"
  shows "items_ok s (buildItems s d type onOff cmd e interact ref (varPairs vs))"
  unfolding items_ok_def
proof
  fix it
  assume it: "it \<in> set (buildItems s d type onOff cmd e interact ref (varPairs vs))"
  have "item_of s (snd ` set (varPairs vs)) type onOff e interact it" by (rule buildItems_items(1) [OF it])
  then show "typed_item it \<and> it_resId it \<in> resIds s"
    using assms varPairs_values [of vs] by (auto simp: item_of_def typed_item_def typed_action_def)
qed

lemma nearestAction_mem: "nearestAction lvl as a = Some b \<Longrightarrow> a = Some b \<or> b \<in> set as"
  by (induction as arbitrary: a) (auto split: if_splits)

lemma DoPerfRequestThremalLvl_ok:
  assumes "no_null s" and "typed_config s" and "known (ac_thermalCmdId origin) s" and "in_int64 e"
    and items: "items_ok s items"
    and r: "DoPerfRequestThremalLvl cmdId origin onOff items e s = (items', s')"
  shows "buildFrame s s' \<and> items_ok s items'"
proof (cases "items = []")
  case True
  then show ?thesis using r by (auto simp: DoPerfRequestThremalLvl_def buildFrame_def items_ok_def intro: exI [of _ "nextRef s"])
next
  case False
  obtain config m where g: "GetActionsInfo (ac_thermalCmdId origin) s = (Some config, s)"
    and at: "actionsAt m (ac_thermalCmdId origin) s = Some config"
    by (rule GetActionsInfo_known [OF assms(1,3)])
  show ?thesis
  proof (cases "nearestAction (thermalLvl s) (as_actionList config) None")
    case None
    then show ?thesis using r g False items
      by (auto simp: DoPerfRequestThremalLvl_def buildFrame_def intro: exI [of _ "nextRef s"])
  next
    case (Some b)
    then have "b \<in> set (as_actionList config)" using nearestAction_mem [OF Some] by simp
    then have v: "\<forall>v\<in>set (ac_variable b). in_int64 v" using assms(2) at unfolding typed_config_def by blast
    show ?thesis
      using r g False Some items
        buildItems_ok [OF v assms(4), of ACTION_TYPE_PERFLVL s "ac_duration origin" onOff cmdId True "nextRef s"]
      by (auto simp: DoPerfRequestThremalLvl_def buildFrame_def items_ok_def Let_def)
  qed
qed

lemma freqAction_ok:
  assumes frame: "buildFrame s t" and items: "items_ok s items" and "no_null s" and "typed_config s"
    and v: "\<forall>v\<in>set (ac_variable ac). in_int64 v"
    and th: "ac_thermalCmdId ac \<noteq> INVALID_THERMAL_CMD_ID \<Longrightarrow> known (ac_thermalCmdId ac) s"
    and type: "0 \<le> type" "type < ACTION_TYPE_MAX"
    and r: "freqAction curMs as onOff type ac (items, t) = (items', t')"
  shows "buildFrame s t' \<and> items_ok s items'"
proof (cases "ac_duration ac = 0 \<and> onOff = EVENT_INVALID")
  case True
  then show ?thesis using r frame items by (simp add: freqAction_def)
next
  case False
  define e where "e = (if ac_duration ac = 0 then MAX_INT_VALUE else to_int64 (curMs + ac_duration ac))"
  have e: "in_int64 e" using in_int64_to_int64 by (simp add: e_def in_int64_def)
  define new where "new = buildItems t (ac_duration ac) type onOff (as_id as) e (as_interaction as) (nextRef t)
    (varPairs (ac_variable ac))"
  define u where "u = t\<lparr>nextRef := nextRef t + length new\<rparr>"
  have fu: "buildFrame s u" unfolding u_def by (rule buildFrame_nextRef [OF frame])
  have new: "items_ok s (items @ new)"
    using buildItems_ok [OF v e type, of t "ac_duration ac" onOff "as_id as" "as_interaction as" "nextRef t"] items
    unfolding new_def [symmetric] buildFrame_sel(6) [OF frame] by (auto simp: items_ok_def)
  have eq: "freqAction curMs as onOff type ac (items, t) =
      (if ac_thermalCmdId ac \<noteq> INVALID_THERMAL_CMD_ID \<and> thermalLvl u \<ge> minThermalLvl u
       then DoPerfRequestThremalLvl (as_id as) ac onOff (items @ new) e u else (items @ new, u))"
    using False by (auto simp: freqAction_def Let_def e_def new_def u_def)
  show ?thesis
  proof (cases "ac_thermalCmdId ac \<noteq> INVALID_THERMAL_CMD_ID \<and> thermalLvl u \<ge> minThermalLvl u")
    case True
    note fs = buildFrame_sel [OF fu]
    have "buildFrame u t' \<and> items_ok u items'"
    proof (rule DoPerfRequestThremalLvl_ok)
      show "typed_config u" using assms(4) sameWrap_conf(1) [OF fs(1)] by simp
      show "DoPerfRequestThremalLvl (as_id as) ac onOff (items @ new) e u = (items', t')"
        using eq r True by simp
    qed (use True th fs e new assms(3) in simp_all)
    then show ?thesis using fu fs(6) by (auto simp: buildFrame_def)
  next
    case False
    then show ?thesis using eq r fu new by auto
  qed
qed

lemma freqActions_ok:
  assumes "no_null s" and "typed_config s" and type: "0 \<le> type" "type < ACTION_TYPE_MAX"
    and acs: "\<And>ac. ac \<in> set acs \<Longrightarrow> (\<forall>v\<in>set (ac_variable ac). in_int64 v)
       \<and> (ac_thermalCmdId ac \<noteq> INVALID_THERMAL_CMD_ID \<longrightarrow> known (ac_thermalCmdId ac) s)"
    and "buildFrame s t" and "items_ok s items"
  shows "\<exists>items' t'. fold (freqAction curMs as onOff type) acs (items, t) = (items', t')
     \<and> buildFrame s t' \<and> items_ok s items'"
  using assms(5-)
proof (induction acs arbitrary: t items)
  case (Cons ac acs)
  obtain items1 t1 where step: "freqAction curMs as onOff type ac (items, t) = (items1, t1)" by fastforce
  have "buildFrame s t1 \<and> items_ok s items1"
    by (rule freqAction_ok [OF Cons.prems(2,3) assms(1,2) _ _ type step]) (use Cons.prems(1) in auto)
  then have "\<exists>items' t'. fold (freqAction curMs as onOff type) acs (items1, t1) = (items', t')
     \<and> buildFrame s t' \<and> items_ok s items'"
    using Cons.prems(1) by (intro Cons.IH) auto
  then show ?case using step by simp
qed simp

text \<open>The groups of \<open>PostDelayTask\<close>: for each duration that is not zero, the items with it, in order.\<close>

definition withDuration :: "int \<Rightarrow> ResActionItem list \<Rightarrow> ResActionItem list" where
  "withDuration d items = filter (\<lambda>it. ra_duration (it_resAction it) = d) items"

lemma groupByDuration_spec:
  assumes "distinct (map fst m)"
  shows "distinct (map fst (groupByDuration items m)) \<and>
    map_of (groupByDuration items m) d =
      (if d = 0 \<or> withDuration d items = [] then map_of m d
       else Some ((case map_of m d of None \<Rightarrow> [] | Some v \<Rightarrow> v) @ withDuration d items))"
  using assms
proof (induction items m rule: groupByDuration.induct)
  case (2 item rest m)
  let ?k = "ra_duration (it_resAction item)"
  let ?m = "AList.update ?k ((case map_of m ?k of None \<Rightarrow> [] | Some v \<Rightarrow> v) @ [item]) m"
  show ?case
  proof (cases "?k = 0")
    case True
    then show ?thesis using 2 by (auto simp: Let_def withDuration_def)
  next
    case False
    have "distinct (map fst ?m)" using "2.prems" by (rule distinct_update)
    from "2.IH"(2) [OF refl False this] show ?thesis
      using False by (auto simp: Let_def withDuration_def update_conv')
  qed
qed (simp add: withDuration_def)

lemma groupByDuration_items:
  assumes "(d, g) \<in> set (groupByDuration items [])"
  shows "d \<noteq> 0" and "g = withDuration d items"
proof -
  have "map_of (groupByDuration items []) d = Some g"
    using assms conjunct1 [OF groupByDuration_spec [of "[]" items d]] by (intro map_of_is_SomeI) simp_all
  then show "d \<noteq> 0" and "g = withDuration d items"
    using groupByDuration_spec [of "[]" items d] by (auto split: if_splits)
qed

subsection \<open>The requests\<close>

datatype Request =
    ReqPerf int int int string
  | ReqPerfEx int int int bool string
  | ReqPowerLimit bool string
  | ReqThermalLimit bool string
  | ReqLimit int "int list" "int list" string
  | ReqStatus bool string
  | ReqThermalLevel int
  | ReqDeviceMode string bool

fun request :: "Request \<Rightarrow> 'a SocPerf_scheme \<Rightarrow> error + 'a SocPerf_scheme" where
  "request (ReqPerf now curMs cmdId msg) s = PerfRequest now curMs cmdId msg s"
| "request (ReqPerfEx now curMs cmdId onOffTag msg) s = PerfRequestEx now curMs cmdId onOffTag msg s"
| "request (ReqPowerLimit onOffTag msg) s = Inr (PowerLimitBoost onOffTag msg s)"
| "request (ReqThermalLimit onOffTag msg) s = Inr (ThermalLimitBoost onOffTag msg s)"
| "request (ReqLimit clientId tags configs msg) s = Inr (LimitRequest clientId tags configs msg s)"
| "request (ReqStatus status msg) s = Inr (SetRequestStatus status msg s)"
| "request (ReqThermalLevel level) s = Inr (SetThermalLevel level s)"
| "request (ReqDeviceMode mode status) s = RequestDeviceMode mode status s"

text \<open>The values of a limit request are \<open>int64_t\<close>.\<close>

fun typed_request :: "Request \<Rightarrow> bool" where
  "typed_request (ReqLimit clientId tags configs msg) = list_all in_int64 configs"
| "typed_request _ = True"

lemma limits_ok_cong: "limitRequest s' = limitRequest s \<Longrightarrow> limits_ok s' = limits_ok s"
  by (simp add: limits_ok_def)

lemma limitRequest_submit [simp]: "limitRequest (submit d t s) = limitRequest s"
  by (simp add: submit_def submit_h_def)

lemma limits_okD:
  assumes "limits_ok s" and "0 \<le> c" and "c < ACTION_TYPE_MAX" and "map_of (limitsOf c s) k = Some v"
  shows "in_int64 v"
proof -
  have "limitsOf c s \<in> set (limitRequest s)"
    using assms(1-3) unfolding limits_ok_def limitsOf_def by (intro nth_mem) auto
  moreover have "(k, v) \<in> set (limitsOf c s)" using assms(4) by (rule map_of_SomeD)
  ultimately show ?thesis using assms(1) unfolding limits_ok_def by blast
qed

lemma limits_ok_setLimits:
  assumes "limits_ok s" and "\<forall>(k, v)\<in>set m. in_int64 v"
  shows "limits_ok (setLimits c m s)"
proof -
  have "\<forall>m'\<in>set ((limitRequest s)[nat c := m]). \<forall>(k, v)\<in>set m'. in_int64 v"
  proof
    fix m'
    assume "m' \<in> set ((limitRequest s)[nat c := m])"
    then have "m' = m \<or> m' \<in> set (limitRequest s)" using set_update_subset_insert by fast
    then show "\<forall>(k, v)\<in>set m'. in_int64 v" using assms unfolding limits_ok_def by blast
  qed
  then show ?thesis using assms(1) by (simp add: limits_ok_def setLimits_def)
qed

lemma limitsOf_typed:
  assumes "limits_ok s" and "0 \<le> c" and "c < ACTION_TYPE_MAX"
  shows "\<forall>(k, v)\<in>set (limitsOf c s). in_int64 v"
proof -
  have "limitsOf c s \<in> set (limitRequest s)"
    using assms unfolding limits_ok_def limitsOf_def by (intro nth_mem) auto
  then show ?thesis using assms(1) unfolding limits_ok_def by blast
qed

lemma limitType_range:
  "0 \<le> c \<Longrightarrow> c < ACTION_TYPE_MAX \<Longrightarrow> 0 \<le> limitType c \<and> limitType c < ACTION_TYPE_MAX"
  by (simp add: limitType_def)

lemma matchDeviceMode_frame:
  "sameWrap s (snd (MatchDeviceMode m b items s)) \<and> limitRequest (snd (MatchDeviceMode m b items s)) = limitRequest s"
  by (auto simp: MatchDeviceMode_def sameWrap_def modeActions_def split: prod.split)

lemma CheckTimeInterval_frame:
  "sameWrap s (snd (CheckTimeInterval now b k s)) \<and> limitRequest (snd (CheckTimeInterval now b k s)) = limitRequest s"
  by (auto simp: CheckTimeInterval_def Let_def sameWrap_def modeActions_def split: option.split)

subsection \<open>Invariants every request keeps\<close>

locale request_safe =
  fixes P :: "SocPerf \<Rightarrow> bool"
  assumes P_same: "P s \<Longrightarrow> sameWrap s s' \<Longrightarrow> limits_ok s' \<Longrightarrow> P s'"
    and P_submit: "P s \<Longrightarrow> task_ok s t \<Longrightarrow>  \<forall>j. t \<noteq> TaskWeakInteractionTimer j \<Longrightarrow> 0 \<le> d \<Longrightarrow> P (submit d t s)"
    and P_static: "P s \<Longrightarrow> typed_config s \<and> closed_config s \<and> limits_ok s"
begin

lemma P_own: "P s \<Longrightarrow> sameWrap s s' \<Longrightarrow> limitRequest s' = limitRequest s \<Longrightarrow> P s'"
  using P_same P_static limits_ok_cong by blast

lemma P_pack:
  assumes "P s" and items: "items_ok s items"
  shows "P (PostDelayTask items (DoFreqActionPack items s))"
proof -
  have pack: "P (DoFreqActionPack items s)"
    using assms by (auto simp: DoFreqActionPack_def items_ok_def intro!: P_submit)
  have "P (fold (\<lambda>(d, g). submit (delayOfDuration d) (TaskPostDelay g)) gs t)"
    if "P t" and "resIds t = resIds s" and "\<forall>(d, g)\<in>set gs. set g \<subseteq> set items" for gs t
    using that
  proof (induction gs arbitrary: t)
    case (Cons dg gs)
    obtain d g where dg: "dg = (d, g)" by (cases dg)
    have "task_ok t (TaskPostDelay g)" using Cons.prems items by (auto simp: dg items_ok_def)
    moreover have "0 \<le> delayOfDuration d" by (simp add: delayOfDuration_def to_uint64_def)
    ultimately have "P (submit (delayOfDuration d) (TaskPostDelay g) t)"
      using Cons.prems(1) by (intro P_submit) simp_all
    then show ?case
      using Cons.IH [of "submit (delayOfDuration d) (TaskPostDelay g) t"] Cons.prems
      by (simp add: dg submit_def submit_h_def)
  qed simp
  moreover have "resIds (DoFreqActionPack items s) = resIds s"
    by (simp add: DoFreqActionPack_def submit_def submit_h_def)
  moreover have "\<forall>(d, g)\<in>set (groupByDuration items []). set g \<subseteq> set items"
    using groupByDuration_items(2) [of _ _ items] by (fastforce simp: withDuration_def)
  ultimately show ?thesis using pack unfolding PostDelayTask_def by blast
qed

lemma DoFreqActions_ok:
  assumes "P s" and at: "actionsAt m k s = Some as" and type: "0 \<le> type" "type < ACTION_TYPE_MAX"
  shows "okE P (DoFreqActions curMs (Some as) onOff type s)"
proof -
  have st: "typed_config s" "no_null s" "thermal_configured s"
    using P_static [OF assms(1)] by (simp_all add: closed_config_def)
  have acs: "(\<forall>v\<in>set (ac_variable ac). in_int64 v)
      \<and> (ac_thermalCmdId ac \<noteq> INVALID_THERMAL_CMD_ID \<longrightarrow> known (ac_thermalCmdId ac) s)"
    if "ac \<in> set (as_actionList as)" for ac
    using st(1,3) at that unfolding typed_config_def thermal_configured_def known_def by blast
  have "buildFrame s s" by (auto simp: buildFrame_def intro: exI [of _ "nextRef s"])
  moreover have "items_ok s []" by (simp add: items_ok_def)
  ultimately obtain items t where f: "fold (freqAction curMs as onOff type) (as_actionList as) ([], s) = (items, t)"
      and t: "buildFrame s t" "items_ok s items"
    using freqActions_ok [OF st(2,1) type acs] by blast
  have "P t" using P_same [OF assms(1)] buildFrame_sel(1,2) [OF t(1)] P_static [OF assms(1)] by simp
  moreover have "items_ok t items" using t buildFrame_sel(6) by blast
  ultimately show ?thesis using f by (simp add: DoFreqActions_def P_pack)
qed

lemma checked_request_ok:
  assumes "P s" and rest: "\<And>t. P t \<Longrightarrow> okE P (f t)"
  shows "okE P (case CheckTimeInterval now b k s of (pass, s) \<Rightarrow> if \<not> pass then Inr s else f s)"
proof -
  have "P (snd (CheckTimeInterval now b k s))"
    using CheckTimeInterval_frame [of s now b k] by (auto intro: P_own [OF assms(1)])
  then show ?thesis using rest by (auto split: prod.split)
qed

lemma matched_request_ok:
  assumes "P s" and count: "\<And>t. P t \<Longrightarrow> P (g t)"
  shows "okE P (bindE (GetMatchCmdId cmdId tag s) (\<lambda>(m, s). if m = INVALID_CMD_ID then Inr s
     else case GetActionsInfo m s of (actions, s) \<Rightarrow>
       bindE (DoFreqActions curMs actions onOff ACTION_TYPE_PERF s) (\<lambda>s. Inr (g s))))"
proof (rule okE_bind [OF GetMatchCmdId_known])
  show "no_null s" using P_static [OF assms(1)] by (simp add: closed_config_def)
next
  fix x :: "int \<times> SocPerf"
  obtain m t where x: "x = (m, t)" by (cases x)
  assume "case x of (m, s') \<Rightarrow> (s' = s \<or> s' = touchMode DEFAULT_CONFIG_MODE s)
    \<and> (m \<noteq> INVALID_CMD_ID \<longrightarrow> known m s')"
  then have t: "t = s \<or> t = touchMode DEFAULT_CONFIG_MODE s" and k: "m \<noteq> INVALID_CMD_ID \<Longrightarrow> known m t"
    by (simp_all add: x)
  have Pt: "P t" using t P_own [OF assms(1) sameWrap_touchMode] assms(1) by (auto simp: touchMode_def)
  show "okE P (case x of (m, s) \<Rightarrow> if m = INVALID_CMD_ID then Inr s
     else case GetActionsInfo m s of (actions, s) \<Rightarrow>
       bindE (DoFreqActions curMs actions onOff ACTION_TYPE_PERF s) (\<lambda>s. Inr (g s)))"
  proof (cases "m = INVALID_CMD_ID")
    case False
    have "no_null t" using P_static [OF Pt] by (simp add: closed_config_def)
    then obtain as md where g: "GetActionsInfo m t = (Some as, t)" and at: "actionsAt md m t = Some as"
      using GetActionsInfo_known k [OF False] by blast
    have "okE P (DoFreqActions curMs (Some as) onOff ACTION_TYPE_PERF t)"
      by (rule DoFreqActions_ok [OF Pt at]) simp_all
    from okE_bind [OF this, of P "\<lambda>s. Inr (g s)"] show ?thesis
      using False count by (simp add: x g)
  qed (simp add: x Pt)
qed

lemma P_counts:
  assumes "P s"
  shows "P (UpdateDailyCmdIdCount k s)" and "P (UpdateCmdIdCount k s)"
  by (rule P_own [OF assms]; simp add: UpdateDailyCmdIdCount_def UpdateCmdIdCount_def Let_def sameWrap_def
      modeActions_def)+

lemma PerfRequest_ok: "P s \<Longrightarrow> okE P (PerfRequest now curMs cmdId msg s)"
  unfolding PerfRequest_def by (simp add: checked_request_ok matched_request_ok P_counts)

lemma PerfRequestEx_ok: "P s \<Longrightarrow> okE P (PerfRequestEx now curMs cmdId b msg s)"
  unfolding PerfRequestEx_def by (simp add: checked_request_ok matched_request_ok P_counts)

end

text \<open>Limit requests: every action submitted and every value recorded is in range.\<close>

lemma if_okE: "(c \<Longrightarrow> okE P m) \<Longrightarrow> (\<not> c \<Longrightarrow> okE P m') \<Longrightarrow> okE P (if c then m else m')"
  by simp

context request_safe
begin

lemma P_limit_action:
  assumes "P s" and "in_int64 v" and "0 \<le> c" and "c < ACTION_TYPE_MAX"
  shows "P (UpdateLimitStatus ev (new_ResAction r v 0 (limitType c) b k MAX_INT_VALUE) resId (s\<lparr>nextRef := n\<rparr>))"
    (is "P (UpdateLimitStatus ev ?a resId ?s)")
proof -
  have "P ?s" by (rule P_own [OF assms(1)]) (simp_all add: sameWrap_def modeActions_def)
  moreover have "task_ok ?s (TaskUpdateLimitStatus ev ?a resId)"
    using assms(2) limitType_range [OF assms(3,4)]
    by (simp add: typed_action_def new_ResAction_def) (simp add: in_int64_def)
  ultimately show ?thesis unfolding UpdateLimitStatus_def by (intro P_submit) simp_all
qed

lemma P_setLimits:
  assumes "P s" and "\<forall>(k, v)\<in>set m. in_int64 v"
  shows "P (setLimits c m s)"
proof (rule P_same [OF assms(1)])
  show "sameWrap s (setLimits c m s)" by (simp add: sameWrap_def setLimits_def modeActions_def)
  show "limits_ok (setLimits c m s)" using P_static [OF assms(1)] assms(2) by (simp add: limits_ok_setLimits)
qed

lemma SendLimitRequestEventOff_ok:
  assumes "P s" and c: "0 \<le> c" "c < ACTION_TYPE_MAX"
  shows "P (SendLimitRequestEventOff c resId ev s)"
proof (cases "map_of (limitsOf c s) resId")
  case (Some v)
  let ?s = "UpdateLimitStatus ev (new_ResAction (nextRef s) v 0 (limitType c) EVENT_OFF (limitCmdId c) MAX_INT_VALUE)
      resId (s\<lparr>nextRef := Suc (nextRef s)\<rparr>)"
  have lim: "limits_ok s" using P_static [OF assms(1)] by simp
  have "P ?s" by (rule P_limit_action [OF assms(1) limits_okD [OF lim c Some] c])
  moreover have "limitsOf c ?s = limitsOf c s"
    by (simp add: UpdateLimitStatus_def limitsOf_def submit_def submit_h_def)
  moreover have "\<forall>(k, v)\<in>set (AList.delete resId (limitsOf c s)). in_int64 v"
    using limitsOf_typed [OF lim c] by (auto simp: AList.delete_eq)
  ultimately have "P (setLimits c (AList.delete resId (limitsOf c ?s)) ?s)" by (simp add: P_setLimits)
  then show ?thesis using Some assms(1) by (simp add: SendLimitRequestEventOff_def Let_def)
qed (simp add: SendLimitRequestEventOff_def assms(1))

lemma SendLimitRequestEventOn_ok:
  assumes "P s" and c: "0 \<le> c" "c < ACTION_TYPE_MAX" and v: "in_int64 v"
  shows "P (SendLimitRequestEventOn c resId v ev s)"
proof -
  let ?s = "UpdateLimitStatus ev (new_ResAction (nextRef s) v 0 (limitType c) EVENT_ON (limitCmdId c) MAX_INT_VALUE)
      resId (s\<lparr>nextRef := Suc (nextRef s)\<rparr>)"
  have s: "P ?s" by (rule P_limit_action [OF assms(1) v c])
  have "in_int64 (to_int32 v)" using in_int32_to_int32 [of v] by (auto simp: in_int32_def in_int64_def)
  moreover have "\<forall>(k, w)\<in>set (limitsOf c ?s). in_int64 w" using limitsOf_typed [OF _ c] P_static [OF s] by blast
  ultimately have "\<forall>(k, w)\<in>set (AList.update resId (to_int32 v) (limitsOf c ?s)). in_int64 w"
    using set_alist_update [of resId "to_int32 v" "limitsOf c ?s"] by blast
  then show ?thesis
    using s assms(1) by (auto simp: SendLimitRequestEventOn_def Let_def intro: P_setLimits)
qed

lemma SendLimitRequestEvent_ok:
  assumes "P s" and c: "0 \<le> c" "c < ACTION_TYPE_MAX" and "in_int64 (snd kv)"
  shows "P (SendLimitRequestEvent c kv s)"
  using assms
  by (auto simp: SendLimitRequestEvent_def Let_def split: prod.split
      intro!: SendLimitRequestEventOn_ok SendLimitRequestEventOff_ok)

lemma LimitRequest_ok:
  assumes "P s" and v: "list_all in_int64 configs"
  shows "P (LimitRequest clientId tags configs msg s)"
proof -
  have "P (fold (SendLimitRequestEvent clientId) kvs t)"
    if "P t" and "\<forall>kv\<in>set kvs. in_int64 (snd kv)" and "0 < clientId" "clientId < ACTION_TYPE_MAX" for kvs t
    using that by (induction kvs arbitrary: t) (simp_all add: SendLimitRequestEvent_ok)
  moreover have "\<forall>kv\<in>set (zip tags configs). in_int64 (snd kv)"
    using v by (auto simp: list_all_iff dest: set_zip_rightD)
  ultimately show ?thesis using assms(1) by (simp add: LimitRequest_def)
qed

lemma RequestDeviceMode_ok:
  assumes "P s"
  shows "okE P (RequestDeviceMode mode b s)"
proof -
  have sub: "P (submit 0 (TaskWeakInteractionStatus x) t)" "P (submit 0 (TaskPerformanceMode x) t)"
    if "P t" for t x
    using that by (simp_all add: P_submit)
  have scen: "P (reportScenario ty nm b sc t)" if "P t" for ty nm sc t
    using matchDeviceMode_frame [of t nm b "sr_items sc"]
    by (intro P_own [OF that])
      (auto simp: reportScenario_def Let_def sameWrap_def modeActions_def split: prod.split)
  have tail: "okE P (case map_of (sceneResourceInfo t) ty of None \<Rightarrow> Inr t
      | Some sc \<Rightarrow> Inr (reportScenario ty nm b sc t))" if "P t" for ty nm t
    using that scen by (simp split: option.split)
  show ?thesis
    unfolding RequestDeviceMode_def SetWeakInteractionStatus_def SetPerformanceModeStatus_def Let_def Split_char
      option.case
    by (intro if_okE tail) (simp_all add: assms sub)
qed

lemma PowerLimitBoost_ok:
  assumes "P s"
  shows "P (PowerLimitBoost b msg s)"
proof -
  have "P (s\<lparr>batteryLimitStatus := b\<rparr>)" "P (s\<lparr>powerLimitStatus := b\<rparr>)"
    by (rule P_own [OF assms]; simp add: sameWrap_def modeActions_def)+
  then show ?thesis
    using assms by (simp add: PowerLimitBoost_def UpdatePowerLimitBoostFreq_def Let_def P_submit)
qed

lemma SetRequestStatus_ok:
  assumes "P s"
  shows "P (SetRequestStatus b msg s)"
proof -
  have "P (s\<lparr>perfRequestEnable := c\<rparr>)" for c by (rule P_own [OF assms]; simp add: sameWrap_def modeActions_def)
  then show ?thesis
    by (simp add: SetRequestStatus_def ClearAllAliveRequest_def ClearAllAliveRequest_wrap_def Let_def P_submit)
qed

theorem request_ok:
  assumes "P s" and "typed_request r"
  shows "okE P (request r s)"
proof (cases r)
  case (ReqThermalLimit b msg)
  then show ?thesis using assms(1)
    by (auto simp: ThermalLimitBoost_def UpdateThermalLimitBoostFreq_def intro!: P_submit)
next
  case (ReqThermalLevel l)
  then show ?thesis using assms(1)
    by (auto simp: SetThermalLevel_def intro!: P_own [of s] simp: sameWrap_def modeActions_def)
qed (use assms in \<open>simp_all add: PerfRequest_ok PerfRequestEx_ok PowerLimitBoost_ok SetRequestStatus_ok
    LimitRequest_ok RequestDeviceMode_ok\<close>)

end

end
