(* ===== verification/BoostCount.thy ===== *)
theory BoostCount
  imports TaskInvariant
begin

text \<open>
  \<open>boostResCnt\<close> counts the live interactive actions. \<open>liveCount\<close> is the count the lists of live
  actions contain; the operations on the lists keep the difference of the two, provided equal actions
  agree on being interactive (\<open>coherent\<close>). \<open>ClearAllAliveRequest\<close> empties the lists and leaves the
  counter, so afterwards the counter may claim actions that no longer exist.
\<close>

definition interactive :: "ResAction list \<Rightarrow> int" where
  "interactive as = int (length (filter ra_interaction as))"

definition statusCount :: "ResStatus \<Rightarrow> int" where
  "statusCount st = (\<Sum>as\<leftarrow>rs_resActionList st. interactive as)"

definition liveCount :: "'a SocPerfThreadWrap_scheme \<Rightarrow> int" where
  "liveCount s = (\<Sum>k\<in>resIds s. case stm s k of None \<Rightarrow> 0 | Some st \<Rightarrow> statusCount st)"

definition coherent :: "ResAction \<Rightarrow> ResAction list \<Rightarrow> bool" where
  "coherent a as \<longleftrightarrow> (\<forall>b\<in>set as. PartSame a b \<or> ra_ref a = ra_ref b \<longrightarrow> ra_interaction b = ra_interaction a)"

lemma interactive_simps [simp]:
  "interactive [] = 0" "interactive (a # as) = (if ra_interaction a then 1 else 0) + interactive as"
  "interactive (as @ bs) = interactive as + interactive bs"
  by (simp_all add: interactive_def)

lemma interactive_eraseFirst:
  assumes "\<forall>b\<in>set as. P b \<longrightarrow> ra_interaction b = i"
  shows "interactive (eraseFirst P as) = interactive as - (if list_ex P as \<and> i then 1 else 0)"
  using assms by (induction as) auto

lemma cntAfter_interactive:
  assumes "coherent a as"
  shows "cntAfter d a as = interactive (actionsAfter d a as) - interactive as"
proof -
  have i: "\<forall>b\<in>set as. sameRef a b \<longrightarrow> ra_interaction b = ra_interaction a"
    "\<forall>b\<in>set as. sameOn a b \<longrightarrow> ra_interaction b = ra_interaction a"
    "\<forall>b\<in>set as. TotalSame a b \<longrightarrow> ra_interaction b = ra_interaction a"
    using assms by (auto simp: coherent_def sameRef_def sameOn_def TotalSame_def PartSame_def)
  show ?thesis
    by (auto simp: cntAfter_def actionsAfter_def interactive_eraseFirst [OF i(1)]
        interactive_eraseFirst [OF i(2)] interactive_eraseFirst [OF i(3)])
qed

lemma sum_list_update:
  "i < length xs \<Longrightarrow> (\<Sum>x\<leftarrow>xs[i := y]. f x) = (\<Sum>x\<leftarrow>xs. f x) - f (xs ! i) + (f y :: int)"
  by (induction xs arbitrary: i) (auto split: nat.split)

lemma statusCount_setActionList:
  assumes "wf_status st" and "0 \<le> t" and "t < ACTION_TYPE_MAX"
  shows "statusCount (setActionList t as st) = statusCount st - interactive (actionsOf t st) + interactive as"
  using assms by (simp add: statusCount_def setActionList_def actionsOf_def wf_status_def sum_list_update)

definition countOf :: "ResStatus option \<Rightarrow> int" where
  "countOf x = (case x of None \<Rightarrow> 0 | Some st \<Rightarrow> statusCount st)"

lemma countOf_kept: "map_option kept x = map_option kept y \<Longrightarrow> countOf x = countOf y"
  by (cases x; cases y) (simp_all add: countOf_def kept_def statusCount_def)

lemma liveCount_countOf: "liveCount s = (\<Sum>k\<in>resIds s. countOf (stm s k))"
  by (simp add: liveCount_def countOf_def)

lemma liveCount_effect:
  assumes wf: "wf_wrap s" and st: "stm s k = Some st" and t: "0 \<le> t" "t < ACTION_TYPE_MAX"
    and nodes: "resourceNodeInfo s' = resourceNodeInfo s"
    and eff: "\<forall>j. map_option kept (stm s' j) =
      (if j = k then Some (kept (setActionList t as st)) else map_option kept (stm s j))"
  shows "liveCount s' = liveCount s - interactive (actionsOf t st) + interactive as"
proof -
  have k: "k \<in> resIds s" and wst: "wf_status st" using wf_wrap_resIds [OF wf st] by simp_all
  have fin: "finite (resIds s)" by simp
  have "countOf (stm s' j) = countOf (stm s j)" if "j \<noteq> k" for j
    using eff that by (intro countOf_kept) simp
  then have "(\<Sum>j\<in>resIds s - {k}. countOf (stm s' j)) = (\<Sum>j\<in>resIds s - {k}. countOf (stm s j))"
    by (intro sum.cong) auto
  moreover have "countOf (stm s' k) = countOf (Some (setActionList t as st))"
    using eff by (intro countOf_kept) simp
  then have "countOf (stm s' k) = countOf (stm s k) - interactive (actionsOf t st) + interactive as"
    using statusCount_setActionList [OF wst t] st by (simp add: countOf_def)
  ultimately show ?thesis
    unfolding liveCount_countOf nodes sum.remove [OF fin k] by simp
qed

text \<open>An operation on the live actions keeps the counter in step.\<close>

lemma UpdateResActionList_count:
  assumes inv: "resInv UNIV s" and st: "stm s k = Some st" and a: "typed_action a" "0 \<le> ra_type a" "ra_type a < ACTION_TYPE_MAX"
    and coh: "coherent a (actionsOf (ra_type a) st)"
  shows "okE (\<lambda>s'. boostResCnt s' - liveCount s' = boostResCnt s - liveCount s) (UpdateResActionList k a d s)"
proof (rule okE_mono [OF UpdateResActionList_inv [OF inv st a]], elim conjE)
  fix s' assume eff: "actionEffect k d a s s'"
  have wf: "wf_wrap s" using inv by (simp add: resInv_def)
  have f: "wrapFrame s s'" and cnt: "boostResCnt s' = boostResCnt s + cntAfter d a (actionsOf (ra_type a) st)"
    and lists: "\<forall>j. map_option kept (stm s' j) = (if j = k then Some (kept (setActionList (ra_type a)
        (actionsAfter d a (actionsOf (ra_type a) st)) st)) else map_option kept (stm s j))"
    using eff st by (auto simp: actionEffect_def)
  show "boostResCnt s' - liveCount s' = boostResCnt s - liveCount s"
    using liveCount_effect [OF wf st a(2,3) wrapFrame_frame(1) [OF f] lists] cnt cntAfter_interactive [OF coh, of d]
    by simp
qed

subsection \<open>Clearing the requests\<close>

lemma clearEntry_effect:
  assumes inv: "midInv s"
  shows "okE (\<lambda>s'. midInv s' \<and> boostResCnt s' = boostResCnt s \<and>
     map fst (resStatusInfo s') = map fst (resStatusInfo s) \<and>
     (\<forall>j. map_option rs_resActionList (stm s' j) = map_option rs_resActionList
        (if j = k then map_option (setActionList ACTION_TYPE_PERF []) (stm s k) else stm s j))) (clearEntry k s)"
proof (cases "stm s k")
  case None
  then show ?thesis using inv by (simp add: clearEntry_def statusAt_stm)
next
  case (Some st)
  have r: "resInv UNIV s" using inv by (simp add: midInv_def)
  have eq: "clearEntry k s = UpdateCandidatesValue k ACTION_TYPE_PERF
      (setStatus k (setActionList ACTION_TYPE_PERF [] st) s)"
    by (simp add: clearEntry_def statusAt_stm Some)
  have upd: "okE (\<lambda>s'. resInv UNIV s' \<and> onlyStatus s s' \<and>
        (\<forall>j. map_option kept (stm s' j) = map_option kept (((stm s)(k \<mapsto> setActionList ACTION_TYPE_PERF [] st)) j)))
      (clearEntry k s)"
    unfolding eq by (rule UpdateCandidatesValue_inv [OF r Some]) simp_all
  have lists: "map_option rs_resActionList x = map_option rs_resActionList y"
    if "map_option kept x = map_option kept y" for x y
    using that by (cases x; cases y) (simp_all add: kept_def)
  have "okE (\<lambda>s'. midInv s' \<and> wrapFrame s s') (clearEntry k s)" by (rule clearEntry_mid [OF inv])
  from okE_conj [OF this upd] show ?thesis
  proof (rule okE_mono, elim conjE, intro conjI allI)
    fix s' j assume a: "midInv s'" "onlyStatus s s'" and k: "\<forall>j. map_option kept (stm s' j)
        = map_option kept (((stm s)(k \<mapsto> setActionList ACTION_TYPE_PERF [] st)) j)"
    show "midInv s'" by (rule a(1))
    show "boostResCnt s' = boostResCnt s" "map fst (resStatusInfo s') = map fst (resStatusInfo s)"
      using onlyStatus_frame [OF a(2)] by simp_all
    have "map_option kept (stm s' j)
        = map_option kept (if j = k then map_option (setActionList ACTION_TYPE_PERF []) (stm s k) else stm s j)"
      using k [rule_format, of j] Some by simp
    then show "map_option rs_resActionList (stm s' j) = map_option rs_resActionList
        (if j = k then map_option (setActionList ACTION_TYPE_PERF []) (stm s k) else stm s j)" by (rule lists)
  qed
qed

lemma clearLoop_effect:
  fixes s :: "'a SocPerfThreadWrap_scheme"
  assumes "midInv s"
  shows "okE (\<lambda>s'. midInv s' \<and> boostResCnt s' = boostResCnt s \<and>
     map fst (resStatusInfo s') = map fst (resStatusInfo s) \<and>
     (\<forall>j. map_option rs_resActionList (stm s' j) = map_option rs_resActionList
        (if j \<in> set ks then map_option (setActionList ACTION_TYPE_PERF []) (stm s j) else stm s j)))
   (foldE clearEntry ks s)"
  using assms
proof (induction ks arbitrary: s)
  case Nil
  then show ?case by simp
next
  case (Cons k ks)
  have perf: "map_option rs_resActionList (map_option (setActionList ACTION_TYPE_PERF []) x)
      = map_option rs_resActionList (map_option (setActionList ACTION_TYPE_PERF []) y)"
    if "map_option rs_resActionList x = map_option rs_resActionList y" for x y
    using that by (cases x; cases y) (simp_all add: setActionList_def)
  have twice: "map_option rs_resActionList (map_option (setActionList ACTION_TYPE_PERF [])
        (map_option (setActionList ACTION_TYPE_PERF []) x))
      = map_option rs_resActionList (map_option (setActionList ACTION_TYPE_PERF []) x)" for x
    by (cases x) (simp_all add: setActionList_def)
  show ?case unfolding foldE.simps
  proof (rule okE_bind [OF clearEntry_effect [OF Cons.prems, of k]], elim conjE)
    fix t :: "'a SocPerfThreadWrap_scheme"
    assume t: "midInv t" "boostResCnt t = boostResCnt s" "map fst (resStatusInfo t) = map fst (resStatusInfo s)"
      and lists: "\<forall>j. map_option rs_resActionList (stm t j) = map_option rs_resActionList
        (if j = k then map_option (setActionList ACTION_TYPE_PERF []) (stm s k) else stm s j)"
    have "map_option rs_resActionList (map_option (setActionList ACTION_TYPE_PERF []) (stm t j))
        = map_option rs_resActionList (map_option (setActionList ACTION_TYPE_PERF []) (stm s j))" for j
      using perf [OF lists [rule_format, of j]] twice [of "stm s k"] by (cases "j = k") simp_all
    then show "okE (\<lambda>s'. midInv s' \<and> boostResCnt s' = boostResCnt s \<and>
         map fst (resStatusInfo s') = map fst (resStatusInfo s) \<and>
         (\<forall>j. map_option rs_resActionList (stm s' j) = map_option rs_resActionList
            (if j \<in> set (k # ks) then map_option (setActionList ACTION_TYPE_PERF []) (stm s j) else stm s j)))
       (foldE clearEntry ks t)"
      using lists by (intro okE_mono [OF Cons.IH [OF t(1)]]) (auto simp: t)
  qed
qed

lemma clearAll_effect:
  fixes s :: "'a SocPerfThreadWrap_scheme"
  assumes inv: "midInv s"
  shows "okE (\<lambda>s'. wrapInv s' \<and> boostResCnt s' = boostResCnt s
     \<and> (\<forall>k st. stm s' k = Some st \<longrightarrow> actionsOf ACTION_TYPE_PERF st = [])
     \<and> (boostResCnt s \<noteq> 0 \<longrightarrow> (\<forall>x\<in>set (statuses s'). x = BOOST_STATUS))) (clearAllAliveRequestFunc s)"
  unfolding clearAllAliveRequestFunc_def
proof (rule okE_bind [OF clearLoop_effect [OF inv]], elim conjE)
  fix t :: "'a SocPerfThreadWrap_scheme"
    assume t: "midInv t" "boostResCnt t = boostResCnt s" "map fst (resStatusInfo t) = map fst (resStatusInfo s)"
    and lists: "\<forall>j. map_option rs_resActionList (stm t j) = map_option rs_resActionList
        (if j \<in> set (map fst (resStatusInfo s)) then map_option (setActionList ACTION_TYPE_PERF []) (stm s j)
         else stm s j)"
  have wf: "wf_wrap s" using inv by (simp add: midInv_def resInv_def)
  have perf: "actionsOf ACTION_TYPE_PERF st = []" if st: "stm t k = Some st" for k st
  proof -
    have "stm s k \<noteq> None" using lists st by (metis option.map_disc_iff option.distinct(1))
    then obtain st0 where st0: "stm s k = Some st0" by blast
    have "wf_status st0" using wf_wrap_resIds [OF wf st0] by simp
    moreover have "k \<in> set (map fst (resStatusInfo s))" using stm_keys [of s k] st0 by simp
    then have "rs_resActionList st = rs_resActionList (setActionList ACTION_TYPE_PERF [] st0)"
      using lists [rule_format, of k] st st0 by simp
    ultimately show ?thesis by (simp add: actionsOf_def setActionList_def wf_status_def)
  qed
  show "okE (\<lambda>s'. wrapInv s' \<and> boostResCnt s' = boostResCnt s
     \<and> (\<forall>k st. stm s' k = Some st \<longrightarrow> actionsOf ACTION_TYPE_PERF st = [])
     \<and> (boostResCnt s \<noteq> 0 \<longrightarrow> (\<forall>x\<in>set (statuses s'). x = BOOST_STATUS))) (SendResStatus t)"
    by (rule okE_mono [OF SendResStatus_inv [OF t(1)]])
      (auto simp: sendEffect_def t idle_def nextStatus_def dest: perf)
qed

end
