(* ===== verification/Guarantees.thy ===== *)
theory Guarantees
  imports Startup BoostCount
begin

text \<open>
  What the invariants say of the hardware: the values last sent for a resource without a pair and for
  the two resources of a pair, in terms of the live actions and of the arbitration policy.
\<close>

lemma wrapInvD:
  assumes "wrapInv s"
  shows "resInv UNIV s" and "inSync s" and "settled s" and "confInv s" and "timerInv s" and "queue_ok s"
    and "weakOnlyIdle s"
  using assms unfolding wrapInv_def midInv_def by simp_all

lemma wrapInv_sent:
  assumes inv: "wrapInv s" and st: "stm s k = Some st" and "sendable s k"
  shows "lastSent (reports s) k = Some (rs_currentValue st)"
  using wrapInvD(2,3) [OF inv] st assms(3) unfolding inSync_def settled_def by metis

lemma wrapInv_candidates:
  assumes inv: "wrapInv s" and st: "stm s k = Some st"
  shows "\<forall>t\<in>{0..<4}. candVal t st = fst (candidateSpec t (actionsOf t st))"
proof -
  have "cand_ok st" using wrapInvD(1) [OF inv] st by (simp add: resInv_def)
  then show ?thesis unfolding cand_ok_def by (metis atLeastLessThan_iff fst_conv)
qed

lemma wrapInv_policy:
  assumes inv: "wrapInv s" and st: "stm s k = Some st"
  shows "\<exists>lvl. rs_candidate st = candidateOf (powerLimitBoost s) (thermalLimitBoost s) lvl st"
  using wrapInvD(1) [OF inv] st unfolding resInv_def policy_at_def by blast

lemma wrapInv_values:
  assumes inv: "wrapInv s" and sym: "sym_pairs s"
  shows "values_ok s"
  using wrapInvD(1) [OF inv] sym by (simp add: resInv_def)

lemma wrapInv_unpaired_sent:
  assumes inv: "wrapInv s" and sym: "sym_pairs s" and st: "stm s k = Some st" and "pairOf k s = None"
    and "sendable s k"
  shows "\<exists>lvl. lastSent (reports s) k = Some (candidateOf (powerLimitBoost s) (thermalLimitBoost s) lvl st)"
proof -
  have "rs_currentValue st = rs_candidate st"
    using wrapInv_values [OF inv sym] st assms(4) unfolding values_ok_def by fastforce
  then show ?thesis using wrapInv_sent [OF inv st assms(5)] wrapInv_policy [OF inv st] by simp
qed

text \<open>The two resources of a pair: the one marked as the maximum is sent the larger value.\<close>

lemma wrapInv_pair_values:
  assumes inv: "wrapInv s" and sym: "sym_pairs s" and pair: "pairOf k s = Some p"
    and st: "stm s k = Some st" and pst: "stm s p = Some pst"
  shows "\<exists>lim. (rs_currentValue st, rs_currentValue pst)
           = arbPair (isMaxRes k s) lim (rs_candidate st) (rs_candidate pst)"
  using wrapInv_values [OF inv sym] st pst pair unfolding values_ok_def by fastforce

lemma wrapInv_pair_ordered:
  assumes inv: "wrapInv s" and sym: "sym_pairs s" and pair: "pairOf k s = Some p" and mx: "isMaxRes k s"
    and st: "stm s k = Some st" and pst: "stm s p = Some pst"
    and send: "sendable s k" "sendable s p"
    and asked: "rs_candidate st \<noteq> NODE_DEFAULT_VALUE" "rs_candidate pst \<noteq> NODE_DEFAULT_VALUE"
  shows "\<exists>v w. lastSent (reports s) k = Some v \<and> lastSent (reports s) p = Some w \<and> w \<le> v"
proof -
  obtain lim where "arbPair True lim (rs_candidate st) (rs_candidate pst)
      = (rs_currentValue st, rs_currentValue pst)"
    using wrapInv_pair_values [OF inv sym pair st pst] mx by force
  from arbPair_ordered [OF this asked] have "rs_currentValue pst \<le> rs_currentValue st" by simp
  then show ?thesis
    using wrapInv_sent [OF inv st send(1)] wrapInv_sent [OF inv pst send(2)] by simp
qed

end
