(* ===== verification/System.thy ===== *)
theory System
  imports Requests Guarantees
begin

text \<open>
  The service as a whole: requests on the callers' threads interleaved with the closures of the serial
  queue, from the state \<open>Init\<close> leaves. \<open>bootInv\<close> holds until the first closure has run, \<open>runInv\<close>
  afterwards; both are interpretations of \<open>request_safe\<close>, so no request fails in either phase, and
  every closure returns.
\<close>

subsection \<open>The two phases\<close>

definition static_ok :: "SocPerf \<Rightarrow> bool" where
  "static_ok s \<longleftrightarrow> typed_config s \<and> closed_config s \<and> limits_ok s"

text \<open>The resource nodes, as the lookups see them, and the library the reports go to.\<close>

type_synonym hardware = "(int \<Rightarrow> ResourceNode option) \<times> string option"

definition hw :: "SocPerf \<Rightarrow> hardware" where
  "hw s = (ptrAt (resourceNodeInfo s), reportFunc s)"

definition bootInv :: "hardware \<Rightarrow> SocPerf \<Rightarrow> bool" where
  "bootInv h s \<longleftrightarrow> startInv (dequeue 0 s) \<and> static_ok s \<and> hw s = h \<and> (\<exists>e q. socperfQueue s = e # q
     \<and> qe_task e = TaskInitResourceNodeInfo \<and> qe_delay e = 0)"

definition runInv :: "hardware \<Rightarrow> SocPerf \<Rightarrow> bool" where
  "runInv h s \<longleftrightarrow> wrapInv s \<and> static_ok s \<and> hw s = h"

lemma static_ok_same: "static_ok s \<Longrightarrow> sameWrap s s' \<Longrightarrow> limits_ok s' \<Longrightarrow> static_ok s'"
  by (simp add: static_ok_def sameWrap_conf sameWrap_closed)

lemma submit_sel [simp]:
  "resourceNodeInfo (submit d t s) = resourceNodeInfo s" "resStatusInfo (submit d t s) = resStatusInfo s"
  "reportFunc (submit d t s) = reportFunc s"
  "modeActions m (submit d t s) = modeActions m s"
  "socperfQueue (submit d t s) = socperfQueue s @ [\<lparr>qe_handle = nextHandle s, qe_delay = d, qe_task = t\<rparr>]"
  by (simp_all add: submit_def submit_h_def modeActions_def)

lemma hw_submit [simp]: "hw (submit d t s) = hw s"
  by (simp add: hw_def)

lemma static_ok_submit: "static_ok s \<Longrightarrow> static_ok (submit d t s)"
  by (simp add: static_ok_def typed_config_def closed_config_def no_null_def thermal_configured_def
      inter_configured_def actionsAt_def limits_ok_def)

lemma hw_same: "sameWrap s s' \<Longrightarrow> hw s' = hw s"
  by (simp add: sameWrap_def hw_def)

lemma startInv_same:
  assumes "sameWrap s s'" and "startInv s"
  shows "startInv s'"
  using assms(2) unfolding startInv_def sameWrap_conf [OF assms(1)] by (simp add: sameWrap_def assms(1)[unfolded sameWrap_def])

lemma startInv_submit:
  assumes inv: "startInv s" and ok: "task_ok s t" and no: "\<forall>j. t \<noteq> TaskWeakInteractionTimer j"
  shows "startInv (submit d t s)"
proof -
  have p: "pendingOf (submit d t s) = pendingOf s @ [(nextHandle s, t)]"
      and n: "nextHandle (submit d t s) = Suc (nextHandle s)"
    using sq.enq_pending [of d t s] sq.enq_fresh [of d t s] by (simp_all add: submit_def)
  have tm: "timers j (submit d t s) = timers j s" for j
    using no by (simp add: timers_def sq.tasks_of_def p)
  have h: "sq.handles_ok (submit d t s)"
    using inv sq.handles_ok_enq [of s d t] by (simp add: startInv_def timerInv_def submit_def)
  have tk: "task_ok (submit d t s) x = task_ok s x" for x by (rule task_ok_cong) simp_all
  have "typed_config (submit d t s) = typed_config s" by (simp add: typed_config_def actionsAt_def)
  then have "confInv (submit d t s) = confInv s"
    by (simp add: confInv_def inter_ok_def avail_ok_def nodeAt_def)
  moreover have "timerInv (submit d t s)" using inv h by (simp add: startInv_def timerInv_def tm)
  moreover have "queue_ok (submit d t s)" using inv ok by (auto simp: startInv_def queue_ok_def p tk)
  ultimately show ?thesis using inv by (simp add: startInv_def statuses_def wf_nodes_def)
qed

lemma dequeue_sameWrap: "sameWrap s s' \<Longrightarrow> sameWrap (dequeue n s) (dequeue n s')"
  by (simp add: sameWrap_def dequeue_def modeActions_def)

lemma dequeue_submit: "socperfQueue s \<noteq> [] \<Longrightarrow> dequeue 0 (submit d t s) = submit d t (dequeue 0 s)"
  by (cases "socperfQueue s") (simp_all add: dequeue_def submit_def submit_h_def)

interpretation boot: request_safe "bootInv h" for h
proof
  show "bootInv h s'" if "bootInv h s" and "sameWrap s s'" and "limits_ok s'" for s s'
    using that startInv_same [OF dequeue_sameWrap] static_ok_same hw_same unfolding bootInv_def
    by (metis sameWrap_def)
  show "bootInv h (submit d t s)"
    if inv: "bootInv h s" and ok: "task_ok s t" and no: "\<forall>j. t \<noteq> TaskWeakInteractionTimer j" for s t d
  proof -
    have "task_ok (dequeue 0 s) t" using ok task_ok_cong [of "dequeue 0 s" s] by simp
    with inv no have "startInv (submit d t (dequeue 0 s))" by (simp add: bootInv_def startInv_submit)
    then show ?thesis using inv static_ok_submit by (auto simp: bootInv_def dequeue_submit)
  qed
  show "typed_config s \<and> closed_config s \<and> limits_ok s" if "bootInv h s" for s
    using that by (simp add: bootInv_def static_ok_def)
qed

interpretation run: request_safe "runInv h" for h
proof
  show "runInv h s'" if "runInv h s" and "sameWrap s s'" and "limits_ok s'" for s s'
    using that sameWrap_wrapInv static_ok_same hw_same unfolding runInv_def by blast
  show "runInv h (submit d t s)"
    if "runInv h s" and "task_ok s t" and "\<forall>j. t \<noteq> TaskWeakInteractionTimer j" for s t d
    using that static_ok_submit by (auto simp: runInv_def intro: submit_inv)
  show "typed_config s \<and> closed_config s \<and> limits_ok s" if "runInv h s" for s
    using that by (simp add: runInv_def static_ok_def)
qed

subsection \<open>The closures\<close>

lemma submit_h_eq: "submit_h d t s = (nextHandle s, submit d t s)"
  by (simp add: submit_def submit_h_def)

lemma own_update:
  "sameWrap s (s\<lparr>statisticsTimer := x\<rparr>)" "sameWrap s (s\<lparr>statisticsTimerRunning := b\<rparr>)"
  "sameWrap s (s\<lparr>enabled := b\<rparr>)"
  by (simp_all add: sameWrap_def modeActions_def)

context request_safe
begin

lemma StartStatisticsTimer_ok:
  assumes "P s"
  shows "P (StartStatisticsTimer s)"
proof -
  let ?s = "if \<not> statisticsTimerRunning s then s\<lparr>statisticsTimerRunning := True\<rparr> else s"
  have "P ?s" using assms by (auto intro: P_own own_update)
  then have "P (submit STATISTICS_REPORT_INTERVAL_US TaskStatistics ?s)" by (rule P_submit) simp_all
  then show ?thesis
    by (simp add: StartStatisticsTimer_def SubmitStatisticsTask_def submit_h_eq Let_def P_own [OF _ own_update(1)])
qed

lemma statisticsFunc_ok:
  assumes "P s"
  shows "P (statisticsFunc s)"
proof -
  have "P (ReportCmdIdStatistics s)"
    by (rule P_own [OF assms]) (simp_all add: ReportCmdIdStatistics_def sameWrap_def modeActions_def)
  then show ?thesis using assms by (simp add: statisticsFunc_def Let_def StartStatisticsTimer_ok)
qed

end

lemma static_ok_cfg:
  assumes "cfgOf s' = cfgOf s"
  shows "static_ok s' = static_ok s" and "hw s' = hw s"
proof -
  have more: "SocPerfThreadWrap.more s' = SocPerfThreadWrap.more s"
    and conf: "configPerfActionsInfo s' = configPerfActionsInfo s"
    using assms by (simp_all add: cfgOf_def)
  then have at: "modeActions m s' = modeActions m s" for m by (simp add: modeActions_def)
  have "limitRequest s' = limitRequest s" using more by (cases s; cases s') simp
  then show "static_ok s' = static_ok s"
    unfolding static_ok_def closed_config_def typed_config_def no_null_def thermal_configured_def actionsAt_def at
      inter_configured_cong [OF assms] limits_ok_def
    by simp
  show "hw s' = hw s" using assms by (simp add: cfgOf_def hw_def)
qed

lemma run_next:
  assumes inv: "runInv h s" and n: "n < length (socperfQueue s)"
  shows "okE (runInv h) (runNext n s)"
proof (cases "qe_task (socperfQueue s ! n) = TaskStatistics")
  case True
  have "wrapInv (dequeue n s)"
    using inv n True
    by (intro dequeue_inv(1) [where t = TaskStatistics]) (simp_all add: runInv_def pendingOf_def entryOf_def)
  moreover have "cfgOf (dequeue n s) = cfgOf s" by (simp add: cfg_simps)
  ultimately have "runInv h (dequeue n s)"
    using inv static_ok_cfg [of "dequeue n s" s] by (simp add: runInv_def)
  then show ?thesis using True by (simp add: runNext_def runTask_def run.statisticsFunc_ok)
next
  case False
  then have eq: "runNext n s = runEntry n s" by (simp add: runNext_def runTask_def runEntry_def)
  have w: "wrapInv s" and c: "static_ok s" and i: "inter_configured s"
    using inv by (simp_all add: runInv_def static_ok_def closed_config_def)
  show ?thesis
    unfolding eq using okE_retE [OF runEntry_inv [OF w n] runEntry_cfg [OF i, of n]]
  proof (rule okE_mono)
    fix s'
    assume s': "wrapInv s' \<and> cfgOf s' = cfgOf s"
    then show "runInv h s'" using inv static_ok_cfg [of s' s] by (simp add: runInv_def)
  qed
qed

lemma boot_next:
  assumes inv: "bootInv h s" and n: "runnable (socperfQueue s) n"
  shows "okE (runInv h) (runNext n s)"
proof -
  obtain e q where q: "socperfQueue s = e # q" "qe_task e = TaskInitResourceNodeInfo" "qe_delay e = 0"
    using inv by (auto simp: bootInv_def)
  have n0: "n = 0" using n q by (cases n) (simp_all add: runnable_def)
  have "wrapInv (initResourceNodeInfoFunc (dequeue 0 s))"
    using inv by (intro initResourceNodeInfoFunc_inv(1)) (simp add: bootInv_def)
  moreover have "cfgOf (initResourceNodeInfoFunc (dequeue 0 s)) = cfgOf s"
    by (simp add: cfg_initResourceNodeInfoFunc cfg_simps)
  moreover from this have "static_ok (initResourceNodeInfoFunc (dequeue 0 s)) = static_ok s"
      "hw (initResourceNodeInfoFunc (dequeue 0 s)) = hw s"
    by (rule static_ok_cfg)+
  ultimately show ?thesis using inv by (simp add: n0 q runNext_def runTask_def runInv_def bootInv_def)
qed

subsection \<open>Steps\<close>

text \<open>
  A step is a request by some caller, or a closure the queue may run next. \<open>crashes\<close>: some step that
  can happen does not return.
\<close>

inductive sysStep :: "SocPerf \<Rightarrow> SocPerf \<Rightarrow> bool" where
  request_step: "typed_request r \<Longrightarrow> request r s = Inr s' \<Longrightarrow> sysStep s s'"
| closure_step: "runnable (socperfQueue s) n \<Longrightarrow> runNext n s = Inr s' \<Longrightarrow> sysStep s s'"

inductive_cases sysStepE: "sysStep s s'"

inductive reachable :: "SocPerf \<Rightarrow> SocPerf \<Rightarrow> bool" for s0 where
  reach_start: "reachable s0 s0"
| reach_step: "reachable s0 s \<Longrightarrow> sysStep s s' \<Longrightarrow> reachable s0 s'"

definition crashes :: "SocPerf \<Rightarrow> bool" where
  "crashes s \<longleftrightarrow> (\<exists>r e. typed_request r \<and> request r s = Inl e)
     \<or> (\<exists>n e. runnable (socperfQueue s) n \<and> runNext n s = Inl e)"

definition sysInv :: "hardware \<Rightarrow> SocPerf \<Rightarrow> bool" where
  "sysInv h s \<longleftrightarrow> bootInv h s \<or> runInv h s"

lemma runnable_less: "runnable q n \<Longrightarrow> n < length q"
  by (simp add: runnable_def)

lemma sysInv_request: "sysInv h s \<Longrightarrow> typed_request r \<Longrightarrow> okE (sysInv h) (request r s)"
  unfolding sysInv_def using boot.request_ok run.request_ok by (metis (no_types, lifting) okE_mono)

lemma sysInv_closure: "sysInv h s \<Longrightarrow> runnable (socperfQueue s) n \<Longrightarrow> okE (sysInv h) (runNext n s)"
  unfolding sysInv_def using boot_next run_next runnable_less by (metis (no_types, lifting) okE_mono)

lemma sysInv_step: "sysInv h s \<Longrightarrow> sysStep s s' \<Longrightarrow> sysInv h s'"
  by (auto elim!: sysStepE dest: sysInv_request sysInv_closure)

lemma reachable_inv: "reachable s0 s \<Longrightarrow> sysInv h s0 \<Longrightarrow> sysInv h s"
  by (induction rule: reachable.induct) (auto intro: sysInv_step)

lemma sysInv_no_crash: "sysInv h s \<Longrightarrow> \<not> crashes s"
  unfolding crashes_def by (metis okE_simps(2) sysInv_closure sysInv_request)

lemma runInv_step: "runInv h s \<Longrightarrow> sysStep s s' \<Longrightarrow> runInv h s'"
proof (erule sysStepE)
  show "runInv h s'" if "runInv h s" "typed_request r" "request r s = Inr s'" for r
    using run.request_ok [OF that(1,2)] that(3) by simp
  show "runInv h s'" if "runInv h s" "runnable (socperfQueue s) n" "runNext n s = Inr s'" for n
    using run_next [OF that(1) runnable_less [OF that(2)]] that(3) by simp
qed

lemma sym_pairs_hw: "hw s' = hw s \<Longrightarrow> sym_pairs s' = sym_pairs s"
  by (simp add: sym_pairs_def pairOf_def isMaxRes_def nodeAt_def hw_def)

subsection \<open>Initialisation\<close>

text \<open>What \<open>Init\<close> needs of the configuration that has been loaded.\<close>

definition loaded :: "SocPerf \<Rightarrow> bool" where
  "loaded c \<longleftrightarrow> wf_nodes c \<and> confInv c \<and> closed_config c \<and> limits_ok c
     \<and> (\<forall>ia\<in>set (interAction c). ia_status ia = BOOST_STATUS)"

lemma modeActions_update:
  "modeActions m (s\<lparr>configPerfActionsInfo := AList.update m' x (configPerfActionsInfo s)\<rparr>)
     = (if m = m' then x else modeActions m s)"
  by (simp add: modeActions_def update_conv')

lemma startInv_config:
  fixes s :: "'a SocPerfThreadWrap_scheme"
  assumes w: "startInv s" and s': "s' = s\<lparr>configPerfActionsInfo := c\<rparr>" and ty: "typed_config s'"
  shows "startInv s'"
proof -
  have p: "pendingOf s' = pendingOf s" by (simp add: pendingOf_def s')
  have "timers j s' = timers j s" for j by (simp add: timers_def sq.tasks_of_def p)
  moreover have "nextHandle s' = nextHandle s" by (simp add: s')
  then have "sq.handles_ok s' = sq.handles_ok s" by (simp add: sq.handles_ok_def p)
  moreover have "task_ok s' t = task_ok s t" for t by (rule task_ok_cong) (simp_all add: s')
  moreover have "interAction s' = interAction s" by (simp add: s')
  ultimately have "timerInv s' = timerInv s" "queue_ok s' = queue_ok s"
    by (simp_all add: timerInv_def queue_ok_def p)
  moreover have "confInv s'" using w ty by (simp add: startInv_def confInv_def inter_ok_def avail_ok_def nodeAt_def s')
  ultimately show ?thesis using w by (simp add: startInv_def wf_nodes_def statuses_def) (simp add: s')
qed

lemma CopyEvent_ok:
  assumes ok: "static_ok s" and w: "startInv (dequeue 0 s)"
  shows "okE (\<lambda>s'. static_ok s' \<and> startInv (dequeue 0 s') \<and> hw s' = hw s \<and> socperfQueue s' = socperfQueue s)
    (CopyEvent old new s)"
proof (cases "map_of (modeActions DEFAULT_CONFIG_MODE s) old = None
    \<or> map_of (modeActions DEFAULT_CONFIG_MODE s) new \<noteq> None")
  case True
  then show ?thesis using assms by (auto simp: CopyEvent_def Let_def split: option.split)
next
  case False
  let ?m = "modeActions DEFAULT_CONFIG_MODE s"
  have c: "no_null s" "thermal_configured s" "inter_configured s" "typed_config s" "limits_ok s"
    using ok by (simp_all add: static_ok_def closed_config_def)
  obtain as where as: "map_of ?m old = Some (Some as)"
    using False c(1) unfolding no_null_def by (metis not_None_eq)
  define s' where "s' = s\<lparr>configPerfActionsInfo := AList.update DEFAULT_CONFIG_MODE
     (AList.update new (Some (as\<lparr>as_id := new\<rparr>)) ?m) (configPerfActionsInfo s)\<rparr>"
  have md: "map_of (modeActions m s') k = (if m = DEFAULT_CONFIG_MODE \<and> k = new then Some (Some (as\<lparr>as_id := new\<rparr>))
      else map_of (modeActions m s) k)" for m k
    by (simp add: s'_def modeActions_update update_conv')
  have at: "actionsAt m k s' = (if m = DEFAULT_CONFIG_MODE \<and> k = new then Some (as\<lparr>as_id := new\<rparr>)
      else actionsAt m k s)" for m k
    by (simp add: actionsAt_def ptrAt_def md)
  have old: "actionsAt DEFAULT_CONFIG_MODE old s = Some as" by (simp add: actionsAt_def ptrAt_def as)
  have ty: "typed_config s'"
    unfolding typed_config_def
  proof (intro allI impI)
    fix m k x
    assume "actionsAt m k s' = Some x"
    then show "\<forall>ac\<in>set (as_actionList x). \<forall>v\<in>set (ac_variable ac). in_int64 v"
      using c(4) old unfolding at typed_config_def by (auto split: if_splits)
  qed
  have "no_null s'" using c(1) by (auto simp: no_null_def md)
  moreover have "thermal_configured s'"
    unfolding thermal_configured_def
  proof (intro allI impI ballI)
    fix m k x ac
    assume x: "actionsAt m k s' = Some x" and ac: "ac \<in> set (as_actionList x)"
      and t: "ac_thermalCmdId ac \<noteq> INVALID_THERMAL_CMD_ID"
    obtain m' k' y where "actionsAt m' k' s = Some y" and "ac \<in> set (as_actionList y)"
      using x ac old unfolding at by (auto split: if_splits)
    then show "map_of (modeActions DEFAULT_CONFIG_MODE s') (ac_thermalCmdId ac) \<noteq> None"
      using c(2) t unfolding thermal_configured_def md by auto
  qed
  moreover have "inter_configured s'"
    using c(3) unfolding inter_configured_def md by (simp add: s'_def)
  ultimately have "static_ok s'"
    using c(5) ty by (simp add: static_ok_def closed_config_def limits_ok_def) (simp add: s'_def)
  moreover have "startInv (dequeue 0 s')"
  proof -
    have "typed_config (dequeue 0 s')" using ty by (simp add: typed_config_def actionsAt_def modeActions_def dequeue_def)
    moreover have "dequeue 0 s' = (dequeue 0 s)\<lparr>configPerfActionsInfo := configPerfActionsInfo s'\<rparr>"
      by (simp add: dequeue_def s'_def)
    ultimately show ?thesis using startInv_config [OF w] by blast
  qed
  moreover have "CopyEvent old new s = Inr s'" using False as by (simp add: CopyEvent_def Let_def s'_def)
  ultimately show ?thesis by (simp add: s'_def hw_def)
qed

lemma touchMode_static:
  assumes "static_ok s" and "startInv (dequeue 0 s)"
  shows "static_ok (touchMode m s) \<and> startInv (dequeue 0 (touchMode m s))
    \<and> hw (touchMode m s) = hw s \<and> socperfQueue (touchMode m s) = socperfQueue s"
  using assms static_ok_same [OF _ sameWrap_touchMode] startInv_same [OF dequeue_sameWrap [OF sameWrap_touchMode]]
    hw_same [OF sameWrap_touchMode]
  by (simp add: static_ok_def limits_ok_def touchMode_def)

lemma CompleteEvent_ok:
  assumes "static_ok s" and "startInv (dequeue 0 s)"
  shows "okE (\<lambda>s'. static_ok s' \<and> startInv (dequeue 0 s') \<and> hw s' = hw s \<and> socperfQueue s' = socperfQueue s)
    (CompleteEvent s)"
  unfolding CompleteEvent_def
proof (rule okE_bind [OF CopyEvent_ok])
  show "static_ok (touchMode DEFAULT_CONFIG_MODE s)" "startInv (dequeue 0 (touchMode DEFAULT_CONFIG_MODE s))"
    using touchMode_static [OF assms] by simp_all
next
  fix t
  assume "static_ok t \<and> startInv (dequeue 0 t) \<and> hw t = hw (touchMode DEFAULT_CONFIG_MODE s)
    \<and> socperfQueue t = socperfQueue (touchMode DEFAULT_CONFIG_MODE s)"
  then show "okE (\<lambda>s'. static_ok s' \<and> startInv (dequeue 0 s') \<and> hw s' = hw s \<and> socperfQueue s' = socperfQueue s)
      (CopyEvent PERF_REQUEST_CMD_ID_EVENT_FLING PERF_REQUEST_CMD_ID_EVENT_DRAG t)"
    using touchMode_static [OF assms] CopyEvent_ok [of t] by simp
qed

lemma CopyEvent_enabled: "enabled s \<Longrightarrow> retE enabled (CopyEvent old new s)"
  by (auto simp: CopyEvent_def Let_def intro!: retE_skip split: option.split)

text \<open>A configuration that has been loaded, with the empty queue of a new thread wrap.\<close>

lemma loaded_start:
  assumes "loaded c"
  shows "startInv (dequeue 0 (InitThreadWraps (CreateThreadWraps c)))"
    and "static_ok (InitThreadWraps (CreateThreadWraps c))"
proof -
  let ?s = "CreateThreadWraps c"
  let ?t = "dequeue 0 (InitThreadWraps ?s)"
  have q: "socperfQueue ?s = []" by (simp add: CreateThreadWraps_def)
  have t: "?t = ?s\<lparr>nextHandle := Suc (nextHandle ?s)\<rparr>"
    by (simp add: InitThreadWraps_def InitResourceNodeInfo_def submit_def submit_h_def dequeue_def q)
  have e: "pendingOf ?t = []" unfolding t by (simp add: pendingOf_def q)
  have m: "modeActions m ?t = modeActions m c" "interAction ?t = interAction c"
      "resourceNodeInfo ?t = resourceNodeInfo c" for m
    unfolding t by (simp_all add: CreateThreadWraps_def modeActions_def)
  have m': "interAction (InitThreadWraps ?s) = interAction c" "resourceNodeInfo (InitThreadWraps ?s) = resourceNodeInfo c"
    by (simp_all add: InitThreadWraps_def InitResourceNodeInfo_def CreateThreadWraps_def submit_def submit_h_def)
  have conf: "confInv ?t"
    using assms by (simp add: m' loaded_def confInv_def typed_config_def inter_ok_def avail_ok_def actionsAt_def nodeAt_def m)
  have none: "timers i ?t = []" for i by (simp add: timers_def sq.tasks_of_def e)
  have "timerInv ?t"
    using assms by (auto simp: timerInv_def sq.handles_ok_def e none m m' timer_ok_def loaded_def)
  moreover have "queue_ok ?t" by (simp add: queue_ok_def e)
  moreover have "resStatusInfo ?t = []" unfolding t by (simp add: CreateThreadWraps_def)
  ultimately show "startInv ?t"
    using assms conf by (simp add: startInv_def wf_nodes_def statuses_def m m' loaded_def)
  show "static_ok (InitThreadWraps ?s)"
    using assms
    by (simp add: static_ok_def loaded_def confInv_def closed_config_def typed_config_def no_null_def
        thermal_configured_def inter_configured_def actionsAt_def limits_ok_def InitThreadWraps_def
        InitResourceNodeInfo_def CreateThreadWraps_def modeActions_def submit_def submit_h_def)
qed

theorem Init_boot:
  assumes load: "configInit s0 = Inr (True, c)" and ok: "loaded c"
  shows "okE (\<lambda>(b, s). b \<and> enabled s \<and> bootInv (hw c) s) (Init configInit s0)"
proof -
  let ?s = "(InitThreadWraps (CreateThreadWraps c))\<lparr>enabled := True\<rparr>"
  have own: "sameWrap (InitThreadWraps (CreateThreadWraps c)) ?s" by (rule own_update)
  have st: "static_ok ?s"
    using static_ok_same [OF loaded_start(2) [OF ok] own] loaded_start(2) [OF ok]
    by (simp add: static_ok_def limits_ok_def)
  have start: "startInv (dequeue 0 ?s)"
    by (rule startInv_same [OF dequeue_sameWrap [OF own] loaded_start(1) [OF ok]])
  have q: "\<exists>e q. socperfQueue ?s = e # q \<and> qe_task e = TaskInitResourceNodeInfo \<and> qe_delay e = 0"
    by (simp add: InitThreadWraps_def InitResourceNodeInfo_def CreateThreadWraps_def)
  have h: "hw ?s = hw c" by (simp add: hw_def InitThreadWraps_def InitResourceNodeInfo_def CreateThreadWraps_def)
  have "okE (bootInv (hw c)) (CompleteEvent ?s)"
    by (rule okE_mono [OF CompleteEvent_ok [OF st start]]) (use q h in \<open>simp add: bootInv_def\<close>)
  moreover have "retE enabled (CompleteEvent ?s)"
    unfolding CompleteEvent_def
    by (rule retE_bind [OF CopyEvent_enabled CopyEvent_enabled]) (simp_all add: touchMode_def)
  ultimately obtain s where "CompleteEvent ?s = Inr s" "bootInv (hw c) s" "enabled s"
    by (metis okE_iff retE_simps(1))
  moreover have "enabled (StartStatisticsTimer s) = enabled s" for s :: SocPerf
    by (simp add: StartStatisticsTimer_def SubmitStatisticsTask_def submit_h_def Let_def)
  ultimately show ?thesis
    using boot.StartStatisticsTimer_ok by (simp add: Init_def load)
qed

subsection \<open>Guarantees of every reachable state\<close>

text \<open>Until the first closure has run nothing has been sent; afterwards the guarantees hold.\<close>

lemma reachable_sent:
  assumes "reachable s0 s" and "sysInv h s0" and "sym_pairs s0"
    and st: "stm s k = Some st"
  shows "wrapInv s \<and> sym_pairs s"
proof -
  have "hw s = h" "hw s0 = h" and inv: "sysInv h s"
    using reachable_inv [OF assms(1,2)] assms(2) by (auto simp: sysInv_def bootInv_def runInv_def)
  then have "sym_pairs s" using sym_pairs_hw [of s s0] assms(3) by simp
  moreover have "\<not> bootInv h s"
    using st by (auto simp: bootInv_def startInv_def stm_def ptrAt_def)
  ultimately show ?thesis using inv by (simp add: sysInv_def runInv_def)
qed

end
