(* ===== verification/ConfigLoad.thy ===== *)
theory ConfigLoad
  imports ConfigState CommonStrings
begin

text \<open>
  The configuration loader (\<open>services/core/src/socperf_config.cpp\<close>). The XML library is not part of
  the repository: an \<open>XmlNode\<close> records what its accessors return for a node (\<open>name\<close>, \<open>xmlGetProp\<close>,
  \<open>xmlNodeGetContent\<close>, the chain of children). What the platform answers (the paths of a
  configuration file, the document behind a path, the symbols of a library, the boot parameter) is the
  record \<open>Env\<close>. A function returns its \<open>bool\<close> and the state; a \<open>char*\<close> is a \<open>string option\<close>. What
  is logged or reported as an event is left out.
\<close>

subsection \<open>Documents and loops\<close>

datatype XmlNode =
  XmlNode (xn_name: string) (xn_props: "(string \<times> string) list") (xn_content: "string option")
    (xn_children: "XmlNode list")

definition xmlGetProp :: "XmlNode \<Rightarrow> string \<Rightarrow> string option" where
  "xmlGetProp n prop = map_of (xn_props n) prop"

record Env =
  env_cfgFiles :: "string \<Rightarrow> string option list option"  \<comment> \<open>\<open>GetCfgFiles\<close>, its result possibly null\<close>
  env_xml :: "string \<Rightarrow> XmlNode option option"           \<comment> \<open>\<open>xmlReadFile\<close> and \<open>xmlDocGetRootElement\<close>\<close>
  env_dlopen :: "string \<Rightarrow> bool"
  env_dlsym :: "string \<Rightarrow> string \<Rightarrow> bool"
  env_kernel :: string

abbreviation (input) SOCPERF_RESOURCE_CONFIG_XML :: string where
  "SOCPERF_RESOURCE_CONFIG_XML \<equiv> ''etc/soc_perf/socperf_resource_config.xml''"
abbreviation (input) SOCPERF_BOOST_CONFIG_XML :: string where
  "SOCPERF_BOOST_CONFIG_XML \<equiv> ''etc/soc_perf/socperf_boost_config.xml''"
abbreviation (input) SOCPERF_BOOST_CONFIG_XML_EXT :: string where
  "SOCPERF_BOOST_CONFIG_XML_EXT \<equiv> ''etc/soc_perf/socperf_boost_config_ext.xml''"
abbreviation (input) CAMERA_AWARE_CONFIG_XML :: string where
  "CAMERA_AWARE_CONFIG_XML \<equiv> ''etc/camera/cas/camera_aware_config.xml''"
abbreviation (input) SPLIT_OR :: string where "SPLIT_OR \<equiv> ''|''"
abbreviation (input) SPLIT_EQUAL :: string where "SPLIT_EQUAL \<equiv> ''=''"
abbreviation (input) SPLIT_SPACE :: string where "SPLIT_SPACE \<equiv> '' ''"

text \<open>A loop that returns \<open>false\<close> as soon as its body does, with and without a state.\<close>

fun loopE :: "('x \<Rightarrow> 's \<Rightarrow> error + (bool \<times> 's)) \<Rightarrow> 'x list \<Rightarrow> 's \<Rightarrow> error + (bool \<times> 's)" where
  "loopE f [] s = Inr (True, s)"
| "loopE f (x # xs) s = bindE (f x s) (\<lambda>(ok, s). if ok then loopE f xs s else Inr (False, s))"

fun allE :: "('x \<Rightarrow> error + bool) \<Rightarrow> 'x list \<Rightarrow> error + bool" where
  "allE f [] = Inr True"
| "allE f (x # xs) = bindE (f x) (\<lambda>ok. if ok then allE f xs else Inr False)"

text \<open>\<open>insert\<close> of a map: nothing happens if the key is present. \<open>Split\<close> as a call that may not return.\<close>

definition mapInsert :: "'k \<Rightarrow> 'v \<Rightarrow> ('k \<times> 'v) list \<Rightarrow> ('k \<times> 'v) list" where
  "mapInsert k v m = (if map_of m k = None then AList.update k v m else m)"

definition splitE :: "string \<Rightarrow> string \<Rightarrow> error + string list" where
  "splitE str pat = (case Split str pat of None \<Rightarrow> Inl NoReturn | Some ps \<Rightarrow> Inr ps)"

subsection \<open>Checks of attributes\<close>

definition CheckTrace :: "string option \<Rightarrow> bool" where
  "CheckTrace trace = (case trace of None \<Rightarrow> False
     | Some t \<Rightarrow> if IsNumber t \<and> atoi t = PERF_OPEN_TRACE then True else False)"

definition CheckResourcePersistMode :: "string option \<Rightarrow> bool" where
  "CheckResourcePersistMode persistMode = (case persistMode of None \<Rightarrow> True
     | Some m \<Rightarrow> if \<not> IsNumber m \<or> \<not> IsValidPersistMode (atoi m) then False else True)"

definition CheckResourceTag ::
  "string option \<Rightarrow> string option \<Rightarrow> string option \<Rightarrow> string option \<Rightarrow> string option \<Rightarrow> bool" where
  "CheckResourceTag idStr name pair mode persistMode =
     (if (case idStr of None \<Rightarrow> True | Some i \<Rightarrow> \<not> IsNumber i \<or> \<not> IsValidRangeResId (atoi i)) then False
      else if name = None then False
      else if (case pair of None \<Rightarrow> False | Some p \<Rightarrow> \<not> IsNumber p \<or> \<not> IsValidRangeResId (atoi p)) then False
      else if (case mode of None \<Rightarrow> False | Some m \<Rightarrow> \<not> IsNumber m) then False
      else CheckResourcePersistMode persistMode)"

text \<open>The second overload of \<open>CheckResourceTag\<close>.\<close>

definition CheckResourceContent :: "int \<Rightarrow> string option \<Rightarrow> string option \<Rightarrow> bool" where
  "CheckResourceContent persistMode defStr path =
     (if (case defStr of None \<Rightarrow> True | Some d \<Rightarrow> \<not> IsNumber d) then False
      else if persistMode \<noteq> REPORT_TO_PERFSO \<and> path = None then False
      else True)"

definition CheckGovResourceTag :: "string option \<Rightarrow> string option \<Rightarrow> string option \<Rightarrow> bool" where
  "CheckGovResourceTag idStr name persistMode =
     (if (case idStr of None \<Rightarrow> True | Some i \<Rightarrow> \<not> IsNumber i \<or> \<not> IsValidRangeResId (atoi i)) then False
      else if name = None then False
      else if (case persistMode of None \<Rightarrow> False
               | Some m \<Rightarrow> \<not> IsNumber m \<or> \<not> IsValidPersistMode (atoi m)) then False
      else True)"

definition CheckSceneResourceTag :: "string option \<Rightarrow> string option \<Rightarrow> bool" where
  "CheckSceneResourceTag name persistMode =
     (if name = None then False
      else if (case persistMode of None \<Rightarrow> False
               | Some m \<Rightarrow> \<not> IsNumber m \<or> \<not> IsValidPersistMode (atoi m)) then False
      else True)"

definition CheckCmdTag :: "string option \<Rightarrow> string option \<Rightarrow> bool" where
  "CheckCmdTag idStr name =
     (if (case idStr of None \<Rightarrow> True | Some i \<Rightarrow> \<not> IsNumber i) then False
      else if name = None then False
      else True)"

text \<open>\<open>persistMode ? atoi(persistMode) : 0\<close> and the like.\<close>

definition intOr :: "int \<Rightarrow> string option \<Rightarrow> int" where
  "intOr d p = (case p of None \<Rightarrow> d | Some str \<Rightarrow> atoi str)"

definition GetXmlIntProp :: "XmlNode \<Rightarrow> string \<Rightarrow> int \<Rightarrow> int" where
  "GetXmlIntProp n propName d = (case xmlGetProp n propName of None \<Rightarrow> d
     | Some v \<Rightarrow> if IsNumber v then atoi v else d)"

subsection \<open>Frequency resources\<close>

definition addAvailable :: "int \<Rightarrow> ResourceNode \<Rightarrow> ResourceNode" where
  "addAvailable v n = n\<lparr>rn_available := List.insert v (rn_available n)\<rparr>"

definition LoadResourceAvailable :: "ResourceNode \<Rightarrow> string \<Rightarrow> error + (bool \<times> ResourceNode)" where
  "LoadResourceAvailable resNode node =
     bindE (splitE node SPLIT_SPACE) (\<lambda>result.
     loopE (\<lambda>str n. Inr (if IsNumber str then (True, addAvailable (atoll str) n) else (False, n))) result resNode)"

text \<open>The loop of \<open>LoadFreqResourceContent\<close> over the children, on \<open>(def, path, node)\<close>.\<close>

definition freqContent ::
  "int \<Rightarrow> XmlNode \<Rightarrow> string option \<times> string option \<times> string option
   \<Rightarrow> string option \<times> string option \<times> string option" where
  "freqContent persistMode x = (\<lambda>(defStr, path, node).
     if xn_name x = ''default'' then (xn_content x, path, node)
     else if persistMode \<noteq> REPORT_TO_PERFSO \<and> xn_name x = ''path'' then (defStr, xn_content x, node)
     else if xn_name x = ''node'' then (defStr, path, xn_content x)
     else (defStr, path, node))"

definition setPath :: "string \<Rightarrow> ResourceNode \<Rightarrow> ResourceNode" where
  "setPath path n = (case rn_class n of
       ResNode _ pair \<Rightarrow> n\<lparr>rn_class := ResNode path pair\<rparr> | GovResNode _ _ \<Rightarrow> n)"

definition insertNode :: "ResourceNode \<Rightarrow> 'a SocPerfConfig_scheme \<Rightarrow> 'a SocPerfConfig_scheme" where
  "insertNode n s = s\<lparr>g_resStrToIdInfo := mapInsert (rn_name n) (rn_id n) (g_resStrToIdInfo s),
     resourceNodeInfo := mapInsert (rn_id n) (Some n) (resourceNodeInfo s)\<rparr>"

definition LoadFreqResourceContent ::
  "int \<Rightarrow> XmlNode list \<Rightarrow> ResourceNode \<Rightarrow> 'a SocPerfConfig_scheme
   \<Rightarrow> error + (bool \<times> 'a SocPerfConfig_scheme)" where
  "LoadFreqResourceContent persistMode children resNode s =
     (case fold (freqContent persistMode) children (None, None, None) of (defStr, path, node) \<Rightarrow>
        if \<not> CheckResourceContent persistMode defStr path then Inr (False, s)
        else
          bindE (derefE defStr) (\<lambda>d.
          let n = resNode\<lparr>rn_def := atoll d\<rparr> in
          bindE (if persistMode \<noteq> REPORT_TO_PERFSO then bindE (derefE path) (\<lambda>p. Inr (setPath p n)) else Inr n) (\<lambda>n.
          bindE (case node of None \<Rightarrow> Inr (True, n) | Some str \<Rightarrow> LoadResourceAvailable n str) (\<lambda>(ok, n).
          if \<not> ok then Inr (False, s) else Inr (True, insertNode n s)))))"

definition TraversalFreqResource ::
  "XmlNode \<Rightarrow> 'a SocPerfConfig_scheme \<Rightarrow> error + (bool \<times> 'a SocPerfConfig_scheme)" where
  "TraversalFreqResource x s =
     (let idStr = xmlGetProp x ''id''; name = xmlGetProp x ''name''; pair = xmlGetProp x ''pair'';
          mode = xmlGetProp x ''mode''; persistMode = xmlGetProp x ''switch''; trace = xmlGetProp x ''trace'' in
      if \<not> CheckResourceTag idStr name pair mode persistMode then Inr (False, s)
      else
        bindE (derefE idStr) (\<lambda>i.
        if map_of (resourceNodeInfo s) (atoi i) \<noteq> None then Inr (True, s)
        else
          bindE (derefE name) (\<lambda>nm.
          LoadFreqResourceContent (intOr 0 persistMode) (xn_children x)
            ((new_ResNode (atoi i) nm (intOr 0 mode) (intOr INVALID_VALUE pair) (intOr 0 persistMode))
               \<lparr>rn_trace := CheckTrace trace\<rparr>) s)))"

definition CheckPairResIdValid :: "'a SocPerfConfig_scheme \<Rightarrow> error + bool" where
  "CheckPairResIdValid s =
     allE (\<lambda>(resId, p).
       bindE (derefE p) (\<lambda>n.
       if rn_isGov n then Inr True
       else bindE (castPair n) (\<lambda>pairResId.
         Inr (\<not> (pairResId \<noteq> INVALID_VALUE \<and> map_of (resourceNodeInfo s) pairResId = None)))))
       (resourceNodeInfo s)"

definition CheckDefValid :: "'a SocPerfConfig_scheme \<Rightarrow> error + bool" where
  "CheckDefValid s =
     allE (\<lambda>(resId, p). bindE (derefE p) (\<lambda>n.
       Inr (\<not> (rn_available n \<noteq> [] \<and> rn_def n \<notin> set (rn_available n))))) (resourceNodeInfo s)"

definition LoadResource :: "XmlNode \<Rightarrow> 'a SocPerfConfig_scheme \<Rightarrow> error + (bool \<times> 'a SocPerfConfig_scheme)" where
  "LoadResource child s =
     bindE (loopE (\<lambda>x s. if xn_name x = ''res'' then TraversalFreqResource x s else Inr (True, s))
              (xn_children child) s) (\<lambda>(ok, s).
     if \<not> ok then Inr (False, s)
     else bindE (CheckPairResIdValid s) (\<lambda>pairs.
       if \<not> pairs then Inr (False, s)
       else bindE (CheckDefValid s) (\<lambda>defs. Inr (defs, s))))"

subsection \<open>Governor resources\<close>

definition pushPath :: "string \<Rightarrow> ResourceNode \<Rightarrow> ResourceNode" where
  "pushPath path n = (case rn_class n of
       GovResNode paths lv \<Rightarrow> n\<lparr>rn_class := GovResNode (paths @ [path]) lv\<rparr> | ResNode _ _ \<Rightarrow> n)"

text \<open>The map from levels is \<open>int64_t\<close>-keyed; the pair inserted is built with an \<open>int32_t\<close> key.\<close>

definition LoadGovResourceAvailable :: "ResourceNode \<Rightarrow> string \<Rightarrow> string \<Rightarrow> error + (bool \<times> ResourceNode)" where
  "LoadGovResourceAvailable govResNode level node =
     (let n = addAvailable (atoll level) govResNode in
      bindE (splitE node SPLIT_OR) (\<lambda>result.
      case rn_class n of
        ResNode _ _ \<Rightarrow> Inl BadCast
      | GovResNode paths lv \<Rightarrow>
          if length result \<noteq> length paths then Inr (False, n)
          else Inr (True, n\<lparr>rn_class := GovResNode paths (mapInsert (to_int32 (atoll level)) result lv)\<rparr>)))"

definition govContent :: "int \<Rightarrow> XmlNode \<Rightarrow> ResourceNode \<Rightarrow> error + (bool \<times> ResourceNode)" where
  "govContent persistMode x n =
     (if xn_name x = ''default'' then
        (case xn_content x of
           None \<Rightarrow> Inr (False, n)
         | Some d \<Rightarrow> if \<not> IsNumber d then Inr (False, n) else Inr (True, n\<lparr>rn_def := atoll d\<rparr>))
      else if persistMode \<noteq> REPORT_TO_PERFSO \<and> xn_name x = ''path'' then
        (case xn_content x of None \<Rightarrow> Inr (False, n) | Some p \<Rightarrow> Inr (True, pushPath p n))
      else if persistMode \<noteq> REPORT_TO_PERFSO \<and> xn_name x = ''node'' then
        (case (xmlGetProp x ''level'', xn_content x) of
           (Some level, Some node) \<Rightarrow>
             if \<not> IsNumber level then Inr (False, n) else LoadGovResourceAvailable n level node
         | _ \<Rightarrow> Inr (False, n))
      else Inr (True, n))"

definition TraversalGovResource :: "int \<Rightarrow> XmlNode list \<Rightarrow> ResourceNode \<Rightarrow> error + (bool \<times> ResourceNode)" where
  "TraversalGovResource persistMode children govResNode = loopE (govContent persistMode) children govResNode"

text \<open>
  The node is in the table before its content is read; the pointer in the table then sees what the
  traversal does to the node, also when it fails.
\<close>

definition setNode :: "ResourceNode \<Rightarrow> 'a SocPerfConfig_scheme \<Rightarrow> 'a SocPerfConfig_scheme" where
  "setNode n s = s\<lparr>resourceNodeInfo := AList.update (rn_id n) (Some n) (resourceNodeInfo s)\<rparr>"

definition govResource :: "XmlNode \<Rightarrow> 'a SocPerfConfig_scheme \<Rightarrow> error + (bool \<times> 'a SocPerfConfig_scheme)" where
  "govResource x s =
     (if xn_name x \<noteq> ''res'' then Inr (True, s)
      else
        let idStr = xmlGetProp x ''id''; name = xmlGetProp x ''name'';
            persistMode = xmlGetProp x ''switch''; trace = xmlGetProp x ''trace'' in
        if \<not> CheckGovResourceTag idStr name persistMode then Inr (False, s)
        else
          bindE (derefE idStr) (\<lambda>i.
          if map_of (resourceNodeInfo s) (atoi i) \<noteq> None then Inr (True, s)
          else
            bindE (derefE name) (\<lambda>nm.
            let n = (new_GovResNode (atoi i) nm (intOr 0 persistMode))\<lparr>rn_trace := CheckTrace trace\<rparr>;
                s = insertNode n s in
            bindE (TraversalGovResource (intOr 0 persistMode) (xn_children x) n) (\<lambda>(ok, n).
            Inr (ok, setNode n s)))))"

definition LoadGovResource :: "XmlNode \<Rightarrow> 'a SocPerfConfig_scheme \<Rightarrow> error + (bool \<times> 'a SocPerfConfig_scheme)" where
  "LoadGovResource child s =
     bindE (loopE govResource (xn_children child) s) (\<lambda>(ok, s).
     if \<not> ok then Inr (False, s) else bindE (CheckDefValid s) (\<lambda>defs. Inr (defs, s)))"

subsection \<open>Scenes, the perf library, interactions\<close>

definition sceneItem :: "XmlNode \<Rightarrow> SceneResNode \<Rightarrow> error + (bool \<times> SceneResNode)" where
  "sceneItem x sc =
     (if xn_name x = ''item'' then
        let req = xmlGetProp x ''req'' in
        (case xn_content x of
           None \<Rightarrow> Inr (False, sc)
         | Some item \<Rightarrow>
             if (case req of None \<Rightarrow> False | Some r \<Rightarrow> \<not> IsNumber r) then Inr (False, sc)
             else Inr (True, sc\<lparr>sr_items := sr_items sc @ [\<lparr>si_name = item, si_req = intOr 1 req\<rparr>]\<rparr>))
      else Inr (True, sc))"

definition TraversalSceneResource :: "XmlNode list \<Rightarrow> SceneResNode \<Rightarrow> error + (bool \<times> SceneResNode)" where
  "TraversalSceneResource children sceneResNode = loopE sceneItem children sceneResNode"

definition sceneResource :: "XmlNode \<Rightarrow> 'a SocPerfConfig_scheme \<Rightarrow> error + (bool \<times> 'a SocPerfConfig_scheme)" where
  "sceneResource x s =
     (if xn_name x \<noteq> ''scene'' then Inr (True, s)
      else
        let name = xmlGetProp x ''name''; persistMode = xmlGetProp x ''switch'' in
        if \<not> CheckSceneResourceTag name persistMode then Inr (False, s)
        else
          bindE (derefE name) (\<lambda>nm.
          if map_of (sceneResourceInfo s) nm \<noteq> None then Inr (True, s)
          else
            bindE (TraversalSceneResource (xn_children x)
                     \<lparr>sr_name = nm, sr_persistMode = intOr 0 persistMode, sr_items = []\<rparr>) (\<lambda>(ok, sc).
            Inr (ok, s\<lparr>sceneResourceInfo := mapInsert nm sc (sceneResourceInfo s)\<rparr>))))"

definition LoadSceneResource :: "XmlNode \<Rightarrow> 'a SocPerfConfig_scheme \<Rightarrow> error + (bool \<times> 'a SocPerfConfig_scheme)" where
  "LoadSceneResource child s = loopE sceneResource (xn_children child) s"

text \<open>A function pointer is the name of the symbol it was resolved from.\<close>

definition dlsym :: "Env \<Rightarrow> string \<Rightarrow> string \<Rightarrow> string option" where
  "dlsym env so symbol = (if env_dlsym env so symbol then Some symbol else None)"

definition InitPerfFunc ::
  "Env \<Rightarrow> string option \<Rightarrow> string option \<Rightarrow> string option \<Rightarrow> 'a SocPerfConfig_scheme \<Rightarrow> 'a SocPerfConfig_scheme" where
  "InitPerfFunc env perfSoPath perfReportFunc perfScenarioFunc s =
     (case perfSoPath of
        None \<Rightarrow> s
      | Some so \<Rightarrow>
          if perfReportFunc = None \<and> perfScenarioFunc = None then s
          else if reportFunc s \<noteq> None \<and> scenarioFunc s \<noteq> None then s
          else
            let s = s\<lparr>g_handle := (if env_dlopen env so then Some so else None)\<rparr> in
            if g_handle s = None then s
            else
              let s = (case perfReportFunc of
                         None \<Rightarrow> s
                       | Some f \<Rightarrow> if reportFunc s = None then s\<lparr>reportFunc := dlsym env so f\<rparr> else s);
                  s = (case perfScenarioFunc of
                         None \<Rightarrow> s
                       | Some f \<Rightarrow> if scenarioFunc s = None then s\<lparr>scenarioFunc := dlsym env so f\<rparr> else s) in
              if reportFunc s = None \<and> scenarioFunc s = None then s\<lparr>g_handle := None\<rparr> else s)"

definition LoadInfo :: "Env \<Rightarrow> XmlNode \<Rightarrow> 'a SocPerfConfig_scheme \<Rightarrow> 'a SocPerfConfig_scheme" where
  "LoadInfo env child s =
     (case xn_children child of
        [] \<Rightarrow> s
      | x # _ \<Rightarrow>
          if xn_name x \<noteq> ''inf'' then s
          else InitPerfFunc env (xmlGetProp x ''path'') (xmlGetProp x ''func'') (xmlGetProp x ''scenarioFunc'') s)"

text \<open>\<open>atoi\<close> of a null pointer is an access violation. The arguments are evaluated before any is used.\<close>

definition LoadInterAction :: "XmlNode \<Rightarrow> 'a SocPerfConfig_scheme \<Rightarrow> error + 'a SocPerfConfig_scheme" where
  "LoadInterAction child s =
     foldE (\<lambda>x s.
       if xn_name x \<noteq> ''weak'' then Inr s
       else
         bindE (derefE (xmlGetProp x ''id'')) (\<lambda>cmdId.
         bindE (derefE (xmlGetProp x ''type'')) (\<lambda>actionType.
         bindE (derefE (xmlGetProp x ''delay'')) (\<lambda>delayTime.
         Inr (s\<lparr>interAction := interAction s @ [new_InterAction (atoi cmdId) (atoi actionType) (atoll delayTime)]\<rparr>)))))
       (xn_children child) s"

subsection \<open>Commands\<close>

text \<open>The entry found by \<open>find_if\<close> gets the new command.\<close>

fun setModeCmd :: "string \<Rightarrow> int \<Rightarrow> ModeMap list \<Rightarrow> ModeMap list" where
  "setModeCmd mode cmdId [] = []"
| "setModeCmd mode cmdId (m # ms) =
     (if mm_mode m = mode then m\<lparr>mm_cmdId := cmdId\<rparr> # ms else m # setModeCmd mode cmdId ms)"

text \<open>One element of \<open>modeListResult\<close>.\<close>

definition modePair :: "string \<Rightarrow> Actions \<Rightarrow> error + Actions" where
  "modePair pairStr actions =
     bindE (splitE pairStr SPLIT_EQUAL) (\<lambda>itemPair.
     if length itemPair \<noteq> 2 then Inr actions
     else
       let modeDeviceStr = itemPair ! 0; modeCmdIdStr = itemPair ! 1 in
       if modeDeviceStr = [] \<or> \<not> IsNumber modeCmdIdStr then Inr actions
       else
         let cmdId = atoi modeCmdIdStr in
         if list_ex (\<lambda>m. mm_mode m = modeDeviceStr) (as_modeMap actions) then
           Inr (actions\<lparr>as_modeMap := setModeCmd modeDeviceStr cmdId (as_modeMap actions)\<rparr>)
         else Inr (actions\<lparr>as_modeMap := as_modeMap actions @ [\<lparr>mm_mode = modeDeviceStr, mm_cmdId = cmdId\<rparr>]\<rparr>))"

definition ParseModeCmd :: "string \<Rightarrow> Actions \<Rightarrow> error + Actions" where
  "ParseModeCmd mode actions =
     bindE (splitE mode SPLIT_OR) (\<lambda>modeListResult. foldE modePair modeListResult actions)"

definition ParseDuration :: "XmlNode \<Rightarrow> Action \<Rightarrow> bool \<times> Action" where
  "ParseDuration x action =
     (if xn_name x \<noteq> ''duration'' then (True, action)
      else case xn_content x of
        None \<Rightarrow> (False, action)
      | Some d \<Rightarrow> if \<not> IsNumber d then (False, action) else (True, action\<lparr>ac_duration := atoi d\<rparr>))"

definition ParseResValue :: "XmlNode \<Rightarrow> 'a SocPerfConfig_scheme \<Rightarrow> Action \<Rightarrow> bool \<times> Action" where
  "ParseResValue x s action =
     (if xn_name x = ''duration'' then (True, action)
      else case (map_of (g_resStrToIdInfo s) (xn_name x), xn_content x) of
        (Some resId, Some resValue) \<Rightarrow>
          if \<not> IsNumber resValue then (False, action)
          else (True, action\<lparr>ac_variable := ac_variable action @ [resId, atoll resValue]\<rparr>)
      | _ \<Rightarrow> (False, action))"

text \<open>The inner loop of \<open>TraversalBoostResource\<close>, on \<open>(action, isLongTimePerf)\<close>.\<close>

definition boostContent ::
  "'a SocPerfConfig_scheme \<Rightarrow> XmlNode \<Rightarrow> Action \<times> bool \<Rightarrow> error + (bool \<times> Action \<times> bool)" where
  "boostContent s x = (\<lambda>(action, long).
     case ParseDuration x action of (ret, action) \<Rightarrow>
       if \<not> ret then Inr (False, action, long)
       else
         let long = (if ac_duration action = 0 then True else long) in
         (case ParseResValue x s action of (ret, action) \<Rightarrow> Inr (ret, action, long)))"

definition noteThermalLvl :: "int \<Rightarrow> 'a SocPerfConfig_scheme \<Rightarrow> 'a SocPerfConfig_scheme" where
  "noteThermalLvl lvl s =
     (if lvl \<noteq> INVALID_THERMAL_LVL \<and> (minThermalLvl s = INVALID_THERMAL_LVL \<or> minThermalLvl s > lvl)
      then s\<lparr>minThermalLvl := lvl\<rparr> else s)"

definition boostAction ::
  "XmlNode \<Rightarrow> Actions \<times> 'a SocPerfConfig_scheme \<Rightarrow> error + (bool \<times> Actions \<times> 'a SocPerfConfig_scheme)" where
  "boostAction x = (\<lambda>(actions, s).
     let action = new_Action\<lparr>ac_thermalLvl := GetXmlIntProp x ''thermalLvl'' INVALID_THERMAL_LVL\<rparr>;
         s = noteThermalLvl (ac_thermalLvl action) s;
         action = action\<lparr>ac_thermalCmdId := GetXmlIntProp x ''thermalCmdId'' INVALID_THERMAL_CMD_ID\<rparr> in
     bindE (loopE (boostContent s) (xn_children x) (action, as_isLongTimePerf actions)) (\<lambda>(ok, action, long).
     let actions = actions\<lparr>as_isLongTimePerf := long\<rparr> in
     if \<not> ok then Inr (False, actions, s)
     else Inr (True, actions\<lparr>as_actionList := as_actionList actions @ [action]\<rparr>, s)))"

definition TraversalBoostResource ::
  "XmlNode list \<Rightarrow> Actions \<Rightarrow> 'a SocPerfConfig_scheme \<Rightarrow> error + (bool \<times> Actions \<times> 'a SocPerfConfig_scheme)" where
  "TraversalBoostResource children actions s = loopE boostAction children (actions, s)"

definition LoadCmdInfo ::
  "XmlNode \<Rightarrow> string \<Rightarrow> 'a SocPerfConfig_scheme \<Rightarrow> error + (bool \<times> 'a SocPerfConfig_scheme)" where
  "LoadCmdInfo x configMode s =
     (let idStr = xmlGetProp x ''id''; name = xmlGetProp x ''name'' in
      if \<not> CheckCmdTag idStr name then Inr (False, s)
      else
        bindE (derefE idStr) (\<lambda>i.
        let perfActionsInfo = modeActions configMode s in
        if map_of perfActionsInfo (atoi i) \<noteq> None then Inr (True, s)
        else
          bindE (derefE name) (\<lambda>nm.
          let actions = new_Actions (atoi i) nm;
              actions = (case xmlGetProp x ''interaction'' of
                           None \<Rightarrow> actions
                         | Some v \<Rightarrow> if atoi v = 0 then actions\<lparr>as_interaction := False\<rparr> else actions) in
          bindE (case xmlGetProp x ''mode'' of
                   None \<Rightarrow> Inr actions
                 | Some mode \<Rightarrow> if configMode = DEFAULT_CONFIG_MODE then ParseModeCmd mode actions else Inr actions) (\<lambda>actions.
          bindE (TraversalBoostResource (xn_children x) actions s) (\<lambda>(ok, actions, s).
          if \<not> ok then Inr (False, s)
          else Inr (True, s\<lparr>configPerfActionsInfo :=
                 AList.update configMode (mapInsert (as_id actions) (Some actions) perfActionsInfo)
                   (configPerfActionsInfo s)\<rparr>))))))"

definition LoadConfigInfo ::
  "XmlNode \<Rightarrow> string \<Rightarrow> 'a SocPerfConfig_scheme \<Rightarrow> error + (bool \<times> 'a SocPerfConfig_scheme)" where
  "LoadConfigInfo configNode configMode s =
     loopE (\<lambda>x s.
       if xn_name x = ''cmd'' then LoadCmdInfo x configMode s
       else if xn_name x = ''interaction'' then bindE (LoadInterAction x s) (\<lambda>s. Inr (True, s))
       else Inr (True, s)) (xn_children configNode) s"

definition IsConfigTag :: "XmlNode \<Rightarrow> bool" where
  "IsConfigTag rootNode = list_ex (\<lambda>x. xn_name x = ''Config'') (xn_children rootNode)"

definition GetConfigMode :: "XmlNode \<Rightarrow> string" where
  "GetConfigMode x = (case xmlGetProp x ''mode'' of None \<Rightarrow> [] | Some m \<Rightarrow> m)"

definition HandleConfigNode ::
  "XmlNode list \<Rightarrow> 'a SocPerfConfig_scheme \<Rightarrow> error + (bool \<times> 'a SocPerfConfig_scheme)" where
  "HandleConfigNode configNodes s =
     loopE (\<lambda>x s.
       if xn_name x = ''Config'' then
         let configMode = GetConfigMode x;
             configMode = (if configMode = [] then DEFAULT_CONFIG_MODE else configMode) in
         LoadConfigInfo x configMode s
       else Inr (True, s)) configNodes s"

text \<open>The loop of \<open>TraversalActions\<close> reads the pairs of \<open>variable\<close>; the id is narrowed to 32 bits.\<close>

definition TraversalActions :: "Action \<Rightarrow> 'a SocPerfConfig_scheme \<Rightarrow> bool" where
  "TraversalActions action s =
     list_all (\<lambda>(r, resValue).
       case nodeAt (to_int32 r) s of
         None \<Rightarrow> False
       | Some n \<Rightarrow> \<not> (rn_persistMode n \<noteq> REPORT_TO_PERFSO \<and> rn_available n \<noteq> []
                       \<and> resValue \<notin> set (rn_available n)))
       (varPairs (ac_variable action))"

definition CheckActionsValid :: "(int \<times> Actions option) list \<Rightarrow> 'a SocPerfConfig_scheme \<Rightarrow> error + bool" where
  "CheckActionsValid actionsInfo s =
     allE (\<lambda>(actionId, p). bindE (derefE p) (\<lambda>as.
       Inr (list_all (\<lambda>a. TraversalActions a s) (as_actionList as)))) actionsInfo"

definition CheckActionResIdAndValueValid :: "'a SocPerfConfig_scheme \<Rightarrow> error + bool" where
  "CheckActionResIdAndValueValid s =
     allE (\<lambda>(mode, actionsInfo). CheckActionsValid actionsInfo s) (configPerfActionsInfo s)"

definition LoadConfig :: "XmlNode \<Rightarrow> 'a SocPerfConfig_scheme \<Rightarrow> error + (bool \<times> 'a SocPerfConfig_scheme)" where
  "LoadConfig rootNode s =
     bindE (if IsConfigTag rootNode then HandleConfigNode (xn_children rootNode) s
            else LoadConfigInfo rootNode DEFAULT_CONFIG_MODE s) (\<lambda>(ok, s).
     if \<not> ok then Inr (False, s)
     else bindE (CheckActionResIdAndValueValid s) (\<lambda>valid. Inr (valid, s)))"

subsection \<open>Files\<close>

definition ParseBoostXmlFile :: "XmlNode \<Rightarrow> 'a SocPerfConfig_scheme \<Rightarrow> error + (bool \<times> 'a SocPerfConfig_scheme)" where
  "ParseBoostXmlFile rootNode s = LoadConfig rootNode s"

definition ParseResourceXmlFile ::
  "Env \<Rightarrow> XmlNode \<Rightarrow> 'a SocPerfConfig_scheme \<Rightarrow> error + (bool \<times> 'a SocPerfConfig_scheme)" where
  "ParseResourceXmlFile env rootNode s =
     loopE (\<lambda>x s.
       if xn_name x = ''Resource'' then LoadResource x s
       else if xn_name x = ''GovResource'' then LoadGovResource x s
       else if xn_name x = ''SceneResource'' then bindE (LoadSceneResource x s) (\<lambda>(_, s). Inr (True, s))
       else if xn_name x = ''Info'' then Inr (True, LoadInfo env x s)
       else Inr (True, s)) (xn_children rootNode) s"

definition LoadConfigXmlFile ::
  "Env \<Rightarrow> string \<Rightarrow> 'a SocPerfConfig_scheme \<Rightarrow> error + (bool \<times> 'a SocPerfConfig_scheme)" where
  "LoadConfigXmlFile env realConfigFile s =
     (if realConfigFile = [] then Inr (False, s)
      else case env_xml env realConfigFile of
        None \<Rightarrow> Inr (False, s)
      | Some None \<Rightarrow> Inr (False, s)
      | Some (Some rootNode) \<Rightarrow>
          if xn_name rootNode = ''Configs'' then
            if str_find SOCPERF_RESOURCE_CONFIG_XML realConfigFile \<noteq> None
            then ParseResourceXmlFile env rootNode s
            else ParseBoostXmlFile rootNode s
          else Inr (False, s))"

definition GetAllRealConfigPath :: "Env \<Rightarrow> string \<Rightarrow> string list" where
  "GetAllRealConfigPath env configFile =
     (case env_cfgFiles env configFile of
        None \<Rightarrow> []
      | Some paths \<Rightarrow> rev (map the (filter (\<lambda>p. p \<noteq> None) paths)))"

definition LoadAllConfigXmlFile ::
  "Env \<Rightarrow> string \<Rightarrow> 'a SocPerfConfig_scheme \<Rightarrow> error + (bool \<times> 'a SocPerfConfig_scheme)" where
  "LoadAllConfigXmlFile env configFile s = loopE (LoadConfigXmlFile env) (GetAllRealConfigPath env configFile) s"

definition Config_Init :: "Env \<Rightarrow> 'a SocPerfConfig_scheme \<Rightarrow> error + (bool \<times> 'a SocPerfConfig_scheme)" where
  "Config_Init env s =
     (let resourceConfigXml = (if length (env_kernel env) > 0 then SOCPERF_BOOST_CONFIG_XML_EXT
                               else SOCPERF_BOOST_CONFIG_XML) in
      bindE (LoadAllConfigXmlFile env SOCPERF_RESOURCE_CONFIG_XML s) (\<lambda>(ok, s).
      if \<not> ok then Inr (False, s)
      else bindE (LoadAllConfigXmlFile env resourceConfigXml s) (\<lambda>(ok, s).
        if \<not> ok then Inr (False, s)
        else bindE (LoadAllConfigXmlFile env CAMERA_AWARE_CONFIG_XML s) (\<lambda>(_, s).
          Inr (True, s\<lparr>g_resStrToIdInfo := []\<rparr>)))))"

end
