(* ===== verification/ConfigInvariant.thy ===== *)
theory ConfigInvariant
  imports ConfigLoad WeakInteractions
begin

text \<open>
  What the loader establishes. \<open>loadInv\<close> holds after every step of loading, whatever the documents
  contain and also after a failure: every entry of the resource table is a well-formed node under its own id, no command is
  null, and what is parsed as a number has the width of its C type. Commands and interactions leave
  the resources alone (\<open>cmdInv\<close>).
\<close>

subsection \<open>Loops that stop\<close>

abbreviation keeps :: "('s \<Rightarrow> bool) \<Rightarrow> error + (bool \<times> 's) \<Rightarrow> bool" where
  "keeps I \<equiv> retE (\<lambda>(ok, s). I s)"

abbreviation keepsOk :: "('s \<Rightarrow> bool) \<Rightarrow> error + (bool \<times> 's) \<Rightarrow> bool" where
  "keepsOk I \<equiv> retE (\<lambda>(ok, s). ok \<longrightarrow> I s)"

lemma keeps_loopE:
  assumes "I s" and "\<And>x s. I s \<Longrightarrow> keeps I (f x s)"
  shows "keeps I (loopE f xs s)"
  using assms(1)
proof (induction xs arbitrary: s)
  case (Cons x xs)
  show ?case
    using Cons.IH by (auto intro!: retE_bind [OF assms(2) [OF Cons.prems]])
qed simp

lemma keepsOk_loopE:
  assumes "I s" and "\<And>x s. I s \<Longrightarrow> keepsOk I (f x s)"
  shows "keepsOk I (loopE f xs s)"
  using assms(1)
proof (induction xs arbitrary: s)
  case (Cons x xs)
  show ?case
    using Cons.IH by (auto intro!: retE_bind [OF assms(2) [OF Cons.prems]])
qed simp

lemma keeps_bind: "keeps I m \<Longrightarrow> (\<And>ok s. I s \<Longrightarrow> retE P (f (ok, s))) \<Longrightarrow> retE P (bindE m f)"
  by (erule retE_bind) auto

lemma keepsOk_bind:
  "keepsOk I m \<Longrightarrow> (\<And>s. retE P (f (False, s))) \<Longrightarrow> (\<And>s. I s \<Longrightarrow> retE P (f (True, s))) \<Longrightarrow> retE P (bindE m f)"
proof (erule retE_bind)
  fix x
  assume a: "\<And>s. retE P (f (False, s))" "\<And>s. I s \<Longrightarrow> retE P (f (True, s))"
    and x: "case x of (ok, s) \<Rightarrow> ok \<longrightarrow> I s"
  obtain ok s where "x = (ok, s)" by (cases x)
  with a x show "retE P (f x)" by (cases ok) auto
qed

lemma allE_True:
  "allE f xs = Inr True \<longleftrightarrow> (\<forall>x\<in>set xs. f x = Inr True)"
proof (induction xs)
  case (Cons x xs)
  then show ?case by (cases "f x") auto
qed simp

subsection \<open>The invariant of loading\<close>

definition node_ok :: "int \<Rightarrow> ResourceNode \<Rightarrow> bool" where
  "node_ok k n \<longleftrightarrow> rn_id n = k \<and> IsValidRangeResId k \<and> IsValidPersistMode (rn_persistMode n)
     \<and> rn_isGov n = (case rn_class n of ResNode _ _ \<Rightarrow> False | GovResNode _ _ \<Rightarrow> True)
     \<and> (\<forall>v\<in>set (rn_available n). in_int64 v) \<and> distinct (rn_available n)"

definition nodes_ok :: "'a SocPerfConfig_scheme \<Rightarrow> bool" where
  "nodes_ok s \<longleftrightarrow> distinct (map fst (resourceNodeInfo s))
     \<and> (\<forall>(k, p)\<in>set (resourceNodeInfo s). \<exists>n. p = Some n \<and> node_ok k n)"

definition actions_ok :: "(int \<times> Actions option) list \<Rightarrow> bool" where
  "actions_ok m \<longleftrightarrow> (\<forall>(k, p)\<in>set m. \<exists>as. p = Some as \<and>
     (\<forall>ac\<in>set (as_actionList as). \<forall>v\<in>set (ac_variable ac). in_int64 v))"

definition loadInv :: "'a \<Rightarrow> 'a SocPerfConfig_scheme \<Rightarrow> bool" where
  "loadInv e s \<longleftrightarrow> nodes_ok s \<and> (\<forall>(str, k)\<in>set (g_resStrToIdInfo s). in_int64 k)
     \<and> (\<forall>(mode, m)\<in>set (configPerfActionsInfo s). actions_ok m)
     \<and> (\<forall>ia\<in>set (interAction s). ia_status ia = BOOST_STATUS)
     \<and> SocPerfConfig.more s = e"

lemma loadInv_modeActions:
  assumes "loadInv e s"
  shows "actions_ok (modeActions m s)"
proof (cases "map_of (configPerfActionsInfo s) m")
  case None
  then show ?thesis by (simp add: modeActions_def actions_ok_def)
next
  case (Some ms)
  from map_of_SomeD [OF this] assms have "actions_ok ms" by (auto simp: loadInv_def)
  with Some show ?thesis by (simp add: modeActions_def)
qed

lemma loadInv_new: "loadInv () new_SocPerfConfig"
  by (simp add: loadInv_def nodes_ok_def actions_ok_def modeActions_def new_SocPerfConfig_def)

lemma atoi_int64: "in_int64 (atoi str)"
  using in_int32_to_int32 [of "string_to_int str"] by (auto simp: atoi_def in_int32_def in_int64_def)

lemma atoll_int64: "in_int64 (atoll str)"
  by (simp add: atoll_def in_int64_to_int64)

lemma set_mapInsert: "set (mapInsert k v m) \<subseteq> insert (k, v) (set m)"
  using set_alist_update [of k v m] by (auto simp: mapInsert_def)

lemma keys_mapInsert: "fst ` set (mapInsert k v m) = insert k (fst ` set m)"
proof (cases "map_of m k")
  case None
  then show ?thesis by (simp add: mapInsert_def dom_update)
next
  case (Some x)
  then have "k \<in> fst ` set m" by (metis map_of_keys option.distinct(1))
  with Some show ?thesis by (auto simp: mapInsert_def)
qed

lemma distinct_mapInsert: "distinct (map fst m) \<Longrightarrow> distinct (map fst (mapInsert k v m))"
  by (simp add: mapInsert_def distinct_update)

lemma map_of_mapInsert: "map_of m k = None \<Longrightarrow> map_of (mapInsert k v m) = (map_of m)(k \<mapsto> v)"
  by (simp add: mapInsert_def update_conv')

lemma nodes_ok_insert:
  assumes "nodes_ok s" and "node_ok (rn_id n) n"
  shows "nodes_ok (insertNode n s)"
  using assms set_mapInsert [of "rn_id n" "Some n" "resourceNodeInfo s"]
  by (auto simp: nodes_ok_def insertNode_def distinct_mapInsert)

lemma nodes_ok_set:
  assumes "nodes_ok s" and "node_ok (rn_id n) n"
  shows "nodes_ok (setNode n s)"
  using set_alist_update [of "rn_id n" "Some n" "resourceNodeInfo s"] assms
  by (auto simp: nodes_ok_def setNode_def distinct_update)

text \<open>The other fields do not matter.\<close>

lemma loadInv_fields:
  assumes "loadInv e s" and "resourceNodeInfo s' = resourceNodeInfo s" and "g_resStrToIdInfo s' = g_resStrToIdInfo s"
    and "configPerfActionsInfo s' = configPerfActionsInfo s" and "interAction s' = interAction s"
    and "SocPerfConfig.more s' = SocPerfConfig.more s"
  shows "loadInv e s'"
  using assms by (simp add: loadInv_def nodes_ok_def modeActions_def)

lemma loadInv_insertNode:
  assumes "loadInv e s" and "node_ok (rn_id n) n" and "in_int64 (rn_id n)"
  shows "loadInv e (insertNode n s)"
proof -
  have "\<forall>(str, k)\<in>set (mapInsert (rn_name n) (rn_id n) (g_resStrToIdInfo s)). in_int64 k"
    using assms set_mapInsert [of "rn_name n" "rn_id n" "g_resStrToIdInfo s"] by (auto simp: loadInv_def)
  then show ?thesis
    using assms nodes_ok_insert [of s n] by (simp add: loadInv_def modeActions_def insertNode_def)
qed

lemma loadInv_setNode:
  assumes "loadInv e s" and "node_ok (rn_id n) n"
  shows "loadInv e (setNode n s)"
  using assms nodes_ok_set [of s n] by (simp add: loadInv_def modeActions_def setNode_def)

subsection \<open>Resources\<close>

lemma node_ok_addAvailable: "node_ok k n \<Longrightarrow> node_ok k (addAvailable (atoll str) n)"
  by (auto simp: node_ok_def addAvailable_def atoll_int64 List.insert_def)

lemma node_ok_fields:
  "node_ok k n \<Longrightarrow> node_ok k (n\<lparr>rn_def := d\<rparr>)" "node_ok k n \<Longrightarrow> node_ok k (setPath p n)"
  "node_ok k n \<Longrightarrow> node_ok k (pushPath p n)"
  by (auto simp: node_ok_def setPath_def pushPath_def split: NodeClass.splits)

lemma LoadResourceAvailable_keeps:
  assumes "node_ok k n"
  shows "keeps (node_ok k) (LoadResourceAvailable n str)"
  unfolding LoadResourceAvailable_def
  by (rule retE_skip, rule keeps_loopE [where I = "node_ok k"]) (simp_all add: assms node_ok_addAvailable)

lemma LoadFreqResourceContent_keeps:
  assumes inv: "loadInv e s" and n: "node_ok k n" and k: "in_int64 k"
  shows "keeps (loadInv e) (LoadFreqResourceContent pm xs n s)"
proof -
  have fin: "keeps (loadInv e) (bindE (case node of None \<Rightarrow> Inr (True, m) | Some str \<Rightarrow> LoadResourceAvailable m str)
      (\<lambda>(ok, m). if \<not> ok then Inr (False, s) else Inr (True, insertNode m s)))" if m: "node_ok k m" for node m
  proof (rule keeps_bind)
    show "keeps (node_ok k) (case node of None \<Rightarrow> Inr (True, m) | Some str \<Rightarrow> LoadResourceAvailable m str)"
      using m LoadResourceAvailable_keeps by (simp split: option.split)
    show "keeps (loadInv e) (case (ok, m) of (ok, m) \<Rightarrow> if \<not> ok then Inr (False, s) else Inr (True, insertNode m s))"
      if "node_ok k m" for ok m
      using inv that k loadInv_insertNode [of e s m] by (auto simp: node_ok_def)
  qed
  show ?thesis
    unfolding LoadFreqResourceContent_def Let_def
    using inv
    by (auto split: prod.split intro!: retE_skip [of "derefE _"] retE_bind [where Q = "node_ok k"] fin
        simp: node_ok_fields n)
qed

lemma CheckResourceTag_id:
  assumes "CheckResourceTag i nm p m pm" and "i = Some str"
  shows "IsValidRangeResId (atoi str)" and "IsValidPersistMode (intOr 0 pm)"
  using assms by (auto simp: CheckResourceTag_def CheckResourcePersistMode_def intOr_def IsValidPersistMode_def
      split: if_splits option.splits)

lemma TraversalFreqResource_keeps:
  assumes "loadInv e s"
  shows "keeps (loadInv e) (TraversalFreqResource x s)"
proof -
  have new: "node_ok (atoi i) ((new_ResNode (atoi i) nm mo p pm)\<lparr>rn_trace := tr\<rparr>)"
    if "IsValidRangeResId (atoi i)" and "IsValidPersistMode pm" for i nm mo p pm tr
    using that by (simp add: node_ok_def new_ResNode_def)
  show ?thesis
    unfolding TraversalFreqResource_def Let_def
    using assms CheckResourceTag_id
    by (auto intro!: retE_skip LoadFreqResourceContent_keeps new atoi_int64 simp: derefE_def split: option.splits)
qed

lemma LoadResource_keeps:
  assumes "loadInv e s"
  shows "keeps (loadInv e) (LoadResource x s)"
  unfolding LoadResource_def
proof (rule keeps_bind)
  show "keeps (loadInv e) (loopE (\<lambda>x s. if xn_name x = ''res'' then TraversalFreqResource x s else Inr (True, s))
      (xn_children x) s)"
    by (rule keeps_loopE [where I = "loadInv e"]) (simp_all add: assms TraversalFreqResource_keeps)
qed (auto intro!: retE_skip)

lemma govContent_keeps:
  assumes "node_ok k n"
  shows "keeps (node_ok k) (govContent pm x n)"
proof -
  have lv: "keeps (node_ok k) (LoadGovResourceAvailable n level node)" for level node
    using node_ok_addAvailable [OF assms, of level]
    by (auto simp: LoadGovResourceAvailable_def Let_def node_ok_def intro!: retE_skip split: NodeClass.splits)
  show ?thesis
    unfolding govContent_def using assms lv
    by (auto simp: node_ok_fields split: option.split)
qed

lemma govResource_keeps:
  assumes inv: "loadInv e s"
  shows "keeps (loadInv e) (govResource x s)"
proof -
  have body: "keeps (loadInv e) (bindE (TraversalGovResource pm xs n) (\<lambda>(ok, n). Inr (ok, setNode n (insertNode n0 s))))"
    if n: "node_ok k n" "n0 = n" and k: "in_int64 k" for k n n0 pm xs
  proof (rule keeps_bind)
    show "keeps (node_ok k) (TraversalGovResource pm xs n)"
      unfolding TraversalGovResource_def by (rule keeps_loopE [where I = "node_ok k", OF n(1) govContent_keeps])
    show "keeps (loadInv e) (case (ok, m) of (ok, n) \<Rightarrow> Inr (ok, setNode n (insertNode n0 s)))" if "node_ok k m" for ok m
      using loadInv_setNode [OF loadInv_insertNode, of e s n m] inv n k that by (simp add: node_ok_def)
  qed
  have new: "node_ok (atoi i) ((new_GovResNode (atoi i) nm pm)\<lparr>rn_trace := tr\<rparr>)"
    if "IsValidRangeResId (atoi i)" and "IsValidPersistMode pm" for i nm pm tr
    using that by (simp add: node_ok_def new_GovResNode_def)
  have tag: "IsValidRangeResId (atoi i)" "IsValidPersistMode (intOr 0 pm)"
    if "CheckGovResourceTag (Some i) nm pm" for i nm pm
    using that by (auto simp: CheckGovResourceTag_def intOr_def IsValidPersistMode_def split: if_splits option.splits)
  show ?thesis
    unfolding govResource_def Let_def
    using inv tag
    by (auto intro!: body [where k = "atoi _"] new atoi_int64 simp: derefE_def split: option.splits)
qed

lemma LoadGovResource_keeps:
  assumes "loadInv e s"
  shows "keeps (loadInv e) (LoadGovResource x s)"
  unfolding LoadGovResource_def
  by (rule keeps_bind, rule keeps_loopE [where I = "loadInv e", OF assms govResource_keeps]) (auto intro!: retE_skip)

subsection \<open>Scenes, library and interactions\<close>

lemma LoadSceneResource_keeps:
  assumes "loadInv e s"
  shows "keeps (loadInv e) (LoadSceneResource x s)"
proof -
  have "keeps (loadInv e) (sceneResource x t)" if "loadInv e t" for x t
    unfolding sceneResource_def Let_def
    using that by (auto intro!: retE_skip loadInv_fields [OF that])
  then show ?thesis
    unfolding LoadSceneResource_def by (intro keeps_loopE [where I = "loadInv e"] assms)
qed

lemma InitPerfFunc_frame [simp]:
  "resourceNodeInfo (InitPerfFunc env so rf sf s) = resourceNodeInfo s"
  "g_resStrToIdInfo (InitPerfFunc env so rf sf s) = g_resStrToIdInfo s"
  "configPerfActionsInfo (InitPerfFunc env so rf sf s) = configPerfActionsInfo s"
  "interAction (InitPerfFunc env so rf sf s) = interAction s"
  "SocPerfConfig.more (InitPerfFunc env so rf sf s) = SocPerfConfig.more s"
  by (simp_all add: InitPerfFunc_def Let_def split: option.split)

lemma LoadInfo_frame [simp]:
  "resourceNodeInfo (LoadInfo env x s) = resourceNodeInfo s"
  "g_resStrToIdInfo (LoadInfo env x s) = g_resStrToIdInfo s"
  "configPerfActionsInfo (LoadInfo env x s) = configPerfActionsInfo s"
  "interAction (LoadInfo env x s) = interAction s"
  "SocPerfConfig.more (LoadInfo env x s) = SocPerfConfig.more s"
  by (simp_all add: LoadInfo_def split: list.split)

lemma LoadInfo_keeps: "loadInv e s \<Longrightarrow> loadInv e (LoadInfo env x s)"
  by (erule loadInv_fields) simp_all

text \<open>Interactions and commands leave the resources alone.\<close>

definition cmdInv :: "(int \<times> ResourceNode option) list \<Rightarrow> 'a \<Rightarrow> 'a SocPerfConfig_scheme \<Rightarrow> bool" where
  "cmdInv N e s \<longleftrightarrow> loadInv e s \<and> resourceNodeInfo s = N"

lemma cmdInv_fields:
  assumes "cmdInv N e s" and "resourceNodeInfo s' = resourceNodeInfo s" and "g_resStrToIdInfo s' = g_resStrToIdInfo s"
    and "configPerfActionsInfo s' = configPerfActionsInfo s" and "interAction s' = interAction s"
    and "SocPerfConfig.more s' = SocPerfConfig.more s"
  shows "cmdInv N e s'"
  using loadInv_fields [of e s s'] assms by (simp add: cmdInv_def)

lemma LoadInterAction_keeps:
  assumes "cmdInv N e s"
  shows "retE (cmdInv N e) (LoadInterAction x s)"
  unfolding LoadInterAction_def
proof (rule retE_foldE [where P = "cmdInv N e", OF assms])
  fix y and t :: "'a SocPerfConfig_scheme"
  assume inv: "cmdInv N e t"
  then have "cmdInv N e (t\<lparr>interAction := interAction t @ [new_InterAction c ty d]\<rparr>)" for c ty d
    by (auto simp: cmdInv_def loadInv_def nodes_ok_def modeActions_def new_InterAction_def)
  then show "retE (cmdInv N e) (if xn_name y \<noteq> ''weak'' then Inr t
      else bindE (derefE (xmlGetProp y ''id'')) (\<lambda>cmdId. bindE (derefE (xmlGetProp y ''type'')) (\<lambda>actionType.
        bindE (derefE (xmlGetProp y ''delay'')) (\<lambda>delayTime.
        Inr (t\<lparr>interAction := interAction t @ [new_InterAction (atoi cmdId) (atoi actionType) (atoll delayTime)]\<rparr>)))))"
    using inv by (auto intro!: retE_skip)
qed

subsection \<open>Commands\<close>

text \<open>The actions of a command hold 64-bit values.\<close>

definition action_typed :: "Action \<Rightarrow> bool" where
  "action_typed ac \<longleftrightarrow> (\<forall>v\<in>set (ac_variable ac). in_int64 v)"

definition actions_typed :: "Actions \<Rightarrow> bool" where
  "actions_typed as \<longleftrightarrow> (\<forall>ac\<in>set (as_actionList as). action_typed ac)"

lemma boostContent_keeps:
  assumes "cmdInv N e s" and "action_typed ac"
  shows "keeps (\<lambda>(ac, long). action_typed ac) (boostContent s x (ac, long))"
proof -
  have "action_typed (snd (ParseDuration x ac))"
    using assms(2) by (auto simp: ParseDuration_def action_typed_def split: option.split)
  moreover have "action_typed (snd (ParseResValue x s a))" if "action_typed a" for a
  proof -
    have "in_int64 k" if "map_of (g_resStrToIdInfo s) str = Some k" for str k
      using map_of_SomeD [OF that] assms(1) unfolding cmdInv_def loadInv_def by auto
    then show ?thesis
      using that by (auto simp: ParseResValue_def action_typed_def atoll_int64 split: option.split)
  qed
  ultimately show ?thesis by (auto simp: boostContent_def Let_def split: prod.split) (metis snd_conv)+
qed

lemma boostAction_keeps:
  assumes "cmdInv N e s" and "actions_typed as"
  shows "keeps (\<lambda>(as, s). actions_typed as \<and> cmdInv N e s) (boostAction x (as, s))"
proof -
  let ?a = "new_Action\<lparr>ac_thermalLvl := GetXmlIntProp x ''thermalLvl'' INVALID_THERMAL_LVL,
     ac_thermalCmdId := GetXmlIntProp x ''thermalCmdId'' INVALID_THERMAL_CMD_ID\<rparr>"
  let ?s = "noteThermalLvl (GetXmlIntProp x ''thermalLvl'' INVALID_THERMAL_LVL) s"
  have s: "cmdInv N e ?s" by (rule cmdInv_fields [OF assms(1)]) (simp_all add: noteThermalLvl_def)
  have "keeps (\<lambda>(ac, long). action_typed ac) (loopE (boostContent ?s) (xn_children x) (?a, as_isLongTimePerf as))"
  proof (rule keeps_loopE [where I = "\<lambda>(ac, long). action_typed ac"])
    show "case (?a, as_isLongTimePerf as) of (ac, long) \<Rightarrow> action_typed ac"
      by (simp add: action_typed_def new_Action_def)
    show "keeps (\<lambda>(ac, long). action_typed ac) (boostContent ?s y z)" if "case z of (ac, long) \<Rightarrow> action_typed ac" for y z
      using that boostContent_keeps [OF s] by (cases z) simp
  qed
  then show ?thesis
    unfolding boostAction_def Let_def
    using s assms(2) by (auto intro!: keeps_bind simp: actions_typed_def)
qed

lemma modePair_keeps: "actions_typed as \<Longrightarrow> retE actions_typed (modePair str as)"
  by (auto simp: modePair_def Let_def actions_typed_def intro!: retE_skip)

lemma ParseModeCmd_keeps: "actions_typed as \<Longrightarrow> retE actions_typed (ParseModeCmd m as)"
  unfolding ParseModeCmd_def by (rule retE_skip, rule retE_foldE) (auto intro: modePair_keeps)

lemma TraversalBoostResource_keeps:
  assumes "actions_typed as" and "cmdInv N e s"
  shows "keeps (\<lambda>(as, s). actions_typed as \<and> cmdInv N e s) (TraversalBoostResource xs as s)"
  unfolding TraversalBoostResource_def
proof (rule keeps_loopE [where I = "\<lambda>(as, s). actions_typed as \<and> cmdInv N e s"])
  show "case (as, s) of (as, s) \<Rightarrow> actions_typed as \<and> cmdInv N e s" using assms by simp
  show "keeps (\<lambda>(as, s). actions_typed as \<and> cmdInv N e s) (boostAction x z)"
    if "case z of (as, s) \<Rightarrow> actions_typed as \<and> cmdInv N e s" for x z
    using that by (cases z) (auto intro!: boostAction_keeps)
qed

lemma cmdInv_addActions:
  assumes inv: "cmdInv N e s" and m: "actions_ok m" and a: "actions_typed as"
  shows "cmdInv N e (s\<lparr>configPerfActionsInfo := AList.update mode (mapInsert k (Some as) m) (configPerfActionsInfo s)\<rparr>)"
proof -
  have "actions_ok (mapInsert k (Some as) m)"
    using m a set_mapInsert [of k "Some as" m] by (auto simp: actions_ok_def actions_typed_def action_typed_def)
  then show ?thesis
    using inv set_alist_update [of mode "mapInsert k (Some as) m" "configPerfActionsInfo s"]
    by (auto simp: cmdInv_def loadInv_def nodes_ok_def)
qed

lemma LoadCmdInfo_keeps:
  assumes inv: "cmdInv N e s"
  shows "keeps (cmdInv N e) (LoadCmdInfo x mode s)"
proof -
  have add: "keeps (cmdInv N e) (bindE (TraversalBoostResource xs as s) (\<lambda>(ok, actions, s).
      if \<not> ok then Inr (False, s)
      else Inr (True, s\<lparr>configPerfActionsInfo := AList.update m
        (mapInsert (as_id actions) (Some actions) (modeActions m t)) (configPerfActionsInfo s)\<rparr>)))"
    if "actions_typed as" and "cmdInv N e t" for as xs m and t :: "'a SocPerfConfig_scheme"
  proof (rule keeps_bind [OF TraversalBoostResource_keeps [OF that(1) inv]])
    fix ok and z :: "Actions \<times> 'a SocPerfConfig_scheme"
    assume z: "case z of (as, s) \<Rightarrow> actions_typed as \<and> cmdInv N e s"
    have "actions_ok (modeActions m t)" using that(2) by (auto simp: cmdInv_def intro: loadInv_modeActions)
    then show "keeps (cmdInv N e) (case (ok, z) of (ok, actions, s) \<Rightarrow> if \<not> ok then Inr (False, s)
      else Inr (True, s\<lparr>configPerfActionsInfo := AList.update m
        (mapInsert (as_id actions) (Some actions) (modeActions m t)) (configPerfActionsInfo s)\<rparr>))"
      using z by (cases z) (auto intro!: cmdInv_addActions)
  qed
  have new: "actions_typed (new_Actions i nm)" "actions_typed (new_Actions i nm\<lparr>as_interaction := False\<rparr>)" for i nm
    by (simp_all add: actions_typed_def new_Actions_def)
  show ?thesis
    unfolding LoadCmdInfo_def Let_def
    using inv
    by (auto intro!: retE_skip [of "derefE _"] add new retE_bind [OF ParseModeCmd_keeps] split: option.split)
qed

lemma LoadConfigInfo_keeps:
  assumes "cmdInv N e s"
  shows "keeps (cmdInv N e) (LoadConfigInfo x mode s)"
  unfolding LoadConfigInfo_def
proof (rule keeps_loopE [where I = "cmdInv N e", OF assms])
  fix y and t :: "'a SocPerfConfig_scheme"
  assume "cmdInv N e t"
  then show "keeps (cmdInv N e) (if xn_name y = ''cmd'' then LoadCmdInfo y mode t
      else if xn_name y = ''interaction'' then bindE (LoadInterAction y t) (\<lambda>s. Inr (True, s)) else Inr (True, t))"
    by (auto intro!: LoadCmdInfo_keeps retE_bind [OF LoadInterAction_keeps])
qed

lemma HandleConfigNode_keeps:
  assumes "cmdInv N e s"
  shows "keeps (cmdInv N e) (HandleConfigNode xs s)"
  unfolding HandleConfigNode_def Let_def
  by (rule keeps_loopE [where I = "cmdInv N e", OF assms]) (auto intro!: LoadConfigInfo_keeps)

lemma LoadConfig_keeps:
  assumes "cmdInv N e s"
  shows "keeps (cmdInv N e) (LoadConfig x s)"
  unfolding LoadConfig_def
  by (rule keeps_bind [where I = "cmdInv N e"])
    (auto intro!: HandleConfigNode_keeps LoadConfigInfo_keeps retE_skip simp: assms)

lemma LoadConfig_loadInv:
  assumes "loadInv e s"
  shows "keeps (loadInv e) (LoadConfig x s)"
  by (rule retE_mono [OF LoadConfig_keeps [where N = "resourceNodeInfo s"]]) (use assms in \<open>auto simp: cmdInv_def\<close>)

subsection \<open>Files\<close>

lemma ParseResourceXmlFile_keeps:
  assumes "loadInv e s"
  shows "keeps (loadInv e) (ParseResourceXmlFile env x s)"
  unfolding ParseResourceXmlFile_def
proof (rule keeps_loopE [where I = "loadInv e", OF assms])
  fix y and t :: "'a SocPerfConfig_scheme"
  assume "loadInv e t"
  then show "keeps (loadInv e) (if xn_name y = ''Resource'' then LoadResource y t
      else if xn_name y = ''GovResource'' then LoadGovResource y t
      else if xn_name y = ''SceneResource'' then bindE (LoadSceneResource y t) (\<lambda>(_, s). Inr (True, s))
      else if xn_name y = ''Info'' then Inr (True, LoadInfo env y t) else Inr (True, t))"
    by (auto intro!: LoadResource_keeps LoadGovResource_keeps keeps_bind [OF LoadSceneResource_keeps] LoadInfo_keeps)
qed

lemma LoadConfigXmlFile_keeps:
  assumes "loadInv e s"
  shows "keeps (loadInv e) (LoadConfigXmlFile env path s)"
  unfolding LoadConfigXmlFile_def ParseBoostXmlFile_def
  by (auto intro!: ParseResourceXmlFile_keeps LoadConfig_loadInv simp: assms split: option.split)

lemma LoadAllConfigXmlFile_keeps:
  assumes "loadInv e s"
  shows "keeps (loadInv e) (LoadAllConfigXmlFile env file s)"
  unfolding LoadAllConfigXmlFile_def
  by (rule keeps_loopE [where I = "loadInv e", OF assms]) (rule LoadConfigXmlFile_keeps)

end
