(* ===== verification/ConfigAccepted.thy ===== *)
theory ConfigAccepted
  imports ConfigInvariant
begin

text \<open>
  What a successful \<open>Init\<close> of the configuration guarantees: besides \<open>loadInv\<close>, every pair names a
  configured resource, so that the table is well formed in the sense the thread wrap needs.
\<close>

subsection \<open>Accepted files\<close>

text \<open>The check of the pairs makes them keys; governor resources added later have no pair.\<close>

definition pairs_ok :: "'a SocPerfConfig_scheme \<Rightarrow> bool" where
  "pairs_ok s \<longleftrightarrow> (\<forall>(k, p)\<in>set (resourceNodeInfo s). \<forall>n path pair. p = Some n \<and> rn_class n = ResNode path pair \<longrightarrow>
     pair = INVALID_VALUE \<or> pair \<in> resIds s)"

lemma CheckPairResIdValid_ok:
  assumes "CheckPairResIdValid s = Inr True" and "nodes_ok s"
  shows "pairs_ok s"
proof -
  have "pair = INVALID_VALUE \<or> pair \<in> resIds s"
    if "(k, Some n) \<in> set (resourceNodeInfo s)" "rn_class n = ResNode path pair" for k n path pair
  proof -
    have "\<not> rn_isGov n" using assms(2) that by (force simp: nodes_ok_def node_ok_def)
    then show ?thesis
      using that assms(1) by (auto simp: CheckPairResIdValid_def allE_True castPair_def map_of_eq_None_iff
          dest!: bspec [of _ _ "(k, Some n)"])
  qed
  then show ?thesis by (auto simp: pairs_ok_def)
qed

lemma pairs_ok_new: "pairs_ok new_SocPerfConfig"
  by (simp add: pairs_ok_def new_SocPerfConfig_def)

definition accepted :: "'a \<Rightarrow> 'a SocPerfConfig_scheme \<Rightarrow> bool" where
  "accepted e s \<longleftrightarrow> loadInv e s \<and> pairs_ok s"

lemma LoadResource_accepted:
  assumes "loadInv e s"
  shows "keepsOk (accepted e) (LoadResource x s)"
proof -
  have "retE (\<lambda>(ok, s). ok \<longrightarrow> CheckPairResIdValid s = Inr True) (LoadResource x s)"
    unfolding LoadResource_def by (auto intro!: retE_skip split: if_splits)
  with LoadResource_keeps [OF assms, of x] show ?thesis
    by (auto simp: retE_iff accepted_def loadInv_def intro: CheckPairResIdValid_ok)
qed

definition gov_node :: "int \<Rightarrow> ResourceNode \<Rightarrow> bool" where
  "gov_node k n \<longleftrightarrow> rn_id n = k \<and> (\<exists>ps lv. rn_class n = GovResNode ps lv)"

lemma pairs_ok_grow:
  assumes "pairs_ok s" and "gov_node k n" and "set (resourceNodeInfo s') \<subseteq> insert (k, Some n) (set (resourceNodeInfo s))"
    and "resIds s \<subseteq> resIds s'"
  shows "pairs_ok s'"
proof -
  have "pair = INVALID_VALUE \<or> pair \<in> resIds s'"
    if "(l, Some m) \<in> set (resourceNodeInfo s')" "rn_class m = ResNode path pair" for l m path pair
  proof -
    have "(l, Some m) \<in> set (resourceNodeInfo s)" using that assms(2,3) by (auto simp: gov_node_def)
    then have "pair = INVALID_VALUE \<or> pair \<in> resIds s" using assms(1) that(2) unfolding pairs_ok_def by blast
    with assms(4) show ?thesis by blast
  qed
  then show ?thesis unfolding pairs_ok_def by blast
qed

lemma pairs_ok_gov:
  assumes "pairs_ok s" and "gov_node (rn_id n) n"
  shows "pairs_ok (insertNode n s)" and "pairs_ok (setNode n s)"
proof -
  show "pairs_ok (insertNode n s)"
    by (rule pairs_ok_grow [OF assms]) (use set_mapInsert in \<open>simp_all add: insertNode_def keys_mapInsert subset_insertI\<close>)
  show "pairs_ok (setNode n s)"
    by (rule pairs_ok_grow [OF assms]) (use set_alist_update in \<open>simp_all add: setNode_def dom_update subset_insertI\<close>)
qed

lemma govContent_gov: "gov_node k n \<Longrightarrow> keeps (gov_node k) (govContent pm x n)"
  by (auto simp: govContent_def LoadGovResourceAvailable_def gov_node_def pushPath_def addAvailable_def Let_def
      intro!: retE_skip split: option.split NodeClass.splits)

lemma TraversalGovResource_gov: "gov_node k n \<Longrightarrow> keeps (gov_node k) (TraversalGovResource pm xs n)"
  unfolding TraversalGovResource_def by (rule keeps_loopE [where I = "gov_node k", OF _ govContent_gov])

lemma govResource_pairs:
  assumes "pairs_ok s"
  shows "keeps pairs_ok (govResource x s)"
proof -
  have body: "keeps pairs_ok (bindE (TraversalGovResource pm xs n) (\<lambda>(ok, n). Inr (ok, setNode n (insertNode n0 s))))"
    if n: "gov_node k n" "n0 = n" for k n n0 pm xs
  proof (rule keeps_bind [OF TraversalGovResource_gov [OF n(1)]])
    show "keeps pairs_ok (case (ok, m) of (ok, m) \<Rightarrow> Inr (ok, setNode m (insertNode n0 s)))" if "gov_node k m" for ok m
      using that n assms by (auto simp: gov_node_def intro!: pairs_ok_gov)
  qed
  have new: "gov_node k ((new_GovResNode k nm pm)\<lparr>rn_trace := tr\<rparr>)" for k nm pm tr
    by (simp add: gov_node_def new_GovResNode_def)
  show ?thesis
    unfolding govResource_def Let_def
    using assms by (auto intro!: body new retE_skip [of "derefE _"])
qed

lemma LoadGovResource_accepted:
  assumes "accepted e s"
  shows "keeps (accepted e) (LoadGovResource x s)"
proof -
  have "keeps pairs_ok (LoadGovResource x s)"
    unfolding LoadGovResource_def
    by (rule keeps_bind, rule keeps_loopE [where I = pairs_ok, OF _ govResource_pairs])
      (use assms in \<open>auto intro!: retE_skip simp: accepted_def\<close>)
  with LoadGovResource_keeps [of e s x] assms show ?thesis by (auto simp: retE_iff accepted_def)
qed

lemma pairs_ok_nodes: "resourceNodeInfo s' = resourceNodeInfo s \<Longrightarrow> pairs_ok s' = pairs_ok s"
  by (simp add: pairs_ok_def)

lemma sceneResource_nodes: "keeps (\<lambda>s'. resourceNodeInfo s' = resourceNodeInfo s) (LoadSceneResource x s)"
  unfolding LoadSceneResource_def
  by (rule keeps_loopE [where I = "\<lambda>s'. resourceNodeInfo s' = resourceNodeInfo s"])
    (auto simp: sceneResource_def Let_def intro!: retE_skip)

lemma ParseResourceXmlFile_accepted:
  assumes "accepted e s"
  shows "keepsOk (accepted e) (ParseResourceXmlFile env x s)"
  unfolding ParseResourceXmlFile_def
proof (rule keepsOk_loopE [where I = "accepted e", OF assms])
  fix y and t :: "'a SocPerfConfig_scheme"
  assume acc: "accepted e t"
  have "keeps (accepted e) (LoadSceneResource y t)"
    using LoadSceneResource_keeps [of e t y] sceneResource_nodes [of t y] acc pairs_ok_nodes [of _ t]
    by (auto simp: retE_iff accepted_def)
  then have scene: "keepsOk (accepted e) (bindE (LoadSceneResource y t) (\<lambda>(_, s). Inr (True, s)))"
    by (rule keeps_bind) simp
  have gov: "keepsOk (accepted e) (LoadGovResource y t)"
    by (rule retE_mono [OF LoadGovResource_accepted [OF acc]]) auto
  have res: "keepsOk (accepted e) (LoadResource y t)"
    using acc by (intro LoadResource_accepted) (simp add: accepted_def)
  have info: "accepted e (LoadInfo env y t)"
    using acc LoadInfo_keeps [of e t] pairs_ok_nodes [of "LoadInfo env y t" t] by (simp add: accepted_def)
  show "keepsOk (accepted e) (if xn_name y = ''Resource'' then LoadResource y t
      else if xn_name y = ''GovResource'' then LoadGovResource y t
      else if xn_name y = ''SceneResource'' then bindE (LoadSceneResource y t) (\<lambda>(_, s). Inr (True, s))
      else if xn_name y = ''Info'' then Inr (True, LoadInfo env y t) else Inr (True, t))"
    using res info scene gov acc by simp
qed

lemma LoadConfig_accepted:
  assumes "accepted e s"
  shows "keeps (accepted e) (LoadConfig x s)"
  by (rule retE_mono [OF LoadConfig_keeps [where N = "resourceNodeInfo s"]])
    (use assms pairs_ok_nodes in \<open>auto simp: cmdInv_def accepted_def\<close>)

lemma LoadConfigXmlFile_accepted:
  assumes "accepted e s"
  shows "keepsOk (accepted e) (LoadConfigXmlFile env path s)"
    and "str_find SOCPERF_RESOURCE_CONFIG_XML path = None \<Longrightarrow> keeps (accepted e) (LoadConfigXmlFile env path s)"
proof -
  have "keepsOk (accepted e) (LoadConfig x s)" for x
    by (rule retE_mono [OF LoadConfig_accepted [OF assms]]) auto
  then show "keepsOk (accepted e) (LoadConfigXmlFile env path s)"
    unfolding LoadConfigXmlFile_def ParseBoostXmlFile_def
    using ParseResourceXmlFile_accepted [OF assms] by (auto split: option.split)
  show "keeps (accepted e) (LoadConfigXmlFile env path s)" if "str_find SOCPERF_RESOURCE_CONFIG_XML path = None"
    unfolding LoadConfigXmlFile_def ParseBoostXmlFile_def
    using that LoadConfig_accepted [OF assms] assms by (auto split: option.split)
qed

lemma keepsOk_LoadAll:
  assumes "accepted e s"
  shows "keepsOk (accepted e) (LoadAllConfigXmlFile env file s)"
  unfolding LoadAllConfigXmlFile_def
  by (rule keepsOk_loopE [where I = "accepted e", OF assms]) (rule LoadConfigXmlFile_accepted)

text \<open>No file named by the camera configuration is read as a resource file.\<close>

definition camera_apart :: "Env \<Rightarrow> bool" where
  "camera_apart env \<longleftrightarrow> list_all (\<lambda>p. str_find SOCPERF_RESOURCE_CONFIG_XML p = None)
     (GetAllRealConfigPath env CAMERA_AWARE_CONFIG_XML)"

lemma keeps_loopE_set:
  assumes "I s" and "\<And>x s. x \<in> set xs \<Longrightarrow> I s \<Longrightarrow> keeps I (f x s)"
  shows "keeps I (loopE f xs s)"
  using assms
proof (induction xs arbitrary: s)
  case (Cons x xs)
  have "keeps I (f x s)" using Cons.prems by simp
  then show ?case
    using Cons.IH Cons.prems(2) by (auto intro!: retE_bind [of _ "f x s"])
qed simp

lemma camera_accepted:
  assumes "accepted e s" and "camera_apart env"
  shows "keeps (accepted e) (LoadAllConfigXmlFile env CAMERA_AWARE_CONFIG_XML s)"
  unfolding LoadAllConfigXmlFile_def
  by (rule keeps_loopE_set [where I = "accepted e", OF assms(1)])
    (use assms(2) in \<open>auto simp: camera_apart_def list_all_iff intro: LoadConfigXmlFile_accepted(2)\<close>)

lemma accepted_fields:
  "accepted e s \<Longrightarrow> accepted e (s\<lparr>g_resStrToIdInfo := []\<rparr>)"
  by (simp add: accepted_def loadInv_def nodes_ok_def pairs_ok_def modeActions_def)

theorem Config_Init_accepted:
  assumes acc: "accepted e s" and cam: "camera_apart env"
  shows "keepsOk (accepted e) (Config_Init env s)"
proof -
  have c: "keepsOk (accepted e)
      (bindE (LoadAllConfigXmlFile env CAMERA_AWARE_CONFIG_XML t) (\<lambda>(_, s). Inr (True, s\<lparr>g_resStrToIdInfo := []\<rparr>)))"
    if "accepted e t" for t
    by (rule keeps_bind [OF camera_accepted [OF that cam]]) (simp add: accepted_fields)
  have b: "keepsOk (accepted e) (bindE (LoadAllConfigXmlFile env fl t) (\<lambda>(ok, s).
      if \<not> ok then Inr (False, s)
      else bindE (LoadAllConfigXmlFile env CAMERA_AWARE_CONFIG_XML s) (\<lambda>(_, s). Inr (True, s\<lparr>g_resStrToIdInfo := []\<rparr>))))"
    if "accepted e t" for t fl
    by (rule keepsOk_bind [OF keepsOk_LoadAll [OF that]]) (simp_all add: c)
  show ?thesis
    unfolding Config_Init_def Let_def by (rule keepsOk_bind [OF keepsOk_LoadAll [OF acc]]) (simp_all add: b)
qed

lemma accepted_wf_nodes:
  assumes "accepted e s"
  shows "wf_nodes s"
proof -
  have "\<exists>n. p = Some n \<and> wf_node (resIds s) k n" if kp: "(k, p) \<in> set (resourceNodeInfo s)" for k p
  proof -
    obtain n where n: "p = Some n" "node_ok k n"
      using assms kp by (auto simp: accepted_def loadInv_def nodes_ok_def)
    have "pair = INVALID_VALUE \<or> pair \<in> resIds s" if "rn_class n = ResNode path pair" for path pair
      using assms kp that n(1) unfolding accepted_def pairs_ok_def by blast
    with n show ?thesis by (auto simp: wf_node_def node_ok_def split: NodeClass.splits)
  qed
  then show ?thesis using assms by (auto simp: wf_nodes_def accepted_def loadInv_def nodes_ok_def)
qed

lemma loadInv_typed:
  assumes "loadInv e s"
  shows "typed_config s"
proof -
  have "\<forall>v\<in>set (ac_variable ac). in_int64 v" if "actionsAt mode k s = Some as" "ac \<in> set (as_actionList as)" for mode k as ac
  proof -
    have "(k, Some as) \<in> set (modeActions mode s)"
      using that(1) by (auto simp: actionsAt_def ptrAt_def split: option.splits intro: map_of_SomeD)
    then show ?thesis using loadInv_modeActions [OF assms, of mode] that(2) by (auto simp: actions_ok_def)
  qed
  then show ?thesis by (auto simp: typed_config_def)
qed

lemma loadInv_no_null: "loadInv e s \<Longrightarrow> map_of (modeActions m s) k \<noteq> Some None"
  using loadInv_modeActions [of e s m] by (auto simp: actions_ok_def dest!: map_of_SomeD)

subsection \<open>Values the commands ask for\<close>

lemma loopE_last:
  assumes "loopE f xs s = Inr (True, s')" and "xs \<noteq> []"
  shows "\<exists>t. f (last xs) t = Inr (True, s')"
  using assms
proof (induction xs arbitrary: s)
  case (Cons x xs)
  from Cons.prems(1) obtain t where t: "f x s = Inr (True, t)" "loopE f xs t = Inr (True, s')"
    by (auto simp: bindE_Inr_iff split: if_splits)
  then show ?case using Cons.IH by (cases "xs = []") auto
qed simp

definition value_available :: "int \<Rightarrow> int \<Rightarrow> 'a SocPerfConfig_scheme \<Rightarrow> bool" where
  "value_available r v s \<longleftrightarrow> (\<exists>n. nodeAt (to_int32 r) s = Some n
     \<and> (rn_persistMode n = REPORT_TO_PERFSO \<or> rn_available n = [] \<or> v \<in> set (rn_available n)))"

lemma LoadConfig_checked:
  assumes "LoadConfig x s = Inr (True, s')"
  shows "CheckActionResIdAndValueValid s' = Inr True"
  using assms by (auto simp: LoadConfig_def bindE_Inr_iff split: if_splits)

lemma checked_available:
  assumes "CheckActionResIdAndValueValid s = Inr True" and "map_of (modeActions m s) k = Some (Some as)"
    and "ac \<in> set (as_actionList as)" and "(r, v) \<in> set (varPairs (ac_variable ac))"
  shows "value_available r v s"
proof -
  obtain ms where ms: "map_of (configPerfActionsInfo s) m = Some ms" "map_of ms k = Some (Some as)"
    using assms(2) by (auto simp: modeActions_def split: option.splits)
  from map_of_SomeD [OF ms(1)] assms(1) have "CheckActionsValid ms s = Inr True"
    by (auto simp: CheckActionResIdAndValueValid_def allE_True)
  with map_of_SomeD [OF ms(2)] have "list_all (\<lambda>a. TraversalActions a s) (as_actionList as)"
    by (auto simp: CheckActionsValid_def allE_True dest!: bspec [of _ _ "(k, Some as)"])
  with assms(3) have "TraversalActions ac s" by (auto simp: list_all_iff)
  with assms(4) show ?thesis
    by (auto simp: TraversalActions_def value_available_def list_all_iff split: option.splits)
qed

text \<open>The file the boost commands are read from depends on the boot parameter.\<close>

definition boostPaths :: "Env \<Rightarrow> string list" where
  "boostPaths env = GetAllRealConfigPath env
     (if length (env_kernel env) > 0 then SOCPERF_BOOST_CONFIG_XML_EXT else SOCPERF_BOOST_CONFIG_XML)"

lemma and_then_True:
  "bindE m (\<lambda>(ok, s). if \<not> ok then Inr (False, s) else f s) = Inr (True, c) \<longleftrightarrow> (\<exists>s. m = Inr (True, s) \<and> f s = Inr (True, c))"
  by (auto simp: bindE_Inr_iff)

lemma Config_Init_alt:
  "Config_Init env s =
     bindE (LoadAllConfigXmlFile env SOCPERF_RESOURCE_CONFIG_XML s) (\<lambda>(ok, s).
     if \<not> ok then Inr (False, s)
     else bindE (loopE (LoadConfigXmlFile env) (boostPaths env) s) (\<lambda>(ok, s).
       if \<not> ok then Inr (False, s)
       else bindE (LoadAllConfigXmlFile env CAMERA_AWARE_CONFIG_XML s) (\<lambda>(_, s).
         Inr (True, s\<lparr>g_resStrToIdInfo := []\<rparr>))))"
  unfolding Config_Init_def Let_def boostPaths_def LoadAllConfigXmlFile_def by (rule refl)

lemma Config_Init_checked:
  assumes init: "Config_Init env s = Inr (True, c)" and boost: "boostPaths env \<noteq> []"
    and last: "str_find SOCPERF_RESOURCE_CONFIG_XML (last (boostPaths env)) = None"
    and cam: "GetAllRealConfigPath env CAMERA_AWARE_CONFIG_XML = []"
  shows "CheckActionResIdAndValueValid c = Inr True"
proof -
  have cam': "LoadAllConfigXmlFile env CAMERA_AWARE_CONFIG_XML u = Inr (True, u)" for u :: "'a SocPerfConfig_scheme"
    by (simp add: LoadAllConfigXmlFile_def cam)
  obtain t u where l: "loopE (LoadConfigXmlFile env) (boostPaths env) t = Inr (True, u)"
    and c: "c = u\<lparr>g_resStrToIdInfo := []\<rparr>"
    using init unfolding Config_Init_alt and_then_True cam' by auto
  obtain t' where "LoadConfigXmlFile env (last (boostPaths env)) t' = Inr (True, u)"
    using loopE_last [OF l boost] by (elim exE)
  then have "CheckActionResIdAndValueValid u = Inr True"
    using last
    by (auto simp: LoadConfigXmlFile_def ParseBoostXmlFile_def split: if_splits option.splits dest: LoadConfig_checked)
  then show ?thesis
    by (simp add: c CheckActionResIdAndValueValid_def CheckActionsValid_def TraversalActions_def nodeAt_def)
qed

end
