(* ===== verification/ConfigTotal.thy ===== *)
theory ConfigTotal
  imports ConfigAccepted
begin

text \<open>
  The loader returns on every document: no null pointer is dereferenced, no cast is wrong and every
  split ends, whatever the resource files and the commands contain. The one exception are the
  attributes of a \<open>weak\<close> node, which \<open>LoadInterAction\<close> uses without a check; they must be present
  (\<open>weak_complete\<close>).
\<close>

abbreviation returns :: "error + 'a \<Rightarrow> bool" where
  "returns \<equiv> okE (\<lambda>_. True)"

lemma returns_iff: "returns m \<longleftrightarrow> (\<exists>x. m = Inr x)"
  by (simp add: okE_iff)

lemma returns_bind: "returns m \<Longrightarrow> (\<And>x. m = Inr x \<Longrightarrow> returns (f x)) \<Longrightarrow> returns (bindE m f)"
  by (auto simp: returns_iff)

lemma returns_deref: "p \<noteq> None \<Longrightarrow> (\<And>x. p = Some x \<Longrightarrow> returns (f x)) \<Longrightarrow> returns (bindE (derefE p) f)"
  by (auto simp: derefE_def)

lemma returns_loopE:
  assumes "I s" and "\<And>x s. x \<in> set xs \<Longrightarrow> I s \<Longrightarrow> returns (f x s)" and "\<And>x s. I s \<Longrightarrow> keeps I (f x s)"
  shows "returns (loopE f xs s)"
  using assms(1,2)
proof (induction xs arbitrary: s)
  case (Cons x xs)
  obtain ok t where t: "f x s = Inr (ok, t)" using Cons.prems(2) [of x s] Cons.prems(1) by (auto simp: returns_iff)
  then have "I t" using assms(3) [OF Cons.prems(1), of x] by simp
  then show ?case using Cons t by simp
qed simp

lemma returns_loopE_any: "(\<And>x s. x \<in> set xs \<Longrightarrow> returns (f x s)) \<Longrightarrow> returns (loopE f xs s)"
  by (rule returns_loopE [where I = "\<lambda>_. True"]) (simp_all add: retE_iff)

lemma returns_foldE: "(\<And>x s. x \<in> set xs \<Longrightarrow> returns (f x s)) \<Longrightarrow> returns (foldE f xs s)"
  by (rule okE_foldE) simp_all

lemma returns_allE: "(\<And>x. x \<in> set xs \<Longrightarrow> returns (f x)) \<Longrightarrow> returns (allE f xs)"
  by (induction xs) (auto intro: returns_bind)

lemma returns_split: "returns (splitE str [c])"
  by (simp add: splitE_def Split_char)

subsection \<open>Resources\<close>

lemma LoadResourceAvailable_returns: "returns (LoadResourceAvailable n str)"
  unfolding LoadResourceAvailable_def by (rule returns_bind [OF returns_split], rule returns_loopE_any) simp

lemma LoadFreqResourceContent_returns: "returns (LoadFreqResourceContent pm xs n s)"
proof -
  have "returns (bindE (case nd of None \<Rightarrow> Inr (True, m) | Some str \<Rightarrow> LoadResourceAvailable m str)
      (\<lambda>(ok, m). if \<not> ok then Inr (False, s) else Inr (True, insertNode m s)))" for nd m
    by (rule returns_bind) (auto simp: LoadResourceAvailable_returns split: option.split)
  then show ?thesis
    unfolding LoadFreqResourceContent_def Let_def
    by (auto simp: CheckResourceContent_def derefE_def split: prod.split option.splits)
qed

lemma TraversalFreqResource_returns: "returns (TraversalFreqResource x s)"
  unfolding TraversalFreqResource_def Let_def
  by (auto simp: CheckResourceTag_def LoadFreqResourceContent_returns intro!: returns_deref split: if_splits option.splits)

lemma CheckPairResIdValid_returns:
  assumes "nodes_ok s"
  shows "returns (CheckPairResIdValid s)"
proof -
  have "\<exists>n. p = Some n \<and> node_ok k n" if "(k, p) \<in> set (resourceNodeInfo s)" for k p
    using assms that by (auto simp: nodes_ok_def)
  then show ?thesis
    unfolding CheckPairResIdValid_def
    by (intro returns_allE) (fastforce simp: node_ok_def castPair_def split: NodeClass.splits)
qed

lemma CheckDefValid_returns:
  assumes "nodes_ok s"
  shows "returns (CheckDefValid s)"
proof -
  have "\<exists>n. p = Some n" if "(k, p) \<in> set (resourceNodeInfo s)" for k p
    using assms that by (auto simp: nodes_ok_def)
  then show ?thesis unfolding CheckDefValid_def by (intro returns_allE) fastforce
qed

lemma LoadResource_returns:
  assumes "loadInv e s"
  shows "returns (LoadResource x s)"
  unfolding LoadResource_def
proof (rule returns_bind)
  let ?f = "\<lambda>x s. if xn_name x = ''res'' then TraversalFreqResource x s else Inr (True, s)"
  show "returns (loopE ?f (xn_children x) s)"
    by (rule returns_loopE_any) (simp add: TraversalFreqResource_returns)
  have keep: "keeps (loadInv e) (loopE ?f (xn_children x) s)"
    by (rule keeps_loopE [where I = "loadInv e", OF assms]) (simp add: TraversalFreqResource_keeps)
  fix z
  assume z: "loopE ?f (xn_children x) s = Inr z"
  then have "nodes_ok (snd z)" using keep by (cases z) (simp add: loadInv_def)
  then show "returns (case z of (ok, s) \<Rightarrow> if \<not> ok then Inr (False, s)
      else bindE (CheckPairResIdValid s) (\<lambda>pairs. if \<not> pairs then Inr (False, s)
        else bindE (CheckDefValid s) (\<lambda>defs. Inr (defs, s))))"
    by (cases z) (auto intro!: returns_bind simp: CheckPairResIdValid_returns CheckDefValid_returns)
qed

lemma govContent_returns:
  assumes "gov_node k n"
  shows "returns (govContent pm x n)"
  using assms
  by (auto simp: govContent_def LoadGovResourceAvailable_def Let_def gov_node_def addAvailable_def
      intro!: returns_bind [OF returns_split] split: option.split NodeClass.split)

lemma govResource_returns: "returns (govResource x s)"
proof -
  have "returns (TraversalGovResource pm xs ((new_GovResNode k nm p)\<lparr>rn_trace := tr\<rparr>))" for pm xs k nm p tr
    unfolding TraversalGovResource_def
  proof (rule returns_loopE [where I = "gov_node k", OF _ govContent_returns govContent_gov])
    show "gov_node k ((new_GovResNode k nm p)\<lparr>rn_trace := tr\<rparr>)" by (simp add: gov_node_def new_GovResNode_def)
  qed
  then have "returns (bindE (TraversalGovResource pm xs ((new_GovResNode k nm p)\<lparr>rn_trace := tr\<rparr>)) (\<lambda>(ok, n). Inr (ok, g n)))"
    for pm xs k nm p tr and g :: "ResourceNode \<Rightarrow> 'a SocPerfConfig_scheme"
    by (rule returns_bind) (simp split: prod.split)
  then show ?thesis
    unfolding govResource_def Let_def
    by (auto simp: CheckGovResourceTag_def intro!: returns_deref split: if_splits option.splits)
qed

lemma LoadGovResource_returns:
  assumes "loadInv e s"
  shows "returns (LoadGovResource x s)"
  unfolding LoadGovResource_def
proof (rule returns_bind [OF returns_loopE_any])
  fix z
  assume z: "loopE govResource (xn_children x) s = Inr z"
  have "keeps (loadInv e) (loopE govResource (xn_children x) s)"
    by (rule keeps_loopE [where I = "loadInv e", OF assms govResource_keeps])
  then have "nodes_ok (snd z)" using z by (cases z) (simp add: loadInv_def)
  then show "returns (case z of (ok, s) \<Rightarrow> if \<not> ok then Inr (False, s)
      else bindE (CheckDefValid s) (\<lambda>defs. Inr (defs, s)))"
    by (cases z) (auto intro!: returns_bind simp: CheckDefValid_returns)
qed (rule govResource_returns)

lemma LoadSceneResource_returns: "returns (LoadSceneResource x s)"
proof -
  have "returns (TraversalSceneResource xs sc)" for xs sc
    unfolding TraversalSceneResource_def
    by (rule returns_loopE_any) (auto simp: sceneItem_def Let_def split: option.split)
  then have "returns (bindE (TraversalSceneResource xs sc) (\<lambda>(ok, sc). Inr (ok, g sc)))"
    for xs sc and g :: "SceneResNode \<Rightarrow> 'a SocPerfConfig_scheme"
    by (rule returns_bind) (simp split: prod.split)
  then have "returns (sceneResource y t)" for y and t :: "'a SocPerfConfig_scheme"
    unfolding sceneResource_def Let_def
    by (auto simp: CheckSceneResourceTag_def intro!: returns_deref split: if_splits)
  then show ?thesis unfolding LoadSceneResource_def by (rule returns_loopE_any)
qed

lemma ParseResourceXmlFile_returns:
  assumes "loadInv e s"
  shows "returns (ParseResourceXmlFile env x s)"
  unfolding ParseResourceXmlFile_def
proof (rule returns_loopE [where I = "loadInv e", OF assms])
  fix y and t :: "'a SocPerfConfig_scheme"
  assume inv: "loadInv e t"
  have scene: "returns (bindE (LoadSceneResource y t) (\<lambda>(_, s). Inr (True, s)))"
      "keeps (loadInv e) (bindE (LoadSceneResource y t) (\<lambda>(_, s). Inr (True, s)))"
    by (rule returns_bind [OF LoadSceneResource_returns], auto)
      (rule keeps_bind [OF LoadSceneResource_keeps [OF inv]], simp)
  let ?f = "if xn_name y = ''Resource'' then LoadResource y t
      else if xn_name y = ''GovResource'' then LoadGovResource y t
      else if xn_name y = ''SceneResource'' then bindE (LoadSceneResource y t) (\<lambda>(_, s). Inr (True, s))
      else if xn_name y = ''Info'' then Inr (True, LoadInfo env y t) else Inr (True, t)"
  show "returns ?f"
    using LoadResource_returns [OF inv] LoadGovResource_returns [OF inv] scene by simp
  show "keeps (loadInv e) ?f"
    using LoadResource_keeps [OF inv] LoadGovResource_keeps [OF inv] scene LoadInfo_keeps [OF inv] inv by simp
qed

subsection \<open>Commands\<close>

fun weak_complete :: "XmlNode \<Rightarrow> bool" where
  "weak_complete (XmlNode nm props c xs) \<longleftrightarrow>
     (nm = ''weak'' \<longrightarrow> list_all (\<lambda>a. map_of props a \<noteq> None) [''id'', ''type'', ''delay'']) \<and> list_all weak_complete xs"

lemma weak_complete_child: "weak_complete n \<Longrightarrow> x \<in> set (xn_children n) \<Longrightarrow> weak_complete x"
  by (cases n) (simp add: list_all_iff)

lemma weak_complete_props:
  assumes "weak_complete n" and "xn_name n = ''weak''"
  shows "xmlGetProp n ''id'' \<noteq> None" and "xmlGetProp n ''type'' \<noteq> None" and "xmlGetProp n ''delay'' \<noteq> None"
  using assms by (cases n, simp add: xmlGetProp_def)+

lemma LoadInterAction_returns:
  assumes "weak_complete x"
  shows "returns (LoadInterAction x s)"
  unfolding LoadInterAction_def
proof (rule returns_foldE)
  fix y and t :: "'a SocPerfConfig_scheme"
  assume y: "y \<in> set (xn_children x)"
  show "returns (if xn_name y \<noteq> ''weak'' then Inr t
      else bindE (derefE (xmlGetProp y ''id'')) (\<lambda>cmdId. bindE (derefE (xmlGetProp y ''type'')) (\<lambda>actionType.
        bindE (derefE (xmlGetProp y ''delay'')) (\<lambda>delayTime.
        Inr (t\<lparr>interAction := interAction t @ [new_InterAction (atoi cmdId) (atoi actionType) (atoll delayTime)]\<rparr>)))))"
    using weak_complete_props [OF weak_complete_child [OF assms y]] by (auto intro!: returns_deref)
qed

lemma boostContent_returns: "returns (boostContent s x z)"
  by (simp add: boostContent_def Let_def split: prod.split)

lemma TraversalBoostResource_returns: "returns (TraversalBoostResource xs as s)"
  unfolding TraversalBoostResource_def
proof (rule returns_loopE_any)
  fix x and z :: "Actions \<times> 'a SocPerfConfig_scheme"
  show "returns (boostAction x z)"
    unfolding boostAction_def Let_def
    by (cases z) (auto intro!: returns_bind returns_loopE_any simp: boostContent_returns split: prod.split)
qed

lemma ParseModeCmd_returns: "returns (ParseModeCmd mode as)"
  unfolding ParseModeCmd_def
  by (rule returns_bind [OF returns_split], rule returns_foldE) 
    (auto simp: modePair_def Let_def intro!: returns_bind [OF returns_split])

lemma LoadCmdInfo_returns: "returns (LoadCmdInfo x mode s)"
proof -
  have "returns (bindE (TraversalBoostResource xs as s) (\<lambda>(ok, as, t). if \<not> ok then Inr (False, t) else Inr (True, g as t)))"
    for xs as and g :: "Actions \<Rightarrow> 'a SocPerfConfig_scheme \<Rightarrow> 'a SocPerfConfig_scheme"
    by (rule returns_bind [OF TraversalBoostResource_returns]) (simp split: prod.split)
  then show ?thesis
    unfolding LoadCmdInfo_def Let_def
    by (auto simp: CheckCmdTag_def intro!: returns_deref returns_bind [OF ParseModeCmd_returns] split: if_splits option.splits)
qed

lemma LoadConfigInfo_returns:
  assumes "weak_complete x"
  shows "returns (LoadConfigInfo x mode s)"
  unfolding LoadConfigInfo_def
  by (rule returns_loopE_any)
    (auto simp: LoadCmdInfo_returns intro!: returns_bind [OF LoadInterAction_returns] weak_complete_child [OF assms])

lemma HandleConfigNode_returns:
  assumes "list_all weak_complete xs"
  shows "returns (HandleConfigNode xs s)"
  unfolding HandleConfigNode_def Let_def
  by (rule returns_loopE_any) (use assms in \<open>auto simp: list_all_iff intro!: LoadConfigInfo_returns\<close>)

lemma CheckActionResIdAndValueValid_returns:
  assumes "loadInv e s"
  shows "returns (CheckActionResIdAndValueValid s)"
  unfolding CheckActionResIdAndValueValid_def
proof (rule returns_allE)
  fix z
  assume z: "z \<in> set (configPerfActionsInfo s)"
  then have "actions_ok (snd z)" using assms by (auto simp: loadInv_def)
  then have "\<exists>as. snd y = Some as" if "y \<in> set (snd z)" for y
    using that by (cases y) (auto simp: actions_ok_def)
  then have "returns (CheckActionsValid (snd z) s)"
    unfolding CheckActionsValid_def by (intro returns_allE) (fastforce split: prod.split)
  then show "returns (case z of (mode, actionsInfo) \<Rightarrow> CheckActionsValid actionsInfo s)" by (cases z) simp
qed

lemma LoadConfig_returns:
  assumes inv: "loadInv e s" and x: "weak_complete x"
  shows "returns (LoadConfig x s)"
proof -
  let ?m = "if IsConfigTag x then HandleConfigNode (xn_children x) s else LoadConfigInfo x DEFAULT_CONFIG_MODE s"
  have c: "cmdInv (resourceNodeInfo s) e s" using inv by (simp add: cmdInv_def)
  have "list_all weak_complete (xn_children x)" using weak_complete_child [OF x] by (simp add: list_all_iff)
  then have "returns ?m" by (simp add: HandleConfigNode_returns LoadConfigInfo_returns x)
  moreover have "keeps (cmdInv (resourceNodeInfo s) e) ?m"
    using HandleConfigNode_keeps [OF c] LoadConfigInfo_keeps [OF c] by simp
  ultimately obtain ok t where t: "?m = Inr (ok, t)" "loadInv e t" by (auto simp: returns_iff cmdInv_def)
  show ?thesis
    unfolding LoadConfig_def t(1)
    by (auto intro!: returns_bind [OF CheckActionResIdAndValueValid_returns [OF t(2)]])
qed

subsection \<open>Files\<close>

definition documents_complete :: "Env \<Rightarrow> bool" where
  "documents_complete env \<longleftrightarrow> (\<forall>p x. env_xml env p = Some (Some x) \<longrightarrow> weak_complete x)"

lemma LoadAllConfigXmlFile_returns:
  assumes inv: "loadInv e s" and docs: "documents_complete env"
  shows "returns (LoadAllConfigXmlFile env name s)"
  unfolding LoadAllConfigXmlFile_def
proof (rule returns_loopE [where I = "loadInv e", OF inv _ LoadConfigXmlFile_keeps])
  fix p and t :: "'a SocPerfConfig_scheme"
  assume "loadInv e t"
  with docs show "returns (LoadConfigXmlFile env p t)"
    unfolding LoadConfigXmlFile_def ParseBoostXmlFile_def
    by (auto simp: documents_complete_def intro!: ParseResourceXmlFile_returns LoadConfig_returns split: option.split)
qed

theorem Config_Init_returns:
  assumes inv: "loadInv e s" and docs: "documents_complete env"
  shows "returns (Config_Init env s)"
proof -
  have step: "returns (bindE (LoadAllConfigXmlFile env name t) (\<lambda>(ok, s). if \<not> ok then Inr (False, s) else f s))"
    if "loadInv e t" and "\<And>u. loadInv e u \<Longrightarrow> returns (f u)" for name t f
    using LoadAllConfigXmlFile_returns [OF that(1) docs, of name] LoadAllConfigXmlFile_keeps [OF that(1), of env name] that(2)
    by (auto simp: returns_iff)
  have camera: "returns (bindE (LoadAllConfigXmlFile env CAMERA_AWARE_CONFIG_XML t)
      (\<lambda>(_, s). Inr (True, s\<lparr>g_resStrToIdInfo := []\<rparr>)))" if "loadInv e t" for t
    using LoadAllConfigXmlFile_returns [OF that docs] by (rule returns_bind) (simp split: prod.split)
  show ?thesis
    unfolding Config_Init_def Let_def by (intro step camera inv)
qed

end
