(* ===== verification/LruCache.thy ===== *)
theory LruCache
  imports Prelude
begin

text \<open>
  \<open>SocPerfLRUCache\<close> (\<open>common/include/socperf_lru_cache.h\<close>): a list of entries, most recently used
  first, and a map from keys to iterators into the list. An iterator is the identity of a list node.
  The cache refines the recency list \<open>spec_get\<close>/\<open>spec_put\<close>, and its laws are the locale
  \<open>cache\<close>, which the permission check of the server uses.
\<close>

subsection \<open>State and operations\<close>

record ('k, 'v) LruNode =
  nd_id :: nat
  nd_key :: 'k
  nd_value :: 'v

record ('k, 'v) SocPerfLRUCache =
  capacity :: nat
  lruList :: "('k, 'v) LruNode list"
  relationMap :: "('k \<times> nat) list"
  nextNode :: nat

definition new_SocPerfLRUCache :: "nat \<Rightarrow> ('k, 'v) SocPerfLRUCache" where
  "new_SocPerfLRUCache n = \<lparr>capacity = n, lruList = [], relationMap = [], nextNode = 0\<rparr>"

text \<open>Dereferencing an iterator, and the list without the node it points to.\<close>

definition nodeOf :: "nat \<Rightarrow> ('k, 'v) LruNode list \<Rightarrow> error + ('k, 'v) LruNode" where
  "nodeOf it l = (case filter (\<lambda>n. nd_id n = it) l of [] \<Rightarrow> Inl NullDeref | n # _ \<Rightarrow> Inr n)"

definition eraseNode :: "nat \<Rightarrow> ('k, 'v) LruNode list \<Rightarrow> ('k, 'v) LruNode list" where
  "eraseNode it l = eraseFirst (\<lambda>n. nd_id n = it) l"

definition lru_get ::
  "'k \<Rightarrow> ('k, 'v) SocPerfLRUCache \<Rightarrow> error + ('v option \<times> ('k, 'v) SocPerfLRUCache)" where
  "lru_get key c =
     (case map_of (relationMap c) key of
        None \<Rightarrow> Inr (None, c)
      | Some it \<Rightarrow>
          bindE (nodeOf it (lruList c)) (\<lambda>n.
          Inr (Some (nd_value n), c\<lparr>lruList := n # eraseNode it (lruList c)\<rparr>)))"

text \<open>\<open>push_front\<close> of a new node, and \<open>relationMap[key] = lruList.begin()\<close>.\<close>

definition pushFront :: "'k \<Rightarrow> 'v \<Rightarrow> ('k, 'v) SocPerfLRUCache \<Rightarrow> ('k, 'v) SocPerfLRUCache" where
  "pushFront key value c =
     c\<lparr>lruList := \<lparr>nd_id = nextNode c, nd_key = key, nd_value = value\<rparr> # lruList c,
       relationMap := AList.update key (nextNode c) (relationMap c), nextNode := Suc (nextNode c)\<rparr>"

definition lru_put ::
  "'k \<Rightarrow> 'v \<Rightarrow> ('k, 'v) SocPerfLRUCache \<Rightarrow> error + ('k, 'v) SocPerfLRUCache" where
  "lru_put key value c =
     (case map_of (relationMap c) key of
        Some it \<Rightarrow>
          bindE (nodeOf it (lruList c)) (\<lambda>n.
          if nd_id (hd (lruList c)) \<noteq> it then
            Inr (pushFront key value (c\<lparr>lruList := eraseNode it (lruList c)\<rparr>))
          else Inr (c\<lparr>lruList := n\<lparr>nd_value := value\<rparr> # tl (lruList c)\<rparr>))
      | None \<Rightarrow>
          if capacity c \<le> length (lruList c) then
            bindE (if lruList c = [] then Inl OutOfRange else Inr (last (lruList c))) (\<lambda>b.
            Inr (pushFront key value
              (c\<lparr>relationMap := AList.delete (nd_key b) (relationMap c), lruList := butlast (lruList c)\<rparr>)))
          else Inr (pushFront key value c))"

subsection \<open>The recency list\<close>

definition spec_get :: "'k \<Rightarrow> ('k \<times> 'v) list \<Rightarrow> 'v option \<times> ('k \<times> 'v) list" where
  "spec_get key xs = (case map_of xs key of None \<Rightarrow> (None, xs)
     | Some v \<Rightarrow> (Some v, (key, v) # AList.delete key xs))"

definition spec_put :: "nat \<Rightarrow> 'k \<Rightarrow> 'v \<Rightarrow> ('k \<times> 'v) list \<Rightarrow> ('k \<times> 'v) list" where
  "spec_put cap key value xs =
     (key, value) # (if map_of xs key \<noteq> None then AList.delete key xs else take (cap - 1) xs)"

definition entries :: "('k, 'v) SocPerfLRUCache \<Rightarrow> ('k \<times> 'v) list" where
  "entries c = map (\<lambda>n. (nd_key n, nd_value n)) (lruList c)"

definition lru_inv :: "('k, 'v) SocPerfLRUCache \<Rightarrow> bool" where
  "lru_inv c \<longleftrightarrow> 0 < capacity c \<and> length (lruList c) \<le> capacity c \<and>
     distinct (map nd_id (lruList c)) \<and> distinct (map nd_key (lruList c)) \<and>
     (\<forall>n\<in>set (lruList c). nd_id n < nextNode c) \<and>
     map_of (relationMap c) = map_of (map (\<lambda>n. (nd_key n, nd_id n)) (lruList c))"

subsection \<open>Refinement\<close>

lemma nodeOf_Inr:
  assumes "distinct (map nd_id l)" and "n \<in> set l"
  shows "nodeOf (nd_id n) l = Inr n"
proof -
  have "filter (\<lambda>m. nd_id m = nd_id n) l = [n]" using assms
  proof (induction l)
    case (Cons m l)
    show ?case
    proof (cases "m = n")
      case True
      with Cons.prems(1) show ?thesis by (auto simp: filter_empty_conv image_iff)
    next
      case False
      with Cons.prems have n: "n \<in> set l" by simp
      with Cons.prems(1) have "nd_id m \<noteq> nd_id n" by force
      with Cons.IH Cons.prems(1) n show ?thesis by simp
    qed
  qed simp
  then show ?thesis by (simp add: nodeOf_def)
qed

lemma eraseNode_keys:
  assumes "distinct (map nd_id l)" and "distinct (map nd_key l)" and "n \<in> set l"
  shows "map (\<lambda>n. (nd_key n, f n)) (eraseNode (nd_id n) l) = AList.delete (nd_key n) (map (\<lambda>n. (nd_key n, f n)) l)"
    and "eraseNode (nd_id n) l = filter (\<lambda>m. m \<noteq> n) l"
proof -
  show e: "eraseNode (nd_id n) l = filter (\<lambda>m. m \<noteq> n) l"
    using assms(1,3) unfolding eraseNode_def
  proof (induction l)
    case (Cons m l)
    show ?case
    proof (cases "nd_id m = nd_id n")
      case True
      then have "m = n" using Cons.prems by force
      with Cons.prems(1) have "n \<notin> set l" by auto
      with \<open>m = n\<close> show ?thesis by (auto intro: filter_True [symmetric])
    next
      case False
      with Cons show ?thesis by auto
    qed
  qed simp
  have "m \<noteq> n \<longleftrightarrow> nd_key m \<noteq> nd_key n" if "m \<in> set l" for m
    using that assms(2,3) by (auto dest: inj_onD simp: distinct_map)
  then show "map (\<lambda>n. (nd_key n, f n)) (eraseNode (nd_id n) l)
      = AList.delete (nd_key n) (map (\<lambda>n. (nd_key n, f n)) l)"
    unfolding e by (induction l) (auto simp: AList.delete_eq)
qed

lemma map_of_nodes:
  assumes "distinct (map nd_key l)"
  shows "map_of (map (\<lambda>n. (nd_key n, f n)) l) k = Some x \<longleftrightarrow> (\<exists>n\<in>set l. nd_key n = k \<and> f n = x)"
  using assms by (auto simp: map_of_eq_Some_iff comp_def)

lemma map_of_nodes_cong:
  assumes "distinct (map nd_key l)" and "distinct (map nd_key l')" and "set l = set l'"
  shows "map_of (map (\<lambda>n. (nd_key n, f n)) l) = map_of (map (\<lambda>n. (nd_key n, f n)) l')"
  using assms by (subst map_of_inject_set) (simp_all add: comp_def)

lemma lru_lookup:
  assumes "lru_inv c" and "map_of (relationMap c) key = Some it"
  obtains n where "n \<in> set (lruList c)" and "nd_id n = it" and "nd_key n = key"
    and "nodeOf it (lruList c) = Inr n" and "map_of (entries c) key = Some (nd_value n)"
proof -
  have d: "distinct (map nd_key (lruList c))" "distinct (map nd_id (lruList c))"
    using assms(1) by (simp_all add: lru_inv_def)
  obtain n where n: "n \<in> set (lruList c)" "nd_key n = key" "nd_id n = it"
    using assms map_of_nodes [OF d(1), of nd_id] by (auto simp: lru_inv_def)
  moreover have "nodeOf it (lruList c) = Inr n" using nodeOf_Inr [OF d(2) n(1)] n(3) by simp
  moreover have "map_of (entries c) key = Some (nd_value n)"
    unfolding entries_def using map_of_nodes [OF d(1), of nd_value] n by blast
  ultimately show thesis using that by blast
qed

lemma lru_lookup_None:
  assumes "lru_inv c"
  shows "map_of (relationMap c) key = None \<longleftrightarrow> map_of (entries c) key = None"
  using assms by (auto simp: lru_inv_def entries_def map_of_eq_None_iff image_image)

lemma pushFront_inv:
  assumes "length (lruList c) < capacity c" and "distinct (map nd_id (lruList c))"
    and "distinct (map nd_key (lruList c))" and "\<forall>n\<in>set (lruList c). nd_id n < nextNode c"
    and "key \<notin> nd_key ` set (lruList c)"
    and "\<And>k. k \<noteq> key \<Longrightarrow> map_of (relationMap c) k = map_of (map (\<lambda>n. (nd_key n, nd_id n)) (lruList c)) k"
  shows "lru_inv (pushFront key value c)" and "entries (pushFront key value c) = (key, value) # entries c"
    and "capacity (pushFront key value c) = capacity c"
  using assms by (auto simp: lru_inv_def pushFront_def entries_def update_conv' fun_eq_iff less_Suc_eq)

lemma lru_get_spec:
  assumes inv: "lru_inv c"
  shows "okE (\<lambda>(r, c'). (r, entries c') = spec_get key (entries c) \<and> lru_inv c' \<and> capacity c' = capacity c)
           (lru_get key c)"
proof (cases "map_of (relationMap c) key")
  case None
  then show ?thesis using inv lru_lookup_None [OF inv, of key] by (simp add: lru_get_def spec_get_def)
next
  case (Some it)
  obtain n where n: "n \<in> set (lruList c)" "nd_id n = it" "nd_key n = key" "nodeOf it (lruList c) = Inr n"
    "map_of (entries c) key = Some (nd_value n)"
    using inv Some by (rule lru_lookup)
  have d: "distinct (map nd_id (lruList c))" "distinct (map nd_key (lruList c))"
    using inv by (simp_all add: lru_inv_def)
  note er = eraseNode_keys [OF d n(1)]
  let ?l = "n # eraseNode it (lruList c)"
  have ent: "map (\<lambda>n. (nd_key n, nd_value n)) ?l = (key, nd_value n) # AList.delete key (entries c)"
    using er(1) [of nd_value] n(2,3) by (simp add: entries_def)
  have set_l: "set ?l = set (lruList c)" unfolding n(2) [symmetric] er(2) using n(1) by auto
  have len: "length ?l = length (lruList c)"
    using n(1) d(1) sum_length_filter_compl [of "\<lambda>m. m = n" "lruList c"] distinct_length_filter [of "lruList c" "\<lambda>m. m = n"]
    unfolding n(2) [symmetric] er(2) by (auto simp: distinct_map Collect_conv_if Int_def conj_commute)
  have dist: "distinct (map f ?l)" if "distinct (map f (lruList c))" for f :: "('a, 'b) LruNode \<Rightarrow> 'z"
    using that n(1) unfolding n(2) [symmetric] er(2) by (auto simp: distinct_map inj_on_def)
  have "map_of (map (\<lambda>n. (nd_key n, nd_id n)) ?l) = map_of (map (\<lambda>n. (nd_key n, nd_id n)) (lruList c))"
    by (rule map_of_nodes_cong [OF dist [OF d(2)] d(2) set_l])
  then have "lru_inv (c\<lparr>lruList := ?l\<rparr>)"
    using inv dist [OF d(1)] dist [OF d(2)] len set_l by (simp add: lru_inv_def del: set_simps length_Cons)
  then show ?thesis using Some n(4,5) ent by (simp add: lru_get_def spec_get_def entries_def)
qed

lemma lru_put_spec:
  assumes inv: "lru_inv c"
  shows "okE (\<lambda>c'. entries c' = spec_put (capacity c) key value (entries c) \<and> lru_inv c' \<and> capacity c' = capacity c)
           (lru_put key value c)"
proof (cases "map_of (relationMap c) key")
  case None
  have cap: "0 < capacity c" "length (lruList c) \<le> capacity c" using inv by (simp_all add: lru_inv_def)
  have d: "distinct (map nd_id (lruList c))" "distinct (map nd_key (lruList c))"
    and nxt: "\<forall>n\<in>set (lruList c). nd_id n < nextNode c"
    and rel: "map_of (relationMap c) = map_of (map (\<lambda>n. (nd_key n, nd_id n)) (lruList c))"
    using inv by (simp_all add: lru_inv_def)
  have miss: "map_of (entries c) key = None" using None lru_lookup_None [OF inv] by blast
  then have fresh: "key \<notin> nd_key ` set (lruList c)"
    by (force simp: entries_def map_of_eq_None_iff)
  show ?thesis
  proof (cases "capacity c \<le> length (lruList c)")
    case False
    then show ?thesis
      using pushFront_inv [of c key "value", OF _ d nxt fresh] None miss rel
      by (simp add: lru_put_def spec_put_def) (simp add: entries_def)
  next
    case True
    then have ne: "lruList c \<noteq> []" using cap by auto
    obtain ms b where l: "lruList c = ms @ [b]" using ne by (cases "lruList c" rule: rev_cases) auto
    let ?c = "c\<lparr>relationMap := AList.delete (nd_key b) (relationMap c), lruList := ms\<rparr>"
    have len: "length (lruList ?c) < capacity ?c" using cap by (simp add: l)
    have d': "distinct (map nd_id (lruList ?c))" "distinct (map nd_key (lruList ?c))" "nd_key b \<notin> nd_key ` set ms"
      using d by (simp_all add: l)
    have nxt': "\<forall>n\<in>set (lruList ?c). nd_id n < nextNode ?c" and fresh': "key \<notin> nd_key ` set (lruList ?c)"
      using nxt fresh by (simp_all add: l)
    have "map_of (relationMap ?c) = map_of (map (\<lambda>n. (nd_key n, nd_id n)) (lruList ?c))"
    proof -
      let ?f = "\<lambda>n. (nd_key n, nd_id n)"
      have "AList.delete (nd_key b) (map ?f (ms @ [b])) = map ?f ms"
        using d'(3) by (auto simp: AList.delete_eq filter_id_conv)
      then show ?thesis using delete_conv' [of "nd_key b" "map ?f (ms @ [b])"]
        by (simp add: delete_conv' rel l)
    qed
    then have "lru_inv (pushFront key value ?c)" "entries (pushFront key value ?c) = (key, value) # entries ?c"
      using pushFront_inv [of ?c key "value", OF len d'(1,2) nxt' fresh'] by simp_all
    moreover have "entries ?c = take (capacity c - 1) (entries c)"
      using True cap(2) by (simp add: entries_def l)
    moreover have "capacity (pushFront key value ?c) = capacity c" by (simp add: pushFront_def)
    ultimately show ?thesis using None miss True ne by (simp add: lru_put_def spec_put_def l)
  qed
next
  case (Some it)
  obtain n where n: "n \<in> set (lruList c)" "nd_id n = it" "nd_key n = key" "nodeOf it (lruList c) = Inr n"
    "map_of (entries c) key = Some (nd_value n)"
    using inv Some by (rule lru_lookup)
  have d: "distinct (map nd_id (lruList c))" "distinct (map nd_key (lruList c))"
    and cap: "length (lruList c) \<le> capacity c" "0 < capacity c"
    and nxt: "\<forall>n\<in>set (lruList c). nd_id n < nextNode c"
    and rel: "map_of (relationMap c) = map_of (map (\<lambda>n. (nd_key n, nd_id n)) (lruList c))"
    using inv by (simp_all add: lru_inv_def)
  obtain m ms where l: "lruList c = m # ms" using n(1) by (cases "lruList c") auto
  note er = eraseNode_keys [OF d n(1)]
  show ?thesis
  proof (cases "nd_id (hd (lruList c)) = it")
    case True
    then have mn: "m = n" using n(1,2) d(1) l by (auto simp: image_iff)
    then have "AList.delete key (entries c) = map (\<lambda>n. (nd_key n, nd_value n)) ms"
      using d(2) n(3) l by (force simp: entries_def intro!: AList.delete_id)
    moreover have "lru_inv (c\<lparr>lruList := n\<lparr>nd_value := value\<rparr> # ms\<rparr>)"
      using inv unfolding lru_inv_def l mn by simp
    ultimately show ?thesis
      using Some n True l by (simp add: lru_put_def spec_put_def entries_def)
  next
    case False
    let ?c = "c\<lparr>lruList := eraseNode it (lruList c)\<rparr>"
    have sub: "set (lruList ?c) \<subseteq> set (lruList c)" unfolding n(2) [symmetric] by (simp add: er(2))
    have "length (lruList ?c) < length (lruList c)"
      unfolding n(2) [symmetric] using n(1) by (simp add: er(2) length_filter_less)
    then have len: "length (lruList ?c) < capacity ?c" using cap by simp
    have d': "distinct (map nd_id (lruList ?c))" "distinct (map nd_key (lruList ?c))"
      using d unfolding n(2) [symmetric] by (simp_all add: er(2) distinct_map_filter)
    have nxt': "\<forall>n\<in>set (lruList ?c). nd_id n < nextNode ?c" using nxt sub by auto
    have keys: "map (\<lambda>n. (nd_key n, f n)) (lruList ?c) = AList.delete key (map (\<lambda>n. (nd_key n, f n)) (lruList c))"
      for f :: "('a, 'b) LruNode \<Rightarrow> 'z"
      using er(1) [of f] n(2,3) by simp
    have "fst ` set (map (\<lambda>n. (nd_key n, nd_id n)) (lruList ?c)) = nd_key ` set (lruList ?c)"
      by (simp add: image_image)
    then have fresh': "key \<notin> nd_key ` set (lruList ?c)"
      unfolding keys using AList.delete_notin_dom by metis
    have rel': "map_of (relationMap ?c) k = map_of (map (\<lambda>n. (nd_key n, nd_id n)) (lruList ?c)) k" if "k \<noteq> key" for k
      unfolding keys using that rel by (simp add: delete_conv)
    have "lru_inv (pushFront key value ?c)" "entries (pushFront key value ?c) = (key, value) # entries ?c"
      using pushFront_inv [of ?c key "value", OF len d' nxt' fresh' rel'] by simp_all
    moreover have "entries ?c = AList.delete key (entries c)" unfolding entries_def by (rule keys)
    moreover have "capacity (pushFront key value ?c) = capacity c" by (simp add: pushFront_def)
    ultimately show ?thesis using Some n False by (simp add: lru_put_def spec_put_def)
  qed
qed

subsection \<open>The interface\<close>

text \<open>
  What a client may rely on: a lookup does not change what is stored, a stored value is found, and
  every value found was there before or is the one just stored.
\<close>

locale cache =
  fixes get :: "'k \<Rightarrow> 's \<Rightarrow> error + ('v option \<times> 's)" and put :: "'k \<Rightarrow> 'v \<Rightarrow> 's \<Rightarrow> error + 's"
    and stored :: "'s \<Rightarrow> 'k \<Rightarrow> 'v option" and inv :: "'s \<Rightarrow> bool"
  assumes get_ok: "inv c \<Longrightarrow> okE (\<lambda>(r, c'). inv c' \<and> r = stored c k \<and> stored c' = stored c) (get k c)"
    and put_ok: "inv c \<Longrightarrow> okE (\<lambda>c'. inv c' \<and> stored c' k = Some v
                   \<and> (\<forall>j. j \<noteq> k \<longrightarrow> stored c' j = stored c j \<or> stored c' j = None)) (put k v c)"
begin

text \<open>A computation memoised through the cache.\<close>

definition memo :: "('k \<Rightarrow> 'v) \<Rightarrow> 'k \<Rightarrow> 's \<Rightarrow> error + ('v \<times> 's)" where
  "memo f k c = bindE (get k c) (\<lambda>(r, c). case r of
     Some v \<Rightarrow> Inr (v, c)
   | None \<Rightarrow> bindE (put k (f k) c) (\<lambda>c. Inr (f k, c)))"

lemma memo_ok:
  assumes "inv c"
  shows "okE (\<lambda>(v, c'). inv c' \<and> v = (case stored c k of None \<Rightarrow> f k | Some w \<Rightarrow> w)
           \<and> stored c' k = Some v \<and> (\<forall>j. stored c' j = None \<or> stored c' j = stored c j \<or> j = k)) (memo f k c)"
  unfolding memo_def
proof (rule okE_bind [OF get_ok [OF assms, of k]], clarify)
  fix r c1 assume c1: "inv c1" "stored c1 = stored c"
  show "okE (\<lambda>(v, c'). inv c' \<and> v = (case stored c k of None \<Rightarrow> f k | Some w \<Rightarrow> w)
      \<and> stored c' k = Some v \<and> (\<forall>j. stored c' j = None \<or> stored c' j = stored c j \<or> j = k))
      (case stored c k of None \<Rightarrow> bindE (put k (f k) c1) (\<lambda>c. Inr (f k, c)) | Some v \<Rightarrow> Inr (v, c1))"
  proof (cases "stored c k")
    case None
    show ?thesis unfolding None option.case
      by (rule okE_bind [OF put_ok [OF c1(1), of k "f k"]]) (auto simp: c1)
  next
    case (Some v)
    then show ?thesis using c1 by simp
  qed
qed

text \<open>Once a result is stored, the function is not consulted for that key.\<close>

lemma memo_stale:
  assumes "inv c" and "stored c k = Some v"
  shows "okE (\<lambda>(w, c'). w = v \<and> stored c' k = Some v) (memo f k c)"
  by (rule okE_mono [OF memo_ok [OF assms(1)]]) (use assms(2) in auto)

end

definition storedIn :: "('k, 'v) SocPerfLRUCache \<Rightarrow> 'k \<Rightarrow> 'v option" where
  "storedIn c = map_of (entries c)"

lemma distinct_entries: "lru_inv c \<Longrightarrow> distinct (map fst (entries c))"
  by (simp add: lru_inv_def entries_def comp_def)

lemma spec_get_stored:
  "spec_get k xs = (r, ys) \<Longrightarrow> r = map_of xs k \<and> map_of ys = map_of xs"
  by (auto simp: spec_get_def delete_conv' fun_eq_iff split: option.splits)

lemma spec_put_stored:
  assumes "distinct (map fst xs)"
  shows "map_of (spec_put n k v xs) k = Some v"
    and "j \<noteq> k \<Longrightarrow> map_of (spec_put n k v xs) j = map_of xs j \<or> map_of (spec_put n k v xs) j = None"
proof -
  show "map_of (spec_put n k v xs) k = Some v" by (simp add: spec_put_def)
  assume j: "j \<noteq> k"
  have "map_of (take m xs) j = map_of xs j \<or> map_of (take m xs) j = None" for m
  proof (cases "map_of (take m xs) j")
    case (Some w)
    then have "(j, w) \<in> set xs" by (meson in_set_takeD map_of_SomeD)
    with assms Some show ?thesis by (simp add: map_of_is_SomeI)
  qed simp
  then show "map_of (spec_put n k v xs) j = map_of xs j \<or> map_of (spec_put n k v xs) j = None"
    using j by (simp add: spec_put_def)
qed

interpretation lru: cache lru_get lru_put storedIn lru_inv
proof
  fix c :: "('k, 'v) SocPerfLRUCache" and k v
  assume inv: "lru_inv c"
  show "okE (\<lambda>(r, c'). lru_inv c' \<and> r = storedIn c k \<and> storedIn c' = storedIn c) (lru_get k c)"
    by (rule okE_mono [OF lru_get_spec [OF inv]])
      (auto simp: storedIn_def dest!: spec_get_stored [OF sym])
  show "okE (\<lambda>c'. lru_inv c' \<and> storedIn c' k = Some v
      \<and> (\<forall>j. j \<noteq> k \<longrightarrow> storedIn c' j = storedIn c j \<or> storedIn c' j = None)) (lru_put k v c)"
    by (rule okE_mono [OF lru_put_spec [OF inv]])
      (simp add: storedIn_def spec_put_stored [OF distinct_entries [OF inv]])
qed

end
