(* ===== verification/Example.thy ===== *)
theory Example
  imports Guarantees SocperfCore LruCache
begin

text \<open>
  A small configuration: a pair of frequency resources, a governor resource reported to the perf
  library, one boost command with an instant and a long action, and one weak interaction. It shows
  that the invariants can hold, and the witnesses evaluate the model on it.
\<close>

definition demoNodes :: "(int \<times> ResourceNode option) list" where
  "demoNodes =
     [(1000, Some ((new_ResNode 1000 ''lit_cpu_min_freq'' 0 1001 0)\<lparr>rn_def := 500, rn_available := [500, 1000, 2000]\<rparr>)),
      (1001, Some ((new_ResNode 1001 ''lit_cpu_max_freq'' 1 1000 0)\<lparr>rn_def := 2000, rn_available := [500, 1000, 2000]\<rparr>)),
      (2000, Some ((new_GovResNode 2000 ''gov'' 1)\<lparr>rn_def := 0, rn_available := [0, 1]\<rparr>))]"

definition demoActions :: "(int \<times> Actions option) list" where
  "demoActions =
     [(9101, Some ((new_Actions 9101 ''weak'')
         \<lparr>as_actionList := [new_Action\<lparr>ac_duration := 0, ac_variable := [1001, 1000]\<rparr>]\<rparr>)),
      (10010, Some ((new_Actions 10010 ''touch_down'')
         \<lparr>as_actionList := [new_Action\<lparr>ac_duration := 100, ac_variable := [1000, 1000, 2000, 1]\<rparr>,
                            new_Action\<lparr>ac_duration := 0, ac_variable := [1001, 2000]\<rparr>]\<rparr>))]"

definition demo0 :: SocPerf where
  "demo0 = new_SocPerf\<lparr>reportFunc := Some ''perf_so'', resourceNodeInfo := demoNodes,
     configPerfActionsInfo := [(DEFAULT_CONFIG_MODE, demoActions)],
     interAction := [new_InterAction 9101 2 500], enabled := True\<rparr>"

definition demo1 :: SocPerf where
  "demo1 = initResourceNodeInfoFunc demo0"

lemmas demo_defs = demo0_def demoNodes_def demoActions_def new_SocPerf_def new_ResNode_def
  new_GovResNode_def new_Actions_def new_Action_def new_InterAction_def

lemma demo0_sel [simp]:
  "resourceNodeInfo demo0 = demoNodes" "resStatusInfo demo0 = []" "socperfQueue demo0 = []"
  "interAction demo0 = [new_InterAction 9101 2 500]" "nextHandle demo0 = 0"
  "configPerfActionsInfo demo0 = [(DEFAULT_CONFIG_MODE, demoActions)]"
  by (simp_all add: demo0_def new_SocPerf_def)

lemma demo_wf_nodes: "wf_nodes demo0"
  by (simp add: wf_nodes_def wf_node_def demoNodes_def new_ResNode_def new_GovResNode_def)

lemma demo_avail: "avail_ok demo0"
  by (auto simp: avail_ok_def nodeAt_def ptrAt_def demoNodes_def in_int64_def split: if_splits)

lemma demo_typed: "typed_config demo0"
  by (auto simp: typed_config_def actionsAt_def modeActions_def ptrAt_def demoActions_def in_int64_def
      split: if_splits option.splits)

lemma demo_start: "startInv demo0"
proof -
  have "timerInv demo0"
    by (simp add: timerInv_def sq.handles_ok_def timers_def sq.tasks_of_def pendingOf_def timer_ok_def
        new_InterAction_def)
  moreover have "queue_ok demo0" by (simp add: queue_ok_def pendingOf_def)
  moreover have "inter_ok demo0" by (simp add: inter_ok_def new_InterAction_def)
  ultimately show ?thesis
    using demo_wf_nodes demo_avail demo_typed
    by (simp add: startInv_def confInv_def statuses_def new_InterAction_def)
qed

lemma demo1_inv: "wrapInv demo1"
  unfolding demo1_def by (rule initResourceNodeInfoFunc_inv(1) [OF demo_start])

text \<open>The first closure leaves every resource without actions, and the queue as it was.\<close>

lemma demo1_stm: "stm demo1 k = (if k \<in> {1000, 1001, 2000} then Some new_ResStatus else None)"
  using initResourceNodeInfoFunc_inv(2) [OF demo_start] by (simp add: demo1_def demoNodes_def)

lemma demo1_sel [simp]:
  "socperfQueue demo1 = []" "resourceNodeInfo demo1 = demoNodes" "powerLimitBoost demo1 = False"
  "thermalLimitBoost demo1 = False" "interAction demo1 = [new_InterAction 9101 2 500]"
  "boostResCnt demo1 = 0" "wrapThermalLvl demo1 = 0" "weakInteractionStatus demo1"
  "reportFunc demo1 = Some ''perf_so''"
proof -
  obtain m r where eq: "demo1 = demo0\<lparr>resStatusInfo := m, reports := r\<rparr>"
    unfolding demo1_def by (rule initResourceNodeInfoFunc_frame [OF demo_wf_nodes]) simp
  show "socperfQueue demo1 = []" "resourceNodeInfo demo1 = demoNodes" "powerLimitBoost demo1 = False"
    "thermalLimitBoost demo1 = False" "interAction demo1 = [new_InterAction 9101 2 500]"
    "boostResCnt demo1 = 0" "wrapThermalLvl demo1 = 0" "weakInteractionStatus demo1"
    "reportFunc demo1 = Some ''perf_so''"
    unfolding eq by (simp_all add: demo0_def new_SocPerf_def)
qed

lemma demo_pairOf:
  "pairOf k demo1 = (if k = 1000 then Some 1001 else if k = 1001 then Some 1000 else None)"
  "isMaxRes k demo1 = (k = 1001)"
  by (auto simp: pairOf_def isMaxRes_def nodeAt_def ptrAt_def demoNodes_def new_ResNode_def new_GovResNode_def)

lemma demo_sym: "sym_pairs demo1"
  by (auto simp: sym_pairs_def demo_pairOf split: if_splits)

lemma demo_sendable: "sendable demo1 k \<longleftrightarrow> k \<in> {1000, 1001, 2000}"
  by (auto simp: sendable_def nodeAt_def ptrAt_def demoNodes_def new_ResNode_def new_GovResNode_def)

text \<open>An action that boosts, and the item that carries it.\<close>

definition demoAction :: ResAction where
  "demoAction = new_ResAction 0 1000 100 ACTION_TYPE_PERF EVENT_INVALID 10010 5000"

lemma demoAction_sel [simp]:
  "ra_type demoAction = 0" "ra_value demoAction = 1000" "ra_endTime demoAction = 5000"
  "typed_action demoAction"
  by (simp_all add: demoAction_def new_ResAction_def typed_action_def in_int64_def)

text \<open>
  A state with requests that contradict each other: the minimum of the pair is asked to be 2000, the
  maximum 1000. Without a limit in force the minimum wins.
\<close>

definition demoItems :: "ResActionItem list" where
  "demoItems =
     [\<lparr>it_resId = 1000, it_resAction = new_ResAction 0 2000 100 ACTION_TYPE_PERF EVENT_INVALID 10010 5000\<rparr>,
      \<lparr>it_resId = 1001, it_resAction = new_ResAction 1 1000 100 ACTION_TYPE_PERF EVENT_INVALID 10010 5000\<rparr>]"

definition demo2 :: SocPerf where
  "demo2 = (case doFreqActionPackFunc demoItems demo1 of Inr s \<Rightarrow> s | Inl e \<Rightarrow> demo1)"

lemma demo2_inv: "wrapInv demo2"
proof -
  have "okE wrapInv (doFreqActionPackFunc demoItems demo1)"
    by (rule doFreqActionPackFunc_inv [OF wrapInv_mid [OF demo1_inv]])
      (simp add: demoItems_def typed_item_def typed_action_def new_ResAction_def in_int64_def)
  then show ?thesis by (auto simp: demo2_def okE_iff)
qed

text \<open>What the properties look at, computed once.\<close>

definition demoView :: "SocPerf \<Rightarrow> _" where
  "demoView s = (map (\<lambda>k. map_option rs_candidate (stm s k)) [1000, 1001],
     map (lastSent (reports s)) [1000, 1001], resourceNodeInfo s, reportFunc s, boostResCnt s)"

lemma demo2_view:
  "demoView demo2 = ([Some 2000, Some 1000], [Some 2000, Some 2000], demoNodes, Some ''perf_so'', 2)"
  by code_simp

lemma demo2_values:
  "map_option rs_candidate (stm demo2 1000) = Some 2000"
  "map_option rs_candidate (stm demo2 1001) = Some 1000"
  "lastSent (reports demo2) 1000 = Some 2000" "lastSent (reports demo2) 1001 = Some 2000"
  "resourceNodeInfo demo2 = demoNodes" "reportFunc demo2 = Some ''perf_so''" "boostResCnt demo2 = 2"
  using demo2_view by (simp_all add: demoView_def)

lemma demo2_nodes:
  "pairOf k demo2 = pairOf k demo1" "isMaxRes k demo2 = isMaxRes k demo1" "sym_pairs demo2"
  "sendable demo2 k = sendable demo1 k"
proof -
  have nodes: "resourceNodeInfo demo2 = resourceNodeInfo demo1" by (simp add: demo2_values)
  show "pairOf k demo2 = pairOf k demo1" by (rule pairOf_cong [OF nodes])
  show "isMaxRes k demo2 = isMaxRes k demo1" by (rule isMaxRes_cong [OF nodes])
  show "sym_pairs demo2" using sym_pairs_cong [OF nodes] demo_sym by simp
  show "sendable demo2 k = sendable demo1 k"
    by (rule sendable_cong [OF nodes]) (simp add: demo2_values)
qed

end
