(* ===== verification/Service.thy ===== *)
theory Service
  imports System ConfigTotal Example
begin

text \<open>
  The service from its configuration files on: the loader fills the tables, \<open>Init\<close> builds the thread
  wrap on them, and requests and closures run in any order. What the loader does not check is
  \<open>references_ok\<close>: the interactions have an action type of the table of candidates, and every command
  an interaction or a thermal level names is configured.
\<close>

definition references_ok :: "'a SocPerfConfig_scheme \<Rightarrow> bool" where
  "references_ok c \<longleftrightarrow>
     list_all (\<lambda>(m, as). list_all (\<lambda>(k, p). case p of None \<Rightarrow> True | Some a \<Rightarrow>
       list_all (\<lambda>ac. ac_thermalCmdId ac = INVALID_THERMAL_CMD_ID
         \<or> map_of (modeActions DEFAULT_CONFIG_MODE c) (ac_thermalCmdId ac) \<noteq> None) (as_actionList a)) as)
       (configPerfActionsInfo c)
   \<and> list_all (\<lambda>ia. 0 \<le> ia_actionType ia \<and> ia_actionType ia < ACTION_TYPE_MAX
       \<and> map_of (modeActions DEFAULT_CONFIG_MODE c) (ia_cmdId ia) \<noteq> None
       \<and> (ia_cmdId ia = PERF_REQUEST_CMD_ID_WEAK_INTERACTION \<longrightarrow>
            map_of (modeActions DEFAULT_CONFIG_MODE c) PERF_REQUEST_CMD_ID_WEAK_INTERACTION_PERFORMANCE_MODE \<noteq> None))
       (interAction c)"

lemma references_closed:
  assumes refs: "references_ok c" and inv: "loadInv e c"
  shows "closed_config c" and "inter_ok c"
proof -
  have "map_of (modeActions DEFAULT_CONFIG_MODE c) (ac_thermalCmdId ac) \<noteq> None"
    if "actionsAt m k c = Some as" "ac \<in> set (as_actionList as)" "ac_thermalCmdId ac \<noteq> INVALID_THERMAL_CMD_ID"
    for m k as ac
  proof -
    have k: "map_of (modeActions m c) k = Some (Some as)"
      using that(1) by (simp add: actionsAt_def ptrAt_def split: option.splits)
    then obtain ms where "map_of (configPerfActionsInfo c) m = Some ms" "map_of ms k = Some (Some as)"
      by (cases "map_of (configPerfActionsInfo c) m") (simp_all add: modeActions_def)
    then have "(m, ms) \<in> set (configPerfActionsInfo c)" "(k, Some as) \<in> set ms" by (auto dest: map_of_SomeD)
    with refs that(2,3) show ?thesis by (force simp: references_ok_def list_all_iff)
  qed
  then have "thermal_configured c" by (auto simp: thermal_configured_def)
  moreover have "no_null c" using loadInv_no_null [OF inv] by (simp add: no_null_def)
  moreover have "inter_configured c" using refs by (auto simp: references_ok_def inter_configured_def list_all_iff)
  ultimately show "closed_config c" by (simp add: closed_config_def)
  show "inter_ok c" using refs by (auto simp: references_ok_def inter_ok_def list_all_iff)
qed

lemma accepted_new: "accepted (SocPerfConfig.more new_SocPerf) new_SocPerf"
  by (simp add: accepted_def loadInv_def nodes_ok_def pairs_ok_def new_SocPerf_def)

lemma limits_more:
  fixes c c' :: SocPerf
  assumes "SocPerfConfig.more c = SocPerfConfig.more c'"
  shows "limits_ok c = limits_ok c'"
  using assms by (cases c, cases c') (simp add: limits_ok_def)

lemma avail_accepted:
  assumes "loadInv e c"
  shows "avail_ok c"
proof -
  have "in_int64 v" if "nodeAt k c = Some n" "v \<in> set (rn_available n)" for k n v
  proof -
    have "(k, Some n) \<in> set (resourceNodeInfo c)"
      using that(1) by (auto simp: nodeAt_def ptrAt_def split: option.splits dest: map_of_SomeD)
    then show ?thesis using assms that(2) by (fastforce simp: loadInv_def nodes_ok_def node_ok_def)
  qed
  then show ?thesis by (auto simp: avail_ok_def)
qed

lemma accepted_loaded:
  assumes acc: "accepted (SocPerfConfig.more new_SocPerf) c" and refs: "references_ok c"
  shows "loaded c"
proof -
  have inv: "loadInv (SocPerfConfig.more new_SocPerf) c" using acc by (simp add: accepted_def)
  have "limits_ok c"
    using inv limits_more [of c new_SocPerf] by (simp add: loadInv_def limits_ok_def new_SocPerf_def)
  moreover have "confInv c"
    using loadInv_typed [OF inv] references_closed [OF refs inv] avail_accepted [OF inv] by (simp add: confInv_def)
  ultimately show ?thesis
    using accepted_wf_nodes [OF acc] references_closed [OF refs inv] inv by (simp add: loaded_def loadInv_def)
qed

text \<open>The whole start: the files are loaded, \<open>Init\<close> succeeds, and no step of the service fails.\<close>

theorem started:
  assumes load: "Config_Init env new_SocPerf = Inr (True, c)" and cam: "camera_apart env" and refs: "references_ok c"
  obtains s where "Init (Config_Init env) new_SocPerf = Inr (True, s)" and "enabled s" and "bootInv (hw c) s"
proof -
  have "accepted (SocPerfConfig.more new_SocPerf) c"
    using Config_Init_accepted [OF accepted_new cam] load by (simp add: retE_iff)
  from Init_boot [of "Config_Init env" new_SocPerf c, OF load accepted_loaded [OF this refs]] that show thesis
    by (auto simp: okE_iff)
qed

text \<open>In a state that has a status for some resource the first closure has run.\<close>

lemma started_sent:
  assumes load: "Config_Init env new_SocPerf = Inr (True, c)" and cam: "camera_apart env" and refs: "references_ok c"
    and sym: "sym_pairs c" and init: "Init (Config_Init env) new_SocPerf = Inr (True, s0)" and run: "reachable s0 s"
    and st: "stm s k = Some st"
  shows "wrapInv s \<and> sym_pairs s"
proof -
  have boot: "bootInv (hw c) s0" using started [OF load cam refs] init by auto
  then have "sym_pairs s0" using sym_pairs_hw [of s0 c] sym by (simp add: bootInv_def)
  with boot show ?thesis
    by (intro reachable_sent [OF run _ _ st, where h = "hw c"]) (simp_all add: sysInv_def)
qed

end
