(* ===== verification/ConfigCamera.thy ===== *)
theory ConfigCamera
  imports ConfigAccepted
begin

text \<open>
  The optional camera configuration is read last and its result is ignored: what it may do to the
  tables of the files read before, and what is left of it when the check refuses it.
\<close>

text \<open>A state that has the resources of another one and every command of it with its definition.\<close>

definition extends_config :: "'a SocPerfConfig_scheme \<Rightarrow> 'b SocPerfConfig_scheme \<Rightarrow> bool" where
  "extends_config c s \<longleftrightarrow> resourceNodeInfo s = resourceNodeInfo c
     \<and> (\<forall>mode k a. map_of (modeActions mode c) k = Some a \<longrightarrow> map_of (modeActions mode s) k = Some a)"

lemma extends_config_refl [simp]: "extends_config c c"
  by (simp add: extends_config_def)

lemma extends_config_fields:
  assumes "extends_config c s" and "resourceNodeInfo s' = resourceNodeInfo s"
    and "configPerfActionsInfo s' = configPerfActionsInfo s"
  shows "extends_config c s'"
  using assms by (simp add: extends_config_def modeActions_def)

lemma extends_config_add:
  assumes "extends_config c s"
  shows "extends_config c (s\<lparr>configPerfActionsInfo :=
     AList.update mode (mapInsert k a (modeActions mode s)) (configPerfActionsInfo s)\<rparr>)"
  using assms by (auto simp: extends_config_def modeActions_def update_conv' mapInsert_def)

subsection \<open>Reading commands\<close>

lemma LoadInterAction_extends:
  assumes "extends_config c s"
  shows "retE (extends_config c) (LoadInterAction x s)"
  unfolding LoadInterAction_def
  by (rule retE_foldE [where P = "extends_config c", OF assms])
    (auto intro!: retE_skip simp: extends_config_def modeActions_def)

text \<open>The actions of a command are read without touching the tables.\<close>

definition unchangedTables :: "'a SocPerfConfig_scheme \<Rightarrow> 'a SocPerfConfig_scheme \<Rightarrow> bool" where
  "unchangedTables s t \<longleftrightarrow> resourceNodeInfo t = resourceNodeInfo s \<and> configPerfActionsInfo t = configPerfActionsInfo s"

lemma boostAction_tables: "keeps (\<lambda>(as, t). unchangedTables s t) (boostAction x (as, t))" if "unchangedTables s t"
  using that unfolding boostAction_def Let_def
  by (auto intro!: retE_skip simp: unchangedTables_def noteThermalLvl_def)

lemma TraversalBoostResource_tables: "keeps (\<lambda>(as, t). unchangedTables s t) (TraversalBoostResource xs as s)"
  unfolding TraversalBoostResource_def
proof (rule keeps_loopE [where I = "\<lambda>(as, t). unchangedTables s t"])
  show "case (as, s) of (as, t) \<Rightarrow> unchangedTables s t" by (simp add: unchangedTables_def)
  show "keeps (\<lambda>(as, t). unchangedTables s t) (boostAction x z)" if "case z of (as, t) \<Rightarrow> unchangedTables s t" for x z
    using that by (cases z) (auto intro!: boostAction_tables)
qed

lemma LoadCmdInfo_extends:
  assumes ext: "extends_config c s"
  shows "keeps (extends_config c) (LoadCmdInfo x mode s)"
proof -
  have add: "keeps (extends_config c) (bindE (TraversalBoostResource xs as s) (\<lambda>(ok, actions, t).
      if \<not> ok then Inr (False, t)
      else Inr (True, t\<lparr>configPerfActionsInfo := AList.update m
        (mapInsert (as_id actions) (Some actions) (modeActions m s)) (configPerfActionsInfo t)\<rparr>)))" for xs as m
  proof (rule keeps_bind [OF TraversalBoostResource_tables])
    fix ok and z :: "Actions \<times> 'b SocPerfConfig_scheme"
    assume z: "case z of (as, t) \<Rightarrow> unchangedTables s t"
    have "extends_config c t" "modeActions m s = modeActions m t" if "unchangedTables s t" for t
      using that ext by (simp_all add: unchangedTables_def extends_config_def modeActions_def)
    then show "keeps (extends_config c) (case (ok, z) of (ok, actions, t) \<Rightarrow> if \<not> ok then Inr (False, t)
      else Inr (True, t\<lparr>configPerfActionsInfo := AList.update m
        (mapInsert (as_id actions) (Some actions) (modeActions m s)) (configPerfActionsInfo t)\<rparr>))"
      using z by (cases z) (auto intro: extends_config_add)
  qed
  show ?thesis
    unfolding LoadCmdInfo_def Let_def
    using ext by (auto intro!: retE_skip [of "derefE _"] retE_skip [of "ParseModeCmd _ _"] add split: option.split)
qed

lemma LoadConfigInfo_extends:
  assumes "extends_config c s"
  shows "keeps (extends_config c) (LoadConfigInfo x mode s)"
  unfolding LoadConfigInfo_def
  by (rule keeps_loopE [where I = "extends_config c", OF assms])
    (auto intro!: LoadCmdInfo_extends retE_bind [OF LoadInterAction_extends])

lemma LoadConfig_extends:
  assumes "extends_config c s"
  shows "keeps (extends_config c) (LoadConfig x s)"
proof -
  have "keeps (extends_config c) (HandleConfigNode xs s)" for xs
    unfolding HandleConfigNode_def Let_def
    by (rule keeps_loopE [where I = "extends_config c", OF assms]) (auto intro!: LoadConfigInfo_extends)
  then show ?thesis
    unfolding LoadConfig_def
    by (intro keeps_bind [where I = "extends_config c"]) (auto intro!: LoadConfigInfo_extends retE_skip simp: assms)
qed

lemma LoadConfigXmlFile_extends:
  assumes "extends_config c s" and "str_find SOCPERF_RESOURCE_CONFIG_XML path = None"
  shows "keeps (extends_config c) (LoadConfigXmlFile env path s)"
  unfolding LoadConfigXmlFile_def ParseBoostXmlFile_def
  using assms LoadConfig_extends [OF assms(1)] by (auto split: option.split)

theorem camera_extends:
  assumes "camera_apart env"
  shows "keeps (extends_config s) (LoadAllConfigXmlFile env CAMERA_AWARE_CONFIG_XML s)"
  unfolding LoadAllConfigXmlFile_def
  by (rule keeps_loopE_set [where I = "extends_config s"])
    (use assms in \<open>auto simp: camera_apart_def list_all_iff intro: LoadConfigXmlFile_extends\<close>)

subsection \<open>The whole of it\<close>

text \<open>The commands a document adds, before they are checked.\<close>

definition readCommands :: "XmlNode \<Rightarrow> 'a SocPerfConfig_scheme \<Rightarrow> error + (bool \<times> 'a SocPerfConfig_scheme)" where
  "readCommands x s = (if IsConfigTag x then HandleConfigNode (xn_children x) s
     else LoadConfigInfo x DEFAULT_CONFIG_MODE s)"

lemma LoadConfig_read:
  assumes "readCommands x s = Inr (True, t)" and "LoadConfig x s = Inr (ok, s')"
  shows "s' = t \<and> CheckActionResIdAndValueValid t = Inr ok"
  using assms by (auto simp: LoadConfig_def readCommands_def bindE_def split: sum.splits if_splits)

text \<open>The only camera file of an environment and its document.\<close>

definition camera_document :: "Env \<Rightarrow> XmlNode \<Rightarrow> bool" where
  "camera_document env x \<longleftrightarrow> (\<exists>p. GetAllRealConfigPath env CAMERA_AWARE_CONFIG_XML = [p] \<and> p \<noteq> []
     \<and> env_xml env p = Some (Some x) \<and> xn_name x = ''Configs'')"

lemma camera_document_load:
  assumes "camera_document env x" and "camera_apart env"
  shows "LoadAllConfigXmlFile env CAMERA_AWARE_CONFIG_XML s = LoadConfig x s"
proof -
  have "bindE m (\<lambda>(ok, s). if ok then loopE f [] s else Inr (False, s)) = m"
    for f and m :: "error + (bool \<times> 'a SocPerfConfig_scheme)"
    by (auto simp: bindE_def split: sum.split)
  then show ?thesis
    using assms
    by (auto simp: camera_document_def camera_apart_def LoadAllConfigXmlFile_def LoadConfigXmlFile_def ParseBoostXmlFile_def)
qed

theorem Config_Init_camera:
  assumes res: "LoadAllConfigXmlFile env SOCPERF_RESOURCE_CONFIG_XML s = Inr (True, s1)"
    and boost: "loopE (LoadConfigXmlFile env) (boostPaths env) s1 = Inr (True, s2)" and cam: "camera_apart env"
    and camera: "LoadAllConfigXmlFile env CAMERA_AWARE_CONFIG_XML s2 = Inr (ok, s3)"
  shows "Config_Init env s = Inr (True, s3\<lparr>g_resStrToIdInfo := []\<rparr>)" and "extends_config s2 s3"
    and "camera_document env x \<Longrightarrow> readCommands x s2 = Inr (True, t)
      \<Longrightarrow> s3 = t \<and> CheckActionResIdAndValueValid t = Inr ok"
proof -
  show "Config_Init env s = Inr (True, s3\<lparr>g_resStrToIdInfo := []\<rparr>)"
    using res boost camera by (simp add: Config_Init_alt)
  show "extends_config s2 s3"
    using camera_extends [OF cam, of s2] camera by (simp add: retE_iff)
  show "s3 = t \<and> CheckActionResIdAndValueValid t = Inr ok"
    if "camera_document env x" "readCommands x s2 = Inr (True, t)"
    using LoadConfig_read [OF that(2)] camera by (simp add: camera_document_load [OF that(1) cam])
qed

end
