(* ===== verification/ExampleFiles.thy ===== *)
theory ExampleFiles
  imports Service ConfigCamera
begin

text \<open>
  A pair of configuration files with the content of the small configuration of \<open>Example\<close>: the
  witnesses of the properties about the loader evaluate it on them.
\<close>

definition el :: "string \<Rightarrow> (string \<times> string) list \<Rightarrow> XmlNode list \<Rightarrow> XmlNode" where
  "el nm props xs = XmlNode nm props None xs"

definition leaf :: "string \<Rightarrow> string \<Rightarrow> XmlNode" where
  "leaf nm content = XmlNode nm [] (Some content) []"

definition demoResourceDoc :: XmlNode where
  "demoResourceDoc = el ''Configs'' []
     [el ''Resource'' []
        [el ''res'' [(''id'', ''1000''), (''name'', ''cpu_min''), (''pair'', ''1001'')]
           [leaf ''default'' ''500'', leaf ''path'' ''/min'', leaf ''node'' ''500 1000 2000''],
         el ''res'' [(''id'', ''1001''), (''name'', ''cpu_max''), (''pair'', ''1000''), (''mode'', ''1'')]
           [leaf ''default'' ''2000'', leaf ''path'' ''/max'', leaf ''node'' ''500 1000 2000'']],
      el ''GovResource'' []
        [el ''res'' [(''id'', ''2000''), (''name'', ''gov''), (''switch'', ''1'')] [leaf ''default'' ''0'']],
      el ''Info'' [] [el ''inf'' [(''path'', ''perf.so''), (''func'', ''report'')] []]]"

definition demoBoostDoc :: XmlNode where
  "demoBoostDoc = el ''Configs'' []
     [el ''cmd'' [(''id'', ''9101''), (''name'', ''weak'')]
        [el ''Action'' [] [leaf ''duration'' ''0'', leaf ''cpu_max'' ''1000'']],
      el ''cmd'' [(''id'', ''39101''), (''name'', ''weak2'')] [],
      el ''cmd'' [(''id'', ''10010''), (''name'', ''touch''), (''mode'', ''game=39101'')]
        [el ''Action'' [] [leaf ''duration'' ''100'', leaf ''cpu_min'' ''2000'', leaf ''gov'' ''1'']],
      el ''interaction'' [] [el ''weak'' [(''id'', ''9101''), (''type'', ''2''), (''delay'', ''500'')] []]]"

definition demoEnv :: Env where
  "demoEnv =
     \<lparr>env_cfgFiles = (\<lambda>f. if f = SOCPERF_RESOURCE_CONFIG_XML then Some [Some (''/'' @ f)]
        else if f = SOCPERF_BOOST_CONFIG_XML then Some [None, Some ''/b''] else None),
      env_xml = (\<lambda>p. Some (Some (if p = ''/b'' then demoBoostDoc else demoResourceDoc))),
      env_dlopen = (\<lambda>so. True), env_dlsym = (\<lambda>so f. True), env_kernel = []\<rparr>"

declare SplitEx_loop.simps [code]

text \<open>The same files with a camera configuration: one command, for a value \<open>cpu_min\<close> does not list.\<close>

definition cameraDoc :: XmlNode where
  "cameraDoc = el ''Configs'' []
     [el ''cmd'' [(''id'', ''555''), (''name'', ''camera'')] [el ''Action'' [] [leaf ''duration'' ''100'', leaf ''cpu_min'' ''7'']]]"

definition cameraEnv :: Env where
  "cameraEnv = demoEnv
     \<lparr>env_cfgFiles := (\<lambda>f. if f = CAMERA_AWARE_CONFIG_XML then Some [Some ''/c''] else env_cfgFiles demoEnv f),
      env_xml := (\<lambda>p. if p = ''/c'' then Some (Some cameraDoc) else env_xml demoEnv p)\<rparr>"

definition demoConfig :: SocPerf where
  "demoConfig = (case Config_Init demoEnv new_SocPerf of Inl e \<Rightarrow> new_SocPerf | Inr (ok, c) \<Rightarrow> c)"

text \<open>What the witnesses look at, computed once.\<close>

definition asks :: "int \<Rightarrow> int \<Rightarrow> int \<Rightarrow> 'a SocPerfConfig_scheme \<Rightarrow> bool" where
  "asks k r v c \<longleftrightarrow> (case map_of (modeActions DEFAULT_CONFIG_MODE c) k of Some (Some as) \<Rightarrow>
     list_ex (\<lambda>ac. List.member (varPairs (ac_variable ac)) (r, v)) (as_actionList as) | _ \<Rightarrow> False)"

lemma demo_loads:
  "(case Config_Init demoEnv new_SocPerf of Inl e \<Rightarrow> False | Inr (ok, c) \<Rightarrow> ok \<and> references_ok c
      \<and> map fst (resourceNodeInfo c) = [1000, 1001, 2000]
      \<and> map (\<lambda>k. (pairOf k c, isMaxRes k c)) [1000, 1001, 2000] = [(Some 1001, False), (Some 1000, True), (None, False)]
      \<and> reportFunc c = Some ''report'' \<and> asks 10010 1000 2000 c)"
  by code_simp

lemma demo_init: "Config_Init demoEnv new_SocPerf = Inr (True, demoConfig)"
  using demo_loads by (auto simp: demoConfig_def split: sum.splits)

lemma demo_config:
  "references_ok demoConfig"
  "map fst (resourceNodeInfo demoConfig) = [1000, 1001, 2000]"
  "map (\<lambda>k. (pairOf k demoConfig, isMaxRes k demoConfig)) [1000, 1001, 2000]
     = [(Some 1001, False), (Some 1000, True), (None, False)]"
  "asks 10010 1000 2000 demoConfig"
  using demo_loads by (simp_all add: demo_init)

lemma demo_camera: "camera_apart demoEnv"
  by code_simp

lemma demo_documents: "documents_complete demoEnv"
proof -
  have "weak_complete demoBoostDoc" "weak_complete demoResourceDoc" by code_simp+
  then show ?thesis by (simp add: documents_complete_def demoEnv_def)
qed

lemma demo_boost_file:
  "boostPaths demoEnv \<noteq> [] \<and> str_find SOCPERF_RESOURCE_CONFIG_XML (last (boostPaths demoEnv)) = None
   \<and> GetAllRealConfigPath demoEnv CAMERA_AWARE_CONFIG_XML = []"
  by code_simp

lemma demo_config_pairs:
  "pairOf k demoConfig = (if k = 1000 then Some 1001 else if k = 1001 then Some 1000 else None)"
  "k \<in> {1000, 1001} \<Longrightarrow> isMaxRes k demoConfig = (k = 1001)"
proof -
  have "resIds demoConfig = set (map fst (resourceNodeInfo demoConfig))" by simp
  then have keys: "resIds demoConfig = {1000, 1001, 2000}" by (simp only: demo_config(2)) simp
  have "pairOf k demoConfig = None" if "k \<notin> resIds demoConfig"
    using that by (auto simp: pairOf_def nodeAt_def ptrAt_def map_of_eq_None_iff [symmetric])
  then show "pairOf k demoConfig = (if k = 1000 then Some 1001 else if k = 1001 then Some 1000 else None)"
    using demo_config(3) keys by (cases "k = 2000") auto
  show "isMaxRes k demoConfig = (k = 1001)" if "k \<in> {1000, 1001}"
    using demo_config(3) that by auto
qed

lemma demo_config_sym: "sym_pairs demoConfig"
  unfolding sym_pairs_def demo_config_pairs(1) using demo_config_pairs(2) by auto

text \<open>The camera file is refused by the check; its command is in the tables all the same.\<close>

lemma camera_runs:
  "case LoadAllConfigXmlFile cameraEnv SOCPERF_RESOURCE_CONFIG_XML new_SocPerf of Inl e \<Rightarrow> False | Inr (ok, s1) \<Rightarrow> ok
   \<and> (case loopE (LoadConfigXmlFile cameraEnv) (boostPaths cameraEnv) s1 of Inl e \<Rightarrow> False | Inr (ok, s2) \<Rightarrow> ok
     \<and> asks 10010 1000 2000 s2
     \<and> (case LoadAllConfigXmlFile cameraEnv CAMERA_AWARE_CONFIG_XML s2 of Inl e \<Rightarrow> False | Inr (ok, s3) \<Rightarrow> \<not> ok)
     \<and> (case readCommands cameraDoc s2 of Inl e \<Rightarrow> False | Inr (ok, t) \<Rightarrow> ok \<and> asks 555 1000 7 t))"
  by code_simp

lemma ran: "(case m of Inl e \<Rightarrow> False | Inr (ok, s) \<Rightarrow> P ok s) \<longleftrightarrow> (\<exists>ok s. m = Inr (ok, s) \<and> P ok s)"
  by (auto split: sum.split)

lemma camera_run:
  obtains s1 s2 s3 t where "LoadAllConfigXmlFile cameraEnv SOCPERF_RESOURCE_CONFIG_XML new_SocPerf = Inr (True, s1)"
    and "loopE (LoadConfigXmlFile cameraEnv) (boostPaths cameraEnv) s1 = Inr (True, s2)" and "asks 10010 1000 2000 s2"
    and "LoadAllConfigXmlFile cameraEnv CAMERA_AWARE_CONFIG_XML s2 = Inr (False, s3)"
    and "readCommands cameraDoc s2 = Inr (True, t)" and "asks 555 1000 7 t"
  using camera_runs unfolding ran by auto

lemma camera_files: "camera_apart cameraEnv" "camera_document cameraEnv cameraDoc"
proof -
  show "camera_apart cameraEnv" by code_simp
  have "GetAllRealConfigPath cameraEnv CAMERA_AWARE_CONFIG_XML = [''/c'']" by code_simp
  then show "camera_document cameraEnv cameraDoc" by (simp add: camera_document_def cameraEnv_def cameraDoc_def el_def)
qed

end
