(* ===== verification/Server.thy ===== *)
theory Server
  imports SocperfCore LruCache
begin

text \<open>
  \<open>SocPerfServer\<close> (\<open>services/server/src/socperf_server.cpp\<close>): the system ability that checks the
  caller's permission, through the cache of theory \<open>LruCache\<close>, and forwards to \<open>SocPerf\<close>. What the
  IPC and access-token services say of the caller of a call is the record \<open>Caller\<close>; the build mode
  (\<open>ENG_MODE\<close>) is an argument.
\<close>

datatype ErrCode = ERR_OK | ERR_PERMISSION_DENIED

text \<open>
  \<open>cl_isHap\<close>: the token type flag of the calling token is \<open>TOKEN_HAP\<close>; \<open>cl_verify\<close>: the answer of
  \<open>VerifyAccessToken\<close> for the calling token; \<open>cl_dumpGranted\<close>: its answer for the first token and
  the dump permission is \<open>PERMISSION_GRANTED\<close>.
\<close>

record Caller =
  cl_tokenId :: int
  cl_isHap :: bool
  cl_isSystemApp :: bool
  cl_uid :: int
  cl_verify :: "string \<Rightarrow> int"
  cl_dumpGranted :: bool

record SocPerfServer =
  socPerf :: SocPerf
  permissionCache :: "(int, int) SocPerfLRUCache"

definition new_SocPerfServer :: SocPerfServer where
  "new_SocPerfServer = \<lparr>socPerf = new_SocPerf, permissionCache = new_SocPerfLRUCache 32\<rparr>"

abbreviation (input) HIVIEW_UID :: int where "HIVIEW_UID \<equiv> 1201"

definition NEEDED_PERMISSION :: string where
  "NEEDED_PERMISSION = ''ohos.permission.REPORT_RESOURCE_SCHEDULE_EVENT''"

definition HasPerfPermission :: "Caller \<Rightarrow> SocPerfServer \<Rightarrow> error + (bool \<times> SocPerfServer)" where
  "HasPerfPermission caller s =
     (if cl_isHap caller \<and> \<not> cl_isSystemApp caller then Inr (False, s)
      else
        bindE (lru_get (cl_tokenId caller) (permissionCache s)) (\<lambda>(r, cache).
        let s = s\<lparr>permissionCache := cache\<rparr> in
        case r of
          Some hasPermission \<Rightarrow> Inr (hasPermission = 0, s)
        | None \<Rightarrow>
            let hasPermission = cl_verify caller NEEDED_PERMISSION in
            bindE (lru_put (cl_tokenId caller) hasPermission (permissionCache s)) (\<lambda>cache.
            let s = s\<lparr>permissionCache := cache\<rparr> in
            if hasPermission \<noteq> 0 then Inr (False, s) else Inr (True, s))))"

subsection \<open>The handlers\<close>

definition Server_PerfRequest ::
  "Caller \<Rightarrow> int \<Rightarrow> int \<Rightarrow> int \<Rightarrow> string \<Rightarrow> SocPerfServer \<Rightarrow> error + (ErrCode \<times> SocPerfServer)" where
  "Server_PerfRequest caller now curMs cmdId msg s =
     bindE (HasPerfPermission caller s) (\<lambda>(ok, s).
     if \<not> ok then Inr (ERR_PERMISSION_DENIED, s)
     else bindE (PerfRequest now curMs cmdId msg (socPerf s)) (\<lambda>p. Inr (ERR_OK, s\<lparr>socPerf := p\<rparr>)))"

definition Server_PerfRequestEx ::
  "Caller \<Rightarrow> int \<Rightarrow> int \<Rightarrow> int \<Rightarrow> bool \<Rightarrow> string \<Rightarrow> SocPerfServer \<Rightarrow> error + (ErrCode \<times> SocPerfServer)" where
  "Server_PerfRequestEx caller now curMs cmdId onOffTag msg s =
     bindE (HasPerfPermission caller s) (\<lambda>(ok, s).
     if \<not> ok then Inr (ERR_PERMISSION_DENIED, s)
     else bindE (PerfRequestEx now curMs cmdId onOffTag msg (socPerf s)) (\<lambda>p. Inr (ERR_OK, s\<lparr>socPerf := p\<rparr>)))"

definition Server_PowerLimitBoost ::
  "Caller \<Rightarrow> bool \<Rightarrow> string \<Rightarrow> SocPerfServer \<Rightarrow> error + (ErrCode \<times> SocPerfServer)" where
  "Server_PowerLimitBoost caller onOffTag msg s =
     bindE (HasPerfPermission caller s) (\<lambda>(ok, s).
     if \<not> ok then Inr (ERR_PERMISSION_DENIED, s)
     else Inr (ERR_OK, s\<lparr>socPerf := PowerLimitBoost onOffTag msg (socPerf s)\<rparr>))"

definition Server_ThermalLimitBoost ::
  "Caller \<Rightarrow> bool \<Rightarrow> string \<Rightarrow> SocPerfServer \<Rightarrow> error + (ErrCode \<times> SocPerfServer)" where
  "Server_ThermalLimitBoost caller onOffTag msg s =
     bindE (HasPerfPermission caller s) (\<lambda>(ok, s).
     if \<not> ok then Inr (ERR_PERMISSION_DENIED, s)
     else Inr (ERR_OK, s\<lparr>socPerf := ThermalLimitBoost onOffTag msg (socPerf s)\<rparr>))"

definition Server_LimitRequest ::
  "Caller \<Rightarrow> int \<Rightarrow> int list \<Rightarrow> int list \<Rightarrow> string \<Rightarrow> SocPerfServer \<Rightarrow> error + (ErrCode \<times> SocPerfServer)" where
  "Server_LimitRequest caller clientId tags configs msg s =
     bindE (HasPerfPermission caller s) (\<lambda>(ok, s).
     if \<not> ok then Inr (ERR_PERMISSION_DENIED, s)
     else Inr (ERR_OK, s\<lparr>socPerf := LimitRequest clientId tags configs msg (socPerf s)\<rparr>))"

definition Server_SetRequestStatus ::
  "Caller \<Rightarrow> bool \<Rightarrow> string \<Rightarrow> SocPerfServer \<Rightarrow> error + (ErrCode \<times> SocPerfServer)" where
  "Server_SetRequestStatus caller status msg s =
     bindE (HasPerfPermission caller s) (\<lambda>(ok, s).
     if \<not> ok then Inr (ERR_PERMISSION_DENIED, s)
     else Inr (ERR_OK, s\<lparr>socPerf := SetRequestStatus status msg (socPerf s)\<rparr>))"

definition Server_SetThermalLevel :: "Caller \<Rightarrow> int \<Rightarrow> SocPerfServer \<Rightarrow> error + (ErrCode \<times> SocPerfServer)" where
  "Server_SetThermalLevel caller level s =
     bindE (HasPerfPermission caller s) (\<lambda>(ok, s).
     if \<not> ok then Inr (ERR_PERMISSION_DENIED, s)
     else Inr (ERR_OK, s\<lparr>socPerf := SetThermalLevel level (socPerf s)\<rparr>))"

definition Server_RequestDeviceMode ::
  "Caller \<Rightarrow> string \<Rightarrow> bool \<Rightarrow> SocPerfServer \<Rightarrow> error + (ErrCode \<times> SocPerfServer)" where
  "Server_RequestDeviceMode caller mode status s =
     bindE (HasPerfPermission caller s) (\<lambda>(ok, s).
     if \<not> ok then Inr (ERR_PERMISSION_DENIED, s)
     else bindE (RequestDeviceMode mode status (socPerf s)) (\<lambda>p. Inr (ERR_OK, s\<lparr>socPerf := p\<rparr>)))"

text \<open>The string is the out parameter \<open>funcResult\<close>; \<open>None\<close> if it is not assigned.\<close>

definition Server_RequestCmdIdCount ::
  "int \<Rightarrow> Caller \<Rightarrow> string \<Rightarrow> SocPerfServer \<Rightarrow> error + (ErrCode \<times> string option \<times> SocPerfServer)" where
  "Server_RequestCmdIdCount ENG_MODE caller msg s =
     (if ENG_MODE = 0 \<and> cl_uid caller \<noteq> HIVIEW_UID then Inr (ERR_PERMISSION_DENIED, None, s)
      else bindE (HasPerfPermission caller s) (\<lambda>(ok, s).
        if \<not> ok then Inr (ERR_PERMISSION_DENIED, None, s)
        else Inr (ERR_OK, Some (RequestCmdIdCount msg (socPerf s)), s)))"

definition AllowDump :: "int \<Rightarrow> Caller \<Rightarrow> bool" where
  "AllowDump ENG_MODE caller =
     (if ENG_MODE = 0 then False else if \<not> cl_dumpGranted caller then False else True)"

definition dumpText :: string where
  "dumpText = ''usage: soc_perf service dump [<options>]'' @ [CHR 0x0A]
     @ ''    1. PerfRequest(cmdId, msg)'' @ [CHR 0x0A]
     @ ''    2. PerfRequestEx(cmdId, onOffTag, msg)'' @ [CHR 0x0A]
     @ ''    3. LimitRequest(clientId, tags, configs, msg)'' @ [CHR 0x0A]
     @ ''    -h: show the help.'' @ [CHR 0x0A]
     @ ''    -a: show all info.'' @ [CHR 0x0A]"

text \<open>The string is what is written to the descriptor; the arguments are converted and not used.\<close>

definition Dump :: "int \<Rightarrow> Caller \<Rightarrow> string list \<Rightarrow> ErrCode \<times> string option" where
  "Dump ENG_MODE caller args =
     (if \<not> AllowDump ENG_MODE caller then (ERR_PERMISSION_DENIED, None) else (ERR_OK, Some dumpText))"

text \<open>\<open>OnStart\<close>; the result of \<open>Publish\<close> only decides what is logged.\<close>

definition OnStart ::
  "(SocPerf \<Rightarrow> error + (bool \<times> SocPerf)) \<Rightarrow> SocPerfServer \<Rightarrow> error + SocPerfServer" where
  "OnStart configInit s =
     bindE (Init configInit (socPerf s)) (\<lambda>(ok, p). Inr (s\<lparr>socPerf := p\<rparr>))"

end
