(* ===== verification/ServerSpecs.thy ===== *)
theory ServerSpecs
  imports Server System
begin

text \<open>
  The system ability: who is let through, and what a handler does to the service. The permission check
  is a memoised computation in the sense of the locale \<open>cache\<close>; its answers over a run of checks stay
  the same while the entry of the caller stays in the cache.
\<close>

definition authorised :: "Caller \<Rightarrow> SocPerfServer \<Rightarrow> bool" where
  "authorised caller s \<longleftrightarrow> \<not> (cl_isHap caller \<and> \<not> cl_isSystemApp caller)
     \<and> (case storedIn (permissionCache s) (cl_tokenId caller) of
          None \<Rightarrow> cl_verify caller NEEDED_PERMISSION = 0 | Some v \<Rightarrow> v = 0)"

lemma HasPerfPermission_memo:
  "HasPerfPermission caller s =
     (if cl_isHap caller \<and> \<not> cl_isSystemApp caller then Inr (False, s)
      else bindE (lru.memo (\<lambda>_. cl_verify caller NEEDED_PERMISSION) (cl_tokenId caller) (permissionCache s))
             (\<lambda>(v, c). Inr (v = 0, s\<lparr>permissionCache := c\<rparr>)))"
  by (auto simp: HasPerfPermission_def lru.memo_def bindE_def Let_def split: sum.split option.split)

theorem HasPerfPermission_spec:
  assumes "lru_inv (permissionCache s)"
  shows "okE (\<lambda>(b, s'). b = authorised caller s \<and> socPerf s' = socPerf s \<and> lru_inv (permissionCache s')
     \<and> (b \<longrightarrow> storedIn (permissionCache s') (cl_tokenId caller) = Some 0)) (HasPerfPermission caller s)"
proof (cases "cl_isHap caller \<and> \<not> cl_isSystemApp caller")
  case True
  then show ?thesis using assms by (simp add: HasPerfPermission_memo authorised_def)
next
  case False
  show ?thesis
    unfolding HasPerfPermission_memo if_not_P [OF False]
    by (rule okE_bind [OF lru.memo_ok [OF assms]]) (use False in \<open>auto simp: authorised_def split: option.splits\<close>)
qed

subsection \<open>Answers over a run\<close>

text \<open>An entry of a recency list with only keys of \<open>T\<close> before it.\<close>

definition recent :: "'k set \<Rightarrow> 'k \<Rightarrow> 'v \<Rightarrow> ('k \<times> 'v) list \<Rightarrow> bool" where
  "recent T k v xs \<longleftrightarrow> (\<exists>pre post. xs = pre @ (k, v) # post \<and> fst ` set pre \<subseteq> T)"

lemma recent_mono: "recent T k v xs \<Longrightarrow> T \<subseteq> U \<Longrightarrow> recent U k v xs"
  by (auto simp: recent_def)

lemma recent_stored: "recent T k v xs \<Longrightarrow> distinct (map fst xs) \<Longrightarrow> map_of xs k = Some v"
  by (auto simp: recent_def map_add_def split: option.splits dest!: map_of_SomeD)

lemma recent_get:
  assumes "recent T k v xs" and "j \<noteq> k"
  shows "recent (insert j T) k v (snd (spec_get j xs))"
proof -
  obtain pre post where xs: "xs = pre @ (k, v) # post" "fst ` set pre \<subseteq> T" using assms(1) by (auto simp: recent_def)
  show ?thesis
  proof (cases "map_of xs j")
    case None
    then show ?thesis using recent_mono [OF assms(1) subset_insertI] by (simp add: spec_get_def)
  next
    case (Some w)
    have "snd (spec_get j xs) = ((j, w) # AList.delete j pre) @ (k, v) # AList.delete j post"
      using Some assms(2) by (simp add: spec_get_def xs(1) AList.delete_eq)
    moreover have "fst ` set ((j, w) # AList.delete j pre) \<subseteq> insert j T"
      using xs(2) by (auto simp: AList.delete_eq)
    ultimately show ?thesis unfolding recent_def by blast
  qed
qed

lemma recent_put:
  assumes rec: "recent T k v xs" and j: "j \<noteq> k" "map_of xs j = None" and d: "distinct (map fst xs)"
    and T: "finite T" "card (insert j T) < cap"
  shows "recent (insert j T) k v (spec_put cap j w xs)"
proof -
  obtain pre post where xs: "xs = pre @ (k, v) # post" "fst ` set pre \<subseteq> T" using rec by (auto simp: recent_def)
  have "j \<notin> fst ` set pre" using j(2) by (simp add: xs(1) map_of_eq_None_iff)
  then have "card (fst ` set pre) < card (insert j T)"
    using xs(2) T(1) by (intro psubset_card_mono) auto
  moreover have "card (fst ` set pre) = length pre" using d by (simp add: xs(1) distinct_card flip: set_map)
  ultimately have "length pre + 2 \<le> cap" using T(2) by simp
  then obtain m where "cap = length pre + 2 + m" using le_Suc_ex by blast
  then have "spec_put cap j w xs = ((j, w) # pre) @ (k, v) # take m post"
    using j(2) by (simp add: spec_put_def xs(1))
  moreover have "fst ` set ((j, w) # pre) \<subseteq> insert j T" using xs(2) by auto
  ultimately show ?thesis unfolding recent_def by blast
qed

text \<open>One check, by the caller of the entry and by another one.\<close>

definition foreign :: "Caller \<Rightarrow> bool" where
  "foreign caller \<longleftrightarrow> cl_isHap caller \<and> \<not> cl_isSystemApp caller"

lemma HasPerfPermission_foreign: "foreign caller \<Longrightarrow> HasPerfPermission caller s = Inr (False, s)"
  by (simp add: HasPerfPermission_def foreign_def)

lemma HasPerfPermission_hit:
  assumes "\<not> foreign caller" and "lru_get (cl_tokenId caller) (permissionCache s) = Inr (Some v, c)"
  shows "HasPerfPermission caller s = Inr (v = 0, s\<lparr>permissionCache := c\<rparr>)"
  unfolding HasPerfPermission_def if_not_P [OF assms(1) [unfolded foreign_def]] by (simp add: assms(2))

lemma HasPerfPermission_miss:
  assumes "\<not> foreign caller" and "lru_get (cl_tokenId caller) (permissionCache s) = Inr (None, c)"
    and "lru_put (cl_tokenId caller) (cl_verify caller NEEDED_PERMISSION) c = Inr d"
  shows "HasPerfPermission caller s = Inr (cl_verify caller NEEDED_PERMISSION = 0, s\<lparr>permissionCache := d\<rparr>)"
  unfolding HasPerfPermission_def if_not_P [OF assms(1) [unfolded foreign_def]] by (simp add: assms(2,3) Let_def)

lemma check_own:
  assumes inv: "lru_inv (permissionCache s)" and "\<not> foreign caller"
  shows "okE (\<lambda>(b, s'). lru_inv (permissionCache s') \<and> capacity (permissionCache s') = capacity (permissionCache s)
     \<and> (\<exists>v. b = (v = 0) \<and> recent {} (cl_tokenId caller) v (entries (permissionCache s'))
           \<and> (\<forall>w. storedIn (permissionCache s) (cl_tokenId caller) = Some w \<longrightarrow> v = w))) (HasPerfPermission caller s)"
proof -
  let ?k = "cl_tokenId caller" and ?c = "permissionCache s"
  have front: "recent {} ?k v ((?k, v) # xs)" for v and xs :: "(int \<times> int) list" by (auto simp: recent_def)
  obtain r c where c: "lru_get ?k ?c = Inr (r, c)" "(r, entries c) = spec_get ?k (entries ?c)" "lru_inv c"
      "capacity c = capacity ?c"
    using lru_get_spec [OF inv, of ?k] by (auto simp: okE_iff)
  show ?thesis
  proof (cases "map_of (entries ?c) ?k")
    case (Some v)
    then have "r = Some v" "entries c = (?k, v) # AList.delete ?k (entries ?c)" using c(2) by (simp_all add: spec_get_def)
    then show ?thesis using c front Some by (simp add: HasPerfPermission_hit [OF assms(2)] storedIn_def)
  next
    case None
    then have r: "r = None" "entries c = entries ?c" using c(2) by (simp_all add: spec_get_def)
    let ?v = "cl_verify caller NEEDED_PERMISSION"
    obtain d where d: "lru_put ?k ?v c = Inr d" "entries d = spec_put (capacity c) ?k ?v (entries c)" "lru_inv d"
        "capacity d = capacity c"
      using lru_put_spec [OF c(3), of ?k ?v] by (auto simp: okE_iff)
    have "recent {} ?k ?v (entries d)" using front by (simp add: d(2) spec_put_def)
    then show ?thesis using c d r None by (auto simp: HasPerfPermission_miss [OF assms(2), of s c d] storedIn_def)
  qed
qed

lemma check_other:
  assumes inv: "lru_inv (permissionCache s)" and rec: "recent T k v (entries (permissionCache s))" and T: "finite T"
    and j: "cl_tokenId caller \<noteq> k" and card: "card (insert (cl_tokenId caller) T) < capacity (permissionCache s)"
  shows "okE (\<lambda>(b, s'). lru_inv (permissionCache s') \<and> capacity (permissionCache s') = capacity (permissionCache s)
     \<and> recent (insert (cl_tokenId caller) T) k v (entries (permissionCache s'))) (HasPerfPermission caller s)"
proof (cases "foreign caller")
  case True
  then show ?thesis using inv recent_mono [OF rec subset_insertI] by (simp add: HasPerfPermission_foreign)
next
  case False
  let ?j = "cl_tokenId caller" and ?c = "permissionCache s"
  obtain r c where c: "lru_get ?j ?c = Inr (r, c)" "(r, entries c) = spec_get ?j (entries ?c)" "lru_inv c"
      "capacity c = capacity ?c"
    using lru_get_spec [OF inv, of ?j] by (auto simp: okE_iff)
  have got: "recent (insert ?j T) k v (entries c)" using recent_get [OF rec j] by (simp flip: c(2))
  show ?thesis
  proof (cases r)
    case (Some w)
    then show ?thesis using c got by (simp add: HasPerfPermission_hit [OF False])
  next
    case None
    have none: "map_of (entries ?c) ?j = None" "entries c = entries ?c"
      using c(2) None by (simp_all add: spec_get_def split: option.splits)
    let ?v = "cl_verify caller NEEDED_PERMISSION"
    obtain d where d: "lru_put ?j ?v c = Inr d" "entries d = spec_put (capacity c) ?j ?v (entries c)" "lru_inv d"
        "capacity d = capacity c"
      using lru_put_spec [OF c(3), of ?j ?v] by (auto simp: okE_iff)
    have "recent (insert ?j T) k v (entries d)"
      unfolding d(2) none(2) c(4) by (rule recent_put [OF rec j none(1) distinct_entries [OF inv] T card])
    then show ?thesis using c d None by (simp add: HasPerfPermission_miss [OF False])
  qed
qed

definition checks :: "Caller list \<Rightarrow> SocPerfServer \<Rightarrow> error + SocPerfServer" where
  "checks cs = foldE (\<lambda>c s. bindE (HasPerfPermission c s) (\<lambda>(_, s). Inr s)) cs"

lemma checks_recent:
  assumes "lru_inv (permissionCache s)" and "recent T k v (entries (permissionCache s))" and "finite T"
    and "card (T \<union> (cl_tokenId ` set cs - {k})) < capacity (permissionCache s)"
  shows "okE (\<lambda>s'. lru_inv (permissionCache s') \<and> (\<exists>T. recent T k v (entries (permissionCache s')))) (checks cs s)"
  using assms
proof (induction cs arbitrary: s T)
  case Nil
  then show ?case by (auto simp: checks_def)
next
  case (Cons c cs)
  have step: "okE P (checks (c # cs) s)" if "okE (\<lambda>(b, t). okE P (checks cs t)) (HasPerfPermission c s)" for P
    using that by (auto simp: checks_def okE_iff)
  show ?case
  proof (rule step, cases "cl_tokenId c = k")
    case True
    show "okE (\<lambda>(b, t). okE (\<lambda>s'. lru_inv (permissionCache s') \<and> (\<exists>T. recent T k v (entries (permissionCache s')))) (checks cs t))
      (HasPerfPermission c s)"
    proof (cases "foreign c")
      case foreign: True
      have "okE (\<lambda>s'. lru_inv (permissionCache s') \<and> (\<exists>T. recent T k v (entries (permissionCache s')))) (checks cs s)"
        using Cons.prems(4) True by (intro Cons.IH [OF Cons.prems(1-3)]) simp
      then show ?thesis using foreign by (simp add: HasPerfPermission_foreign)
    next
      case False
      have st: "storedIn (permissionCache s) (cl_tokenId c) = Some v"
        using recent_stored [OF Cons.prems(2) distinct_entries [OF Cons.prems(1)]] True by (simp add: storedIn_def)
      have "card (cl_tokenId ` set cs - {k}) \<le> card (T \<union> (cl_tokenId ` set (c # cs) - {k}))"
        using Cons.prems(3) by (intro card_mono) auto
      then have small: "card ({} \<union> (cl_tokenId ` set cs - {k})) < capacity (permissionCache s)"
        using Cons.prems(4) by simp
      show ?thesis
      proof (rule okE_mono [OF check_own [OF Cons.prems(1) False]], clarify)
        fix t :: SocPerfServer and w
        assume t: "lru_inv (permissionCache t)" "capacity (permissionCache t) = capacity (permissionCache s)"
          and w: "recent {} (cl_tokenId c) w (entries (permissionCache t))"
            "\<forall>w'. storedIn (permissionCache s) (cl_tokenId c) = Some w' \<longrightarrow> w = w'"
        have "recent {} k v (entries (permissionCache t))" using w st True by simp
        then show "okE (\<lambda>s'. lru_inv (permissionCache s') \<and> (\<exists>T. recent T k v (entries (permissionCache s')))) (checks cs t)"
          by (rule Cons.IH [OF t(1)]) (use small t(2) in simp_all)
      qed
    qed
  next
    case False
    have eq: "insert (cl_tokenId c) T \<union> (cl_tokenId ` set cs - {k}) = T \<union> (cl_tokenId ` set (c # cs) - {k})"
      using False by auto
    have "card (insert (cl_tokenId c) T) \<le> card (T \<union> (cl_tokenId ` set (c # cs) - {k}))"
      using Cons.prems(3) False by (intro card_mono) auto
    then have "card (insert (cl_tokenId c) T) < capacity (permissionCache s)" using Cons.prems(4) by simp
    from check_other [OF Cons.prems(1-3) False this]
    show "okE (\<lambda>(b, t). okE (\<lambda>s'. lru_inv (permissionCache s') \<and> (\<exists>T. recent T k v (entries (permissionCache s')))) (checks cs t))
      (HasPerfPermission c s)"
      by (rule okE_mono) (use Cons.prems(3,4) eq in \<open>auto intro!: Cons.IH [where T = "insert (cl_tokenId c) T"]\<close>)
  qed
qed

text \<open>
  The answer given to a caller is given to it again, whatever the token service would answer by then, as
  long as fewer other callers are checked in between than the cache has entries.
\<close>

theorem answers_repeat:
  assumes inv: "lru_inv (permissionCache s)" and caller: "\<not> foreign caller"
    and few: "card (cl_tokenId ` set cs - {cl_tokenId caller}) < capacity (permissionCache s)"
    and again: "cl_tokenId again = cl_tokenId caller" "\<not> foreign again"
  shows "okE (\<lambda>(b, t). okE (\<lambda>u. okE (\<lambda>(b', _). b' = b) (HasPerfPermission again u)) (checks cs t))
    (HasPerfPermission caller s)"
proof (rule okE_mono [OF check_own [OF inv caller]], clarify)
  fix t :: SocPerfServer and v
  let ?k = "cl_tokenId caller"
  assume t: "lru_inv (permissionCache t)" "capacity (permissionCache t) = capacity (permissionCache s)"
    and v: "recent {} ?k v (entries (permissionCache t))"
  have "okE (\<lambda>u. lru_inv (permissionCache u) \<and> (\<exists>T. recent T ?k v (entries (permissionCache u)))) (checks cs t)"
    using few t(2) by (intro checks_recent [OF t(1) v]) simp_all
  then show "okE (\<lambda>u. okE (\<lambda>(b', _). b' = (v = 0)) (HasPerfPermission again u)) (checks cs t)"
  proof (rule okE_mono, elim conjE exE)
    fix u :: SocPerfServer and T
    assume u: "lru_inv (permissionCache u)" "recent T ?k v (entries (permissionCache u))"
    then have "storedIn (permissionCache u) (cl_tokenId again) = Some v"
      using recent_stored [OF u(2) distinct_entries [OF u(1)]] again(1) by (simp add: storedIn_def)
    then show "okE (\<lambda>(b', _). b' = (v = 0)) (HasPerfPermission again u)"
      by (intro okE_mono [OF check_own [OF u(1) again(2)]]) auto
  qed
qed

subsection \<open>Handlers\<close>

text \<open>The handlers that forward a request, by the request.\<close>

fun handler :: "Caller \<Rightarrow> Request \<Rightarrow> SocPerfServer \<Rightarrow> error + (ErrCode \<times> SocPerfServer)" where
  "handler caller (ReqPerf now curMs cmdId msg) = Server_PerfRequest caller now curMs cmdId msg"
| "handler caller (ReqPerfEx now curMs cmdId b msg) = Server_PerfRequestEx caller now curMs cmdId b msg"
| "handler caller (ReqPowerLimit b msg) = Server_PowerLimitBoost caller b msg"
| "handler caller (ReqThermalLimit b msg) = Server_ThermalLimitBoost caller b msg"
| "handler caller (ReqLimit c tags configs msg) = Server_LimitRequest caller c tags configs msg"
| "handler caller (ReqStatus b msg) = Server_SetRequestStatus caller b msg"
| "handler caller (ReqThermalLevel l) = Server_SetThermalLevel caller l"
| "handler caller (ReqDeviceMode mode b) = Server_RequestDeviceMode caller mode b"

lemma handler_eq:
  "handler caller r s = bindE (HasPerfPermission caller s) (\<lambda>(ok, s). if \<not> ok then Inr (ERR_PERMISSION_DENIED, s)
     else bindE (request r (socPerf s)) (\<lambda>p. Inr (ERR_OK, s\<lparr>socPerf := p\<rparr>)))"
  by (cases r) (simp_all add: Server_PerfRequest_def Server_PerfRequestEx_def Server_PowerLimitBoost_def
      Server_ThermalLimitBoost_def Server_LimitRequest_def Server_SetRequestStatus_def Server_SetThermalLevel_def
      Server_RequestDeviceMode_def cong: if_cong)

theorem handler_denies:
  assumes "lru_inv (permissionCache s)" and "\<not> authorised caller s"
  shows "okE (\<lambda>(code, s'). code = ERR_PERMISSION_DENIED \<and> socPerf s' = socPerf s) (handler caller r s)"
  unfolding handler_eq by (rule okE_bind [OF HasPerfPermission_spec [OF assms(1)]]) (use assms(2) in auto)

theorem handler_forwards:
  assumes "lru_inv (permissionCache s)" and "authorised caller s" and "request r (socPerf s) = Inr p"
  shows "okE (\<lambda>(code, s'). code = ERR_OK \<and> socPerf s' = p) (handler caller r s)"
  unfolding handler_eq by (rule okE_bind [OF HasPerfPermission_spec [OF assms(1)]]) (use assms in auto)

text \<open>The handlers keep the invariant of the service and of the cache.\<close>

definition serverInv :: "hardware \<Rightarrow> SocPerfServer \<Rightarrow> bool" where
  "serverInv h s \<longleftrightarrow> lru_inv (permissionCache s) \<and> sysInv h (socPerf s)"

theorem handler_safe:
  assumes inv: "serverInv h s" and r: "typed_request r"
  shows "okE (\<lambda>(code, s'). serverInv h s' \<and> code = (if authorised caller s then ERR_OK else ERR_PERMISSION_DENIED))
    (handler caller r s)"
  unfolding handler_eq
proof (rule okE_bind [OF HasPerfPermission_spec])
  show "lru_inv (permissionCache s)" using inv by (simp add: serverInv_def)
next
  fix x :: "bool \<times> SocPerfServer"
  assume x: "case x of (b, s') \<Rightarrow> b = authorised caller s \<and> socPerf s' = socPerf s \<and> lru_inv (permissionCache s')
     \<and> (b \<longrightarrow> storedIn (permissionCache s') (cl_tokenId caller) = Some 0)"
  obtain b t where t: "x = (b, t)" by (cases x)
  obtain p where p: "request r (socPerf s) = Inr p" "sysInv h p"
    using sysInv_request [OF _ r, of h "socPerf s"] inv by (auto simp: serverInv_def okE_iff)
  show "okE (\<lambda>(code, s'). serverInv h s' \<and> code = (if authorised caller s then ERR_OK else ERR_PERMISSION_DENIED))
      (case x of (ok, s) \<Rightarrow> if \<not> ok then Inr (ERR_PERMISSION_DENIED, s)
        else bindE (request r (socPerf s)) (\<lambda>p. Inr (ERR_OK, s\<lparr>socPerf := p\<rparr>)))"
    using x p inv by (auto simp: t serverInv_def)
qed

end
