(* ===== verification/Client.thy ===== *)
theory Client
  imports Prelude CommonStrings
begin

text \<open>
  \<open>SocPerfClient\<close> (\<open>interfaces/inner_api/socperf_client/src/socperf_client.cpp\<close>): the in-process
  proxy of the service. The remote objects are numbered; what the service manager answers while
  \<open>CheckClientValid\<close> runs is the record \<open>Samgr\<close>. \<open>ct_sent\<close> is the history of the calls made on a
  proxy, \<open>ct_watched\<close> the remote objects with a death recipient of this client.
\<close>

datatype ClientCall =
    CallPerfRequest int string
  | CallPerfRequestEx int bool string
  | CallPowerLimitBoost bool string
  | CallThermalLimitBoost bool string
  | CallLimitRequest int "int list" "int list" string
  | CallSetRequestStatus bool string
  | CallSetThermalLevel int
  | CallRequestDeviceMode string bool
  | CallRequestCmdIdCount string

text \<open>\<open>px_object\<close>: what \<open>AsObject()\<close> of the proxy returns.\<close>

record Proxy =
  px_object :: "nat option"

record SocPerfClient =
  ct_client :: "Proxy option"
  ct_recipient :: bool
  ct_watched :: "nat list"
  ct_sent :: "(Proxy \<times> ClientCall) list"

text \<open>
  \<open>sm_manager\<close>: a service manager is returned; \<open>sm_object\<close>: \<open>CheckSystemAbility\<close> returns an object,
  and \<open>iface_cast\<close> the proxy; \<open>sm_alloc\<close>: the recipient can be allocated.
\<close>

record Samgr =
  sm_manager :: bool
  sm_object :: bool
  sm_cast :: "Proxy option"
  sm_alloc :: bool

abbreviation (input) MAX_MODE_LEN :: nat where "MAX_MODE_LEN \<equiv> 64"

definition new_SocPerfClient :: SocPerfClient where
  "new_SocPerfClient = \<lparr>ct_client = None, ct_recipient = False, ct_watched = [], ct_sent = []\<rparr>"

definition CheckClientValid :: "Samgr \<Rightarrow> SocPerfClient \<Rightarrow> bool \<times> SocPerfClient" where
  "CheckClientValid a c =
     (if ct_client c \<noteq> None then (True, c)
      else if \<not> sm_manager a then (False, c)
      else if \<not> sm_object a then (False, c)
      else
        let c = c\<lparr>ct_client := sm_cast a\<rparr> in
        case sm_cast a of
          None \<Rightarrow> (False, c)
        | Some p \<Rightarrow>
            (case px_object p of
               None \<Rightarrow> (False, c)
             | Some obj \<Rightarrow>
                 if \<not> sm_alloc a then (False, c\<lparr>ct_recipient := False\<rparr>)
                 else (True, c\<lparr>ct_recipient := True, ct_watched := ct_watched c @ [obj]\<rparr>)))"

definition ResetClient :: "SocPerfClient \<Rightarrow> SocPerfClient" where
  "ResetClient c =
     (let c = (case ct_client c of
                 None \<Rightarrow> c
               | Some p \<Rightarrow> (case px_object p of
                     None \<Rightarrow> c
                   | Some obj \<Rightarrow> c\<lparr>ct_watched := remove1 obj (ct_watched c)\<rparr>)) in
      c\<lparr>ct_client := None\<rparr>)"

definition OnRemoteDied :: "SocPerfClient \<Rightarrow> SocPerfClient" where
  "OnRemoteDied c = ResetClient c"

definition AddPidAndTidInfo :: "int \<Rightarrow> int \<Rightarrow> string \<Rightarrow> string" where
  "AddPidAndTidInfo pid tid msg =
     (let str = ''pid='' @ to_string pid @ ''|'' @ ''tid='' @ to_string tid in
      if length msg > 0 then str @ ''|'' @ msg else str)"

text \<open>\<open>client->m(...)\<close>: the proxy is dereferenced.\<close>

definition callClient :: "ClientCall \<Rightarrow> SocPerfClient \<Rightarrow> error + SocPerfClient" where
  "callClient k c = bindE (derefE (ct_client c)) (\<lambda>p. Inr (c\<lparr>ct_sent := ct_sent c @ [(p, k)]\<rparr>))"

definition Client_PerfRequest ::
  "Samgr \<Rightarrow> int \<Rightarrow> int \<Rightarrow> int \<Rightarrow> string \<Rightarrow> SocPerfClient \<Rightarrow> error + SocPerfClient" where
  "Client_PerfRequest a pid tid cmdId msg c =
     (case CheckClientValid a c of (valid, c) \<Rightarrow>
        if \<not> valid then Inr c
        else callClient (CallPerfRequest cmdId (AddPidAndTidInfo pid tid msg)) c)"

definition Client_PerfRequestEx ::
  "Samgr \<Rightarrow> int \<Rightarrow> int \<Rightarrow> int \<Rightarrow> bool \<Rightarrow> string \<Rightarrow> SocPerfClient \<Rightarrow> error + SocPerfClient" where
  "Client_PerfRequestEx a pid tid cmdId onOffTag msg c =
     (case CheckClientValid a c of (valid, c) \<Rightarrow>
        if \<not> valid then Inr c
        else callClient (CallPerfRequestEx cmdId onOffTag (AddPidAndTidInfo pid tid msg)) c)"

definition Client_PowerLimitBoost ::
  "Samgr \<Rightarrow> int \<Rightarrow> int \<Rightarrow> bool \<Rightarrow> string \<Rightarrow> SocPerfClient \<Rightarrow> error + SocPerfClient" where
  "Client_PowerLimitBoost a pid tid onOffTag msg c =
     (case CheckClientValid a c of (valid, c) \<Rightarrow>
        if \<not> valid then Inr c
        else callClient (CallPowerLimitBoost onOffTag (AddPidAndTidInfo pid tid msg)) c)"

definition Client_ThermalLimitBoost ::
  "Samgr \<Rightarrow> int \<Rightarrow> int \<Rightarrow> bool \<Rightarrow> string \<Rightarrow> SocPerfClient \<Rightarrow> error + SocPerfClient" where
  "Client_ThermalLimitBoost a pid tid onOffTag msg c =
     (case CheckClientValid a c of (valid, c) \<Rightarrow>
        if \<not> valid then Inr c
        else callClient (CallThermalLimitBoost onOffTag (AddPidAndTidInfo pid tid msg)) c)"

definition Client_LimitRequest ::
  "Samgr \<Rightarrow> int \<Rightarrow> int \<Rightarrow> int \<Rightarrow> int list \<Rightarrow> int list \<Rightarrow> string \<Rightarrow> SocPerfClient \<Rightarrow> error + SocPerfClient" where
  "Client_LimitRequest a pid tid clientId tags configs msg c =
     (case CheckClientValid a c of (valid, c) \<Rightarrow>
        if \<not> valid then Inr c
        else callClient (CallLimitRequest clientId tags configs (AddPidAndTidInfo pid tid msg)) c)"

definition Client_SetRequestStatus ::
  "Samgr \<Rightarrow> int \<Rightarrow> int \<Rightarrow> bool \<Rightarrow> string \<Rightarrow> SocPerfClient \<Rightarrow> error + SocPerfClient" where
  "Client_SetRequestStatus a pid tid status msg c =
     (case CheckClientValid a c of (valid, c) \<Rightarrow>
        if \<not> valid then Inr c
        else callClient (CallSetRequestStatus status (AddPidAndTidInfo pid tid msg)) c)"

definition Client_SetThermalLevel :: "Samgr \<Rightarrow> int \<Rightarrow> SocPerfClient \<Rightarrow> error + SocPerfClient" where
  "Client_SetThermalLevel a level c =
     (case CheckClientValid a c of (valid, c) \<Rightarrow>
        if \<not> valid then Inr c else callClient (CallSetThermalLevel level) c)"

definition Client_RequestDeviceMode ::
  "Samgr \<Rightarrow> string \<Rightarrow> bool \<Rightarrow> SocPerfClient \<Rightarrow> error + SocPerfClient" where
  "Client_RequestDeviceMode a mode status c =
     (case CheckClientValid a c of (valid, c) \<Rightarrow>
        if \<not> valid \<or> length mode > MAX_MODE_LEN then Inr c
        else callClient (CallRequestDeviceMode mode status) c)"

text \<open>\<open>reply\<close>: the string the remote call leaves in its out parameter.\<close>

definition Client_RequestCmdIdCount ::
  "Samgr \<Rightarrow> string \<Rightarrow> string \<Rightarrow> SocPerfClient \<Rightarrow> error + (string \<times> SocPerfClient)" where
  "Client_RequestCmdIdCount a msg reply c =
     (case CheckClientValid a c of (valid, c) \<Rightarrow>
        if \<not> valid then Inr ([], c)
        else bindE (callClient (CallRequestCmdIdCount msg) c) (\<lambda>c. Inr (reply, c)))"

end
