(* ===== verification/ClientSpecs.thy ===== *)
theory ClientSpecs
  imports Client
begin

text \<open>
  The client library: every call either reaches the service once, through the proxy in use, or does
  nothing; the proxy is never dereferenced when it is null.
\<close>

text \<open>The message as the service gets it: process, thread, and what the caller gave, if anything.\<close>

definition taggedMessage :: "int \<Rightarrow> int \<Rightarrow> string \<Rightarrow> string" where
  "taggedMessage pid tid msg =
     join_with (CHR ''|'') ([''pid='' @ to_string pid, ''tid='' @ to_string tid] @ (if msg = [] then [] else [msg]))"

lemma AddPidAndTidInfo_tagged: "AddPidAndTidInfo pid tid msg = taggedMessage pid tid msg"
  by (simp add: AddPidAndTidInfo_def taggedMessage_def)

text \<open>
  The calls of the client, all nine, with the remote call each of them makes and the condition, beside a
  valid proxy, under which it makes it. \<open>RequestCmdIdCount\<close> also returns a string, left out here.
\<close>

definition clientCalls ::
  "Samgr \<Rightarrow> int \<Rightarrow> int \<Rightarrow> int \<Rightarrow> bool \<Rightarrow> int list \<Rightarrow> int list \<Rightarrow> string \<Rightarrow> string
   \<Rightarrow> ((SocPerfClient \<Rightarrow> error + SocPerfClient) \<times> ClientCall \<times> bool) list" where
  "clientCalls a pid tid n b tags configs msg reply =
     (let m = taggedMessage pid tid msg in
      [(Client_PerfRequest a pid tid n msg, CallPerfRequest n m, True),
       (Client_PerfRequestEx a pid tid n b msg, CallPerfRequestEx n b m, True),
       (Client_PowerLimitBoost a pid tid b msg, CallPowerLimitBoost b m, True),
       (Client_ThermalLimitBoost a pid tid b msg, CallThermalLimitBoost b m, True),
       (Client_LimitRequest a pid tid n tags configs msg, CallLimitRequest n tags configs m, True),
       (Client_SetRequestStatus a pid tid b msg, CallSetRequestStatus b m, True),
       (Client_SetThermalLevel a n, CallSetThermalLevel n, True),
       (Client_RequestDeviceMode a msg b, CallRequestDeviceMode msg b, length msg \<le> 64),
       (\<lambda>c. bindE (Client_RequestCmdIdCount a msg reply c) (\<lambda>(r, c). Inr c), CallRequestCmdIdCount msg, True)])"

lemma CheckClientValid_sent: "ct_sent (snd (CheckClientValid a c)) = ct_sent c"
  by (auto simp: CheckClientValid_def Let_def split: option.split)

lemma CheckClientValid_client: "fst (CheckClientValid a c) \<Longrightarrow> ct_client (snd (CheckClientValid a c)) \<noteq> None"
  by (auto simp: CheckClientValid_def Let_def split: option.splits if_splits)

lemma guarded_call:
  "okE (\<lambda>c'. if fst (CheckClientValid a c) \<and> ok then \<exists>p. ct_client c' = Some p \<and> ct_sent c' = ct_sent c @ [(p, k)]
         else ct_sent c' = ct_sent c)
     (case CheckClientValid a c of (valid, c) \<Rightarrow> if \<not> valid \<or> \<not> ok then Inr c else callClient k c)"
proof -
  obtain v c' where v: "CheckClientValid a c = (v, c')" by (cases "CheckClientValid a c")
  then show ?thesis
    using CheckClientValid_sent [of a c] CheckClientValid_client [of a c] by (auto simp: callClient_def derefE_def)
qed

theorem clientCalls_guarded:
  assumes "(f, k, ok) \<in> set (clientCalls a pid tid n b tags configs msg reply)"
  shows "okE (\<lambda>c'. if fst (CheckClientValid a c) \<and> ok then \<exists>p. ct_client c' = Some p \<and> ct_sent c' = ct_sent c @ [(p, k)]
         else ct_sent c' = ct_sent c) (f c)"
proof -
  have "bindE (Client_RequestCmdIdCount a msg reply c) (\<lambda>(r, c). Inr c)
      = (case CheckClientValid a c of (valid, c) \<Rightarrow> if \<not> valid then Inr c else callClient (CallRequestCmdIdCount msg) c)"
    by (auto simp: Client_RequestCmdIdCount_def callClient_def bindE_assoc split: prod.split option.split)
  then have "f c = (case CheckClientValid a c of (valid, c) \<Rightarrow> if \<not> valid \<or> \<not> ok then Inr c else callClient k c)"
    using assms
    by (auto simp: clientCalls_def Let_def Client_PerfRequest_def Client_PerfRequestEx_def Client_PowerLimitBoost_def
        Client_ThermalLimitBoost_def Client_LimitRequest_def Client_SetRequestStatus_def Client_SetThermalLevel_def
        Client_RequestDeviceMode_def AddPidAndTidInfo_tagged not_le split: prod.split)
  then show ?thesis using guarded_call [of a c ok k] by simp
qed

theorem Client_RequestCmdIdCount_reply:
  "okE (\<lambda>(r, c'). r = (if fst (CheckClientValid a c) then reply else [])) (Client_RequestCmdIdCount a msg reply c)"
proof -
  obtain v c' where v: "CheckClientValid a c = (v, c')" by (cases "CheckClientValid a c")
  then show ?thesis
    using CheckClientValid_client [of a c] by (auto simp: Client_RequestCmdIdCount_def callClient_def derefE_def)
qed

text \<open>
  When the recipient cannot be set up, the check fails but the proxy stays: the next check succeeds
  although nobody is told when the service dies.
\<close>

theorem proxy_without_recipient:
  assumes "ct_client c = None" and "sm_manager a" and "sm_object a" and "sm_cast a = Some p" and "\<not> sm_alloc a"
  shows "\<not> fst (CheckClientValid a c)"
    and "fst (CheckClientValid b (snd (CheckClientValid a c)))"
    and "ct_watched (snd (CheckClientValid b (snd (CheckClientValid a c)))) = ct_watched c"
  using assms by (auto simp: CheckClientValid_def Let_def split: option.split)

end
