(* ===== verification/RequestSpecs.thy ===== *)
theory RequestSpecs
  imports SocperfCore
begin

text \<open>
  What the operations of \<open>SocPerf\<close> promise, each on its own: the rate limit over a history of
  requests, the choice among the actions of a thermal level, the record of the limits in force, the
  recorded device modes and the printed counts.
\<close>

subsection \<open>The rate limit\<close>

text \<open>The calls of \<open>CheckTimeInterval\<close> in a history \<open>(now, onOff, cmdId)\<close>; the accepted ones are returned.\<close>

fun acceptedCalls :: "(int \<times> bool \<times> int) list \<Rightarrow> 'a SocPerf_scheme \<Rightarrow> (int \<times> bool \<times> int) list" where
  "acceptedCalls [] s = []"
| "acceptedCalls ((now, onOff, k) # es) s =
     (case CheckTimeInterval now onOff k s of (pass, s) \<Rightarrow>
        (if pass then [(now, onOff, k)] else []) @ acceptedCalls es s)"

text \<open>Clock readings do not decrease and fit in 63 bits. The commands are any.\<close>

definition clock_ok :: "(int \<times> bool \<times> int) list \<Rightarrow> bool" where
  "clock_ok es \<longleftrightarrow> sorted (map fst es) \<and> (\<forall>(now, b, k)\<in>set es. 0 \<le> now \<and> now < 2 ^ 63)"

text \<open>
  The entry that a switched-on request for \<open>j\<close> clears, the one its switched-off requests are recorded
  under, may be that of another command: \<open>resets j k\<close>.
\<close>

definition resets :: "int \<Rightarrow> int \<Rightarrow> bool" where
  "resets j k \<longleftrightarrow> to_int32 (j + CANCEL_CMDID_PREFIX) = k"

definition spaced :: "int \<Rightarrow> (int \<times> bool \<times> int) list \<Rightarrow> bool" where
  "spaced k es \<longleftrightarrow> sorted_wrt (\<lambda>(n1, b1, k1) (n2, b2, k2). b1 \<and> b2 \<and> k1 = k \<and> k2 = k \<longrightarrow> n2 - n1 > uint TIME_INTERVAL) es"

lemma uint_reading: "0 \<le> now \<Longrightarrow> now < 2 ^ 63 \<Longrightarrow> uint (word_of_int now :: 64 word) = now"
  by (simp add: uint_word_of_int)

lemma time_diff:
  assumes "uint w \<le> now" and "now < 2 ^ 63"
  shows "word_of_int now - w > TIME_INTERVAL \<longleftrightarrow> now - uint w > 8"
proof -
  have "word_of_int now - w = word_of_int (now - uint w)" by (simp add: of_int_diff)
  moreover have "uint (word_of_int (now - uint w) :: 64 word) = now - uint w"
    using assms uint_ge_0 [of w] by (intro uint_reading) linarith+
  ultimately show ?thesis by (simp add: word_less_def)
qed

lemma resets_self: "\<not> resets k k"
proof
  assume "resets k k"
  then have "(k + 100000 + 2 ^ 31) mod 2 ^ 32 = k + 2 ^ 31" unfolding resets_def to_int32_def by linarith
  moreover have "(k + 100000 + 2 ^ 31) div 2 ^ 32 * 2 ^ 32 + (k + 100000 + 2 ^ 31) mod 2 ^ 32 = k + 100000 + 2 ^ 31"
    by (rule div_mult_mod_eq)
  ultimately have "(k + 100000 + 2 ^ 31) div 2 ^ 32 * 2 ^ 32 = 100000" by linarith
  moreover have p: "(2 :: int) ^ 32 = 4294967296" by simp
  have False if "q * 2 ^ 32 = 100000" for q :: int
  proof (cases "q \<le> 0")
    case True
    with that show False unfolding p by linarith
  next
    case False
    then have "1 \<le> q" by linarith
    with that show False unfolding p by linarith
  qed
  ultimately show False by blast
qed

text \<open>Whatever is recorded for a command is not later than any further reading.\<close>

definition recordsBefore :: "int \<Rightarrow> 'a SocPerf_scheme \<Rightarrow> bool" where
  "recordsBefore now s \<longleftrightarrow> (\<forall>k w. map_of (boostTime s) k = Some w \<longrightarrow> uint w \<le> now)"

text \<open>
  One request. A record is only replaced by the current reading, except by the requests that reset it.
\<close>

lemma CheckTimeInterval_cases:
  assumes c: "CheckTimeInterval now onOff j s = (pass, s')"
  obtains (on) m where "onOff" and "m = AList.update (to_int32 (j + CANCEL_CMDID_PREFIX)) 0 (boostTime s)"
      and "pass \<longleftrightarrow> (case map_of m j of None \<Rightarrow> True | Some t \<Rightarrow> word_of_int now - t > TIME_INTERVAL)"
      and "boostTime s' = (if pass then AList.update j (word_of_int now) m else m)"
    | (off) r where "\<not> onOff" and "r = to_int32 (j + CANCEL_CMDID_PREFIX)"
      and "boostTime s' = (if pass then AList.update r (word_of_int now) (boostTime s) else boostTime s)"
  using assms by (cases onOff) (auto simp: CheckTimeInterval_def Let_def split: option.splits if_splits)

lemma CheckTimeInterval_step:
  assumes c: "CheckTimeInterval now onOff j s = (pass, s')"
    and now: "0 \<le> now" "now < 2 ^ 63" and rec: "recordsBefore now s"
  shows "recordsBefore now s'"
    and "onOff \<Longrightarrow> pass \<Longrightarrow> map_of (boostTime s') j = Some (word_of_int now)"
    and "\<not> (onOff \<and> resets j k) \<Longrightarrow> map_of (boostTime s') k = map_of (boostTime s) k
           \<or> map_of (boostTime s') k = Some (word_of_int now)"
    and "onOff \<Longrightarrow> pass \<Longrightarrow> map_of (boostTime s) j = Some w \<Longrightarrow> now - uint w > 8"
proof -
  note reading = uint_reading [OF now]
  have all: "recordsBefore now s' \<and> (onOff \<and> pass \<longrightarrow> map_of (boostTime s') j = Some (word_of_int now))
    \<and> (\<not> (onOff \<and> resets j k) \<longrightarrow> map_of (boostTime s') k = map_of (boostTime s) k
           \<or> map_of (boostTime s') k = Some (word_of_int now))
    \<and> (onOff \<and> pass \<and> map_of (boostTime s) j = Some w \<longrightarrow> now - uint w > 8)"
    using c
  proof (cases rule: CheckTimeInterval_cases)
    case (on m)
    have self: "to_int32 (j + CANCEL_CMDID_PREFIX) \<noteq> j" using resets_self [of j] unfolding resets_def .
    have m: "map_of m = (map_of (boostTime s))(to_int32 (j + CANCEL_CMDID_PREFIX) \<mapsto> 0)"
      unfolding on(2) by (rule update_conv')
    have mj: "map_of m j = map_of (boostTime s) j" using self by (simp add: m)
    have before: "uint t \<le> now" if "map_of m i = Some t" for i t
      using that rec now(1) by (auto simp: m recordsBefore_def split: if_splits)
    have s': "map_of (boostTime s') = (if pass then (map_of m)(j \<mapsto> word_of_int now) else map_of m)"
      unfolding on(4) by (simp add: update_conv')
    have "recordsBefore now s'" using before reading by (auto simp: recordsBefore_def s')
    moreover have "map_of (boostTime s') k = map_of (boostTime s) k \<or> map_of (boostTime s') k = Some (word_of_int now)"
      if "\<not> resets j k"
      using that by (auto simp: s' m resets_def)
    moreover have "now - uint w > 8" if "pass" "map_of (boostTime s) j = Some w"
    proof -
      have "map_of m j = Some w" using mj that(2) by simp
      then show ?thesis using on(3) that(1) time_diff [OF before now(2), of j w] by simp
    qed
    ultimately show ?thesis using on(1) by (simp add: s')
  next
    case (off r)
    have s': "map_of (boostTime s') = (if pass then (map_of (boostTime s))(r \<mapsto> word_of_int now) else map_of (boostTime s))"
      unfolding off(3) by (simp add: update_conv')
    have "recordsBefore now s'" using rec reading by (auto simp: recordsBefore_def s')
    then show ?thesis using off(1) by (simp add: s')
  qed
  then show "recordsBefore now s'"
    and "onOff \<Longrightarrow> pass \<Longrightarrow> map_of (boostTime s') j = Some (word_of_int now)"
    and "\<not> (onOff \<and> resets j k) \<Longrightarrow> map_of (boostTime s') k = map_of (boostTime s) k
           \<or> map_of (boostTime s') k = Some (word_of_int now)"
    and "onOff \<Longrightarrow> pass \<Longrightarrow> map_of (boostTime s) j = Some w \<Longrightarrow> now - uint w > 8"
    by blast+
qed

text \<open>Nothing accepted later is close to what is recorded.\<close>

lemma acceptedCalls_later:
  assumes "clock_ok es" and "recordsBefore n s" and "\<forall>(now, b, j)\<in>set es. n \<le> now"
    and "\<forall>(now, b, j)\<in>set es. b \<longrightarrow> \<not> resets j k"
    and "map_of (boostTime s) k = Some w" and "(now, True, k) \<in> set (acceptedCalls es s)"
  shows "now - uint w > 8"
  using assms
proof (induction es arbitrary: s n w)
  case (Cons e es)
  obtain m b j where e: "e = (m, b, j)" by (cases e)
  obtain pass s' where c: "CheckTimeInterval m b j s = (pass, s')" by (cases "CheckTimeInterval m b j s")
  have m: "0 \<le> m" "m < 2 ^ 63" "n \<le> m" and es: "clock_ok es" and later: "\<forall>(now, b, j)\<in>set es. m \<le> now"
      and free: "\<forall>(now, b, j)\<in>set es. b \<longrightarrow> \<not> resets j k" "\<not> (b \<and> resets j k)"
    using Cons.prems(1,3,4) by (auto simp: clock_ok_def e)
  have rec: "recordsBefore m s" using Cons.prems(2) m(3) by (fastforce simp: recordsBefore_def)
  have w: "uint w \<le> m" using rec Cons.prems(5) by (simp add: recordsBefore_def)
  note step = CheckTimeInterval_step [OF c m(1,2) rec]
  show ?case
  proof (cases "(now, True, k) \<in> set (acceptedCalls es s')")
    case rest: True
    obtain v where v: "map_of (boostTime s') k = Some v" "v = w \<or> v = word_of_int m"
      using step(3) [OF free(2)] Cons.prems(5) by auto
    then have "now - uint v > 8" using Cons.IH [OF es step(1) later free(1)] rest by blast
    then show ?thesis using v(2) w uint_reading [OF m(1,2)] by auto
  next
    case False
    then have "b \<and> pass \<and> k = j \<and> m = now" using Cons.prems(6) by (auto simp: e c split: if_splits)
    then show ?thesis using step(4) Cons.prems(5) by simp
  qed
qed simp

theorem acceptedCalls_spaced:
  assumes "clock_ok es" and "recordsBefore n s" and "\<forall>(now, b, j)\<in>set es. n \<le> now"
    and "\<forall>(now, b, j)\<in>set es. b \<longrightarrow> \<not> resets j k"
  shows "spaced k (acceptedCalls es s)"
  using assms
proof (induction es arbitrary: s n)
  case (Cons e es)
  obtain m b j where e: "e = (m, b, j)" by (cases e)
  obtain pass s' where c: "CheckTimeInterval m b j s = (pass, s')" by (cases "CheckTimeInterval m b j s")
  have m: "0 \<le> m" "m < 2 ^ 63" "n \<le> m" and es: "clock_ok es" and later: "\<forall>(now, b, j)\<in>set es. m \<le> now"
      and free: "\<forall>(now, b, j)\<in>set es. b \<longrightarrow> \<not> resets j k"
    using Cons.prems(1,3,4) by (auto simp: clock_ok_def e)
  have rec: "recordsBefore m s" using Cons.prems(2) m(3) by (fastforce simp: recordsBefore_def)
  note step = CheckTimeInterval_step [OF c m(1,2) rec]
  have rest: "spaced k (acceptedCalls es s')" by (rule Cons.IH [OF es step(1) later free])
  have "now - m > 8" if "b" "pass" "j = k" "(now, True, k) \<in> set (acceptedCalls es s')" for now
    using acceptedCalls_later [OF es step(1) later free, of "word_of_int m"] step(2) that uint_reading [OF m(1,2)] by simp
  then show ?case using rest by (auto simp: e c spaced_def)
qed (simp add: spaced_def)

text \<open>After a request that resets the record of a command, the next request for it passes at once.\<close>

theorem reset_passes:
  assumes "resets j k" and "8 < now" and "now < 2 ^ 63"
  shows "fst (CheckTimeInterval now True k (snd (CheckTimeInterval m True j s)))"
proof -
  have "j \<noteq> k" using assms(1) resets_self by blast
  then have "map_of (boostTime (snd (CheckTimeInterval m True j s))) k = Some 0"
    using assms(1) by (auto simp: CheckTimeInterval_def Let_def resets_def update_conv' split: option.split)
  moreover have "to_int32 (k + CANCEL_CMDID_PREFIX) \<noteq> k" using resets_self [of k] by (simp add: resets_def)
  moreover have "(word_of_int now :: 64 word) - 0 > TIME_INTERVAL" using time_diff [of 0 now] assms(2,3) by simp
  ultimately show ?thesis by (simp add: CheckTimeInterval_def Let_def update_conv')
qed

subsection \<open>The action of a thermal level\<close>

text \<open>The last action of greatest thermal level among those not above the current one.\<close>

definition nearest :: "int \<Rightarrow> Action list \<Rightarrow> Action \<Rightarrow> bool" where
  "nearest lvl as a \<longleftrightarrow> (\<exists>xs ys. as = xs @ a # ys \<and> ac_thermalLvl a \<le> lvl
     \<and> (\<forall>b\<in>set xs. ac_thermalLvl b \<le> lvl \<longrightarrow> ac_thermalLvl b \<le> ac_thermalLvl a)
     \<and> (\<forall>b\<in>set ys. ac_thermalLvl b \<le> lvl \<longrightarrow> ac_thermalLvl b < ac_thermalLvl a))"

lemma nearestAction_snoc:
  "nearestAction lvl (as @ [a]) acc =
     (if ac_thermalLvl a \<le> lvl
         \<and> (case nearestAction lvl as acc of None \<Rightarrow> True | Some b \<Rightarrow> ac_thermalLvl b \<le> ac_thermalLvl a)
      then Some a else nearestAction lvl as acc)"
  by (induction as arbitrary: acc) simp_all

theorem nearestAction_spec:
  "case nearestAction lvl as None of
     None \<Rightarrow> \<forall>a\<in>set as. lvl < ac_thermalLvl a
   | Some a \<Rightarrow> nearest lvl as a"
proof (induction as rule: rev_induct)
  case (snoc b as)
  show ?case
  proof (cases "nearestAction lvl as None")
    case None
    then have "\<forall>a\<in>set as. lvl < ac_thermalLvl a" using snoc by simp
    then show ?thesis using None by (force simp: nearestAction_snoc nearest_def)
  next
    case (Some a)
    with snoc obtain xs ys where as: "as = xs @ a # ys" and a: "ac_thermalLvl a \<le> lvl"
      and xs: "\<forall>b\<in>set xs. ac_thermalLvl b \<le> lvl \<longrightarrow> ac_thermalLvl b \<le> ac_thermalLvl a"
      and ys: "\<forall>b\<in>set ys. ac_thermalLvl b \<le> lvl \<longrightarrow> ac_thermalLvl b < ac_thermalLvl a"
      by (auto simp: nearest_def)
    show ?thesis
    proof (cases "ac_thermalLvl b \<le> lvl \<and> ac_thermalLvl a \<le> ac_thermalLvl b")
      case True
      have "\<forall>x\<in>set as. ac_thermalLvl x \<le> lvl \<longrightarrow> ac_thermalLvl x \<le> ac_thermalLvl b"
        using xs ys True unfolding as by force
      then have "nearest lvl (as @ [b]) b"
        unfolding nearest_def using True by (intro exI [of _ as] exI [of _ "[]"]) simp
      then show ?thesis using Some True by (simp add: nearestAction_snoc)
    next
      case False
      then have "nearest lvl (as @ [b]) a"
        unfolding nearest_def using a xs ys by (intro exI [of _ xs] exI [of _ "ys @ [b]"]) (auto simp: as)
      then show ?thesis using Some False by (auto simp: nearestAction_snoc)
    qed
  qed
qed simp

subsection \<open>Limits in force\<close>

text \<open>The limit events in the queue: event, key, switch, value.\<close>

definition postedLimits :: "'a SocPerfThreadWrap_scheme \<Rightarrow> (SocPerfInnerEvent \<times> int \<times> EventType \<times> int) option list" where
  "postedLimits s = map (\<lambda>e. case qe_task e of
     TaskUpdateLimitStatus ev a k \<Rightarrow> Some (ev, k, ra_onOff a, ra_value a) | _ \<Rightarrow> None) (socperfQueue s)"

definition client_ok :: "int \<Rightarrow> 'a SocPerf_scheme \<Rightarrow> bool" where
  "client_ok c s \<longleftrightarrow> 0 \<le> c \<and> c < int (length (limitRequest s))"

text \<open>
  A limit recorded with the value \<open>INVALID_VALUE\<close> (that is how \<open>2 ^ 31\<close> is recorded) counts as no limit
  when it is to be released, but as a limit when a new one is to be recorded.
\<close>

definition dropLimit :: "int \<Rightarrow> (int \<rightharpoonup> int) \<Rightarrow> (int \<rightharpoonup> int)" where
  "dropLimit k m = (if m k = Some INVALID_VALUE then m else m(k := None))"

definition releaseOf ::
  "SocPerfInnerEvent \<Rightarrow> int \<Rightarrow> (int \<rightharpoonup> int) \<Rightarrow> (SocPerfInnerEvent \<times> int \<times> EventType \<times> int) option list" where
  "releaseOf ev k m = (case m k of None \<Rightarrow> []
     | Some v \<Rightarrow> if v = INVALID_VALUE then [] else [Some (ev, k, EVENT_OFF, v)])"

definition limits_clean :: "int \<Rightarrow> 'a SocPerf_scheme \<Rightarrow> bool" where
  "limits_clean c s \<longleftrightarrow> client_ok c s \<and> (\<forall>k. map_of (limitsOf c s) k \<noteq> Some INVALID_VALUE)"

lemma postedLimits_Update:
  "postedLimits (UpdateLimitStatus ev a k s) = postedLimits s @ [Some (ev, k, ra_onOff a, ra_value a)]"
  by (simp add: postedLimits_def UpdateLimitStatus_def submit_def submit_h_def)

lemma limitsOf_Update [simp]:
  "limitsOf c (UpdateLimitStatus ev a k s) = limitsOf c s"
  "limitRequest (UpdateLimitStatus ev a k s) = limitRequest s"
  "resourceNodeInfo (UpdateLimitStatus ev a k s) = resourceNodeInfo s"
  by (simp_all add: limitsOf_def UpdateLimitStatus_def submit_def submit_h_def)

lemma limitsOf_setLimits: "client_ok c s \<Longrightarrow> limitsOf c (setLimits c m s) = m"
  by (simp add: limitsOf_def setLimits_def client_ok_def nat_less_iff)

lemma setLimits_keep [simp]:
  "postedLimits (setLimits c m s) = postedLimits s" "resourceNodeInfo (setLimits c m s) = resourceNodeInfo s"
  "length (limitRequest (setLimits c m s)) = length (limitRequest s)"
  by (simp_all add: postedLimits_def setLimits_def)

lemma postedLimits_own [simp]: "postedLimits (s\<lparr>nextRef := n\<rparr>) = postedLimits s"
  by (simp add: postedLimits_def)

lemma client_ok_own [simp]: "client_ok c (s\<lparr>nextRef := n\<rparr>) = client_ok c s"
  "client_ok c (UpdateLimitStatus ev a k s) = client_ok c s"
  by (simp_all add: client_ok_def)

lemma limitsOf_own [simp]:
  "limitsOf c (s\<lparr>nextRef := n\<rparr>) = limitsOf c s"
  by (simp add: limitsOf_def)

lemma SendLimitRequestEventOff_spec:
  assumes "client_ok c s"
  shows "map_of (limitsOf c (SendLimitRequestEventOff c k ev s)) = dropLimit k (map_of (limitsOf c s))"
    and "postedLimits (SendLimitRequestEventOff c k ev s) = postedLimits s @ releaseOf ev k (map_of (limitsOf c s))"
    and "client_ok c (SendLimitRequestEventOff c k ev s)"
    and "resourceNodeInfo (SendLimitRequestEventOff c k ev s) = resourceNodeInfo s"
proof -
  have none: "map_of m k = None \<Longrightarrow> (map_of m)(k := None) = map_of m" for m :: "(int \<times> int) list" by auto
  show "map_of (limitsOf c (SendLimitRequestEventOff c k ev s)) = dropLimit k (map_of (limitsOf c s))"
    using assms none
    by (auto simp: SendLimitRequestEventOff_def Let_def dropLimit_def limitsOf_setLimits delete_conv' split: option.split)
  show "postedLimits (SendLimitRequestEventOff c k ev s) = postedLimits s @ releaseOf ev k (map_of (limitsOf c s))"
    by (simp add: SendLimitRequestEventOff_def Let_def releaseOf_def postedLimits_Update new_ResAction_def split: option.split)
  show "client_ok c (SendLimitRequestEventOff c k ev s)"
    using assms by (auto simp: SendLimitRequestEventOff_def Let_def client_ok_def split: option.split)
  show "resourceNodeInfo (SendLimitRequestEventOff c k ev s) = resourceNodeInfo s"
    by (auto simp: SendLimitRequestEventOff_def Let_def split: option.split)
qed

lemma SendLimitRequestEventOn_spec:
  assumes "client_ok c s"
  shows "map_of (limitsOf c (SendLimitRequestEventOn c k v ev s)) =
      (if v \<noteq> INVALID_VALUE \<and> v \<noteq> RESET_VALUE \<and> map_of (limitsOf c s) k = None
       then (map_of (limitsOf c s))(k \<mapsto> to_int32 v) else map_of (limitsOf c s))"
    and "postedLimits (SendLimitRequestEventOn c k v ev s) = postedLimits s @
      (if v \<noteq> INVALID_VALUE \<and> v \<noteq> RESET_VALUE then [Some (ev, k, EVENT_ON, v)] else [])"
    and "client_ok c (SendLimitRequestEventOn c k v ev s)"
    and "resourceNodeInfo (SendLimitRequestEventOn c k v ev s) = resourceNodeInfo s"
  using assms by (simp_all add: SendLimitRequestEventOn_def Let_def limitsOf_setLimits update_conv'
      postedLimits_Update new_ResAction_def client_ok_def)

text \<open>
  A request for \<open>resId\<close> by value or by level: the keys it concerns, and the limit events it posts.
\<close>

definition limitKeys :: "int \<Rightarrow> int \<times> int \<times> SocPerfInnerEvent" where
  "limitKeys resId = (if resId > RES_ID_ADDITION
     then (resId - RES_ID_ADDITION, resId, INNER_EVENT_ID_DO_FREQ_ACTION_LEVEL)
     else (resId, resId + RES_ID_ADDITION, INNER_EVENT_ID_DO_FREQ_ACTION))"

definition limitOn :: "int \<Rightarrow> bool" where
  "limitOn v \<longleftrightarrow> v \<noteq> INVALID_VALUE \<and> v \<noteq> RESET_VALUE"

definition releases :: "int \<Rightarrow> int \<Rightarrow> (int \<rightharpoonup> int) \<Rightarrow> (SocPerfInnerEvent \<times> int \<times> EventType \<times> int) option list" where
  "releases k l m = releaseOf INNER_EVENT_ID_DO_FREQ_ACTION k m @ releaseOf INNER_EVENT_ID_DO_FREQ_ACTION_LEVEL l m"

text \<open>The record after a request: both entries of the resource dropped, the new value inserted.\<close>

definition recordLimit :: "int \<Rightarrow> int \<Rightarrow> int \<Rightarrow> int \<Rightarrow> (int \<rightharpoonup> int) \<Rightarrow> (int \<rightharpoonup> int)" where
  "recordLimit k l resId v m =
     (let m' = dropLimit l (dropLimit k m) in
      if limitOn v \<and> m' resId = None then m'(resId \<mapsto> to_int32 v) else m')"

theorem SendLimitRequestEvent_spec:
  assumes c: "client_ok c s" and keys: "limitKeys resId = (k, l, ev)" and valid: "k \<in> resIds s"
  shows "map_of (limitsOf c (SendLimitRequestEvent c (resId, v) s)) = recordLimit k l resId v (map_of (limitsOf c s))"
    and "postedLimits (SendLimitRequestEvent c (resId, v) s) = postedLimits s
      @ releases k l (map_of (limitsOf c s)) @ (if limitOn v then [Some (ev, resId, EVENT_ON, v)] else [])"
    and "client_ok c (SendLimitRequestEvent c (resId, v) s)"
    and "resourceNodeInfo (SendLimitRequestEvent c (resId, v) s) = resourceNodeInfo s"
proof -
  let ?a = "SendLimitRequestEventOff c k INNER_EVENT_ID_DO_FREQ_ACTION s"
  let ?b = "SendLimitRequestEventOff c l INNER_EVENT_ID_DO_FREQ_ACTION_LEVEL ?a"
  note a = SendLimitRequestEventOff_spec [OF c, of k INNER_EVENT_ID_DO_FREQ_ACTION]
  note b = SendLimitRequestEventOff_spec [OF a(3), of l INNER_EVENT_ID_DO_FREQ_ACTION_LEVEL]
  note on = SendLimitRequestEventOn_spec [OF b(3)]
  have kl: "k \<noteq> l" using keys by (auto simp: limitKeys_def split: if_splits)
  have run: "SendLimitRequestEvent c (resId, v) s = SendLimitRequestEventOn c resId v ev ?b"
    using keys valid by (simp add: SendLimitRequestEvent_def limitKeys_def split: if_splits)
  show "map_of (limitsOf c (SendLimitRequestEvent c (resId, v) s)) = recordLimit k l resId v (map_of (limitsOf c s))"
    by (simp add: run on(1) a(1) b(1) limitOn_def recordLimit_def Let_def)
  have "releaseOf ev l (dropLimit k m) = releaseOf ev l m" for ev m using kl by (simp add: releaseOf_def dropLimit_def)
  then show "postedLimits (SendLimitRequestEvent c (resId, v) s) = postedLimits s
      @ releases k l (map_of (limitsOf c s)) @ (if limitOn v then [Some (ev, resId, EVENT_ON, v)] else [])"
    by (simp add: run on(2) a(1,2) b(2) limitOn_def releases_def)
  show "client_ok c (SendLimitRequestEvent c (resId, v) s)" unfolding run by (rule on(3))
  show "resourceNodeInfo (SendLimitRequestEvent c (resId, v) s) = resourceNodeInfo s"
    by (simp add: run on(4) b(4) a(4))
qed

text \<open>Without a record of the value \<open>INVALID_VALUE\<close> the new value replaces what is recorded for the resource.\<close>

lemma recordLimit_clean:
  assumes "\<forall>j. m j \<noteq> Some INVALID_VALUE" and "limitKeys resId = (k, l, ev)"
  shows "recordLimit k l resId v m =
    (if limitOn v then m(k := None, l := None, resId \<mapsto> to_int32 v) else m(k := None, l := None))"
proof -
  have "resId = k \<or> resId = l" using assms(2) by (auto simp: limitKeys_def split: if_splits)
  then show ?thesis using assms(1) by (auto simp: recordLimit_def dropLimit_def Let_def)
qed

text \<open>A limit that is recorded and then reset: the release names the recorded value.\<close>

lemma limit_then_reset:
  assumes clean: "limits_clean c s" and keys: "limitKeys resId = (k, l, ev)" and valid: "k \<in> resIds s"
    and on: "limitOn v" and rec: "to_int32 v \<noteq> INVALID_VALUE"
  shows "last (postedLimits (SendLimitRequestEvent c (resId, RESET_VALUE) (SendLimitRequestEvent c (resId, v) s)))
    = Some (ev, resId, EVENT_OFF, to_int32 v)"
proof -
  let ?t = "SendLimitRequestEvent c (resId, v) s"
  have kl: "k \<noteq> l" "resId = k \<and> ev = INNER_EVENT_ID_DO_FREQ_ACTION \<or> resId = l \<and> ev = INNER_EVENT_ID_DO_FREQ_ACTION_LEVEL"
    using keys by (auto simp: limitKeys_def split: if_splits)
  have c: "client_ok c s" "\<forall>j. map_of (limitsOf c s) j \<noteq> Some INVALID_VALUE"
    using clean by (simp_all add: limits_clean_def)
  note t = SendLimitRequestEvent_spec [OF c(1) keys valid, of v]
  have "map_of (limitsOf c ?t) = (map_of (limitsOf c s))(k := None, l := None, resId \<mapsto> to_int32 v)"
    using t(1) recordLimit_clean [OF c(2) keys, of v] on by simp
  with kl rec have "releases k l (map_of (limitsOf c ?t)) = [Some (ev, resId, EVENT_OFF, to_int32 v)]"
    by (auto simp: releases_def releaseOf_def)
  then show ?thesis
    using SendLimitRequestEvent_spec(2) [OF t(3) keys, of RESET_VALUE] valid by (simp add: t(4) limitOn_def)
qed

text \<open>
  A limit that is recorded as \<open>INVALID_VALUE\<close> is not released any more: a reset posts nothing for it,
  and a further request leaves the record as it is.
\<close>

lemma recordLimit_stuck:
  "m resId = Some INVALID_VALUE \<Longrightarrow> recordLimit k l resId v m resId = Some INVALID_VALUE"
  by (auto simp: recordLimit_def dropLimit_def Let_def)

subsection \<open>Recorded device modes\<close>

definition modes_ok :: "string list \<Rightarrow> bool" where
  "modes_ok ms \<longleftrightarrow> sorted ms \<and> distinct ms"

lemma modes_ok_step:
  "modes_ok ms \<Longrightarrow> modes_ok (remove1 m ms)" "modes_ok ms \<Longrightarrow> modes_ok (insort_insert m ms)"
  by (auto simp: modes_ok_def sorted_remove1 sorted_insort_insert distinct_insort_insert)

lemma matchItems_modes:
  assumes "modes_ok ms"
  shows "modes_ok (snd (matchItems mode items (n, ms)))
    \<and> set (snd (matchItems mode items (n, ms))) =
        (set ms - (si_name ` set items - {mode})) \<union> (if mode \<in> si_name ` set items then {mode} else {})"
  using assms
proof (induction items arbitrary: n ms)
  case (Cons item items)
  show ?case
  proof (cases "si_name item = mode")
    case True
    then show ?thesis
      using Cons.IH [of "insort_insert mode ms" "if si_req item = REPORT_TO_PERFSO then mode else n"] modes_ok_step Cons.prems
      by (auto simp: set_insort_insert)
  next
    case False
    then show ?thesis
      using Cons.IH [of "remove1 (si_name item) ms" n] modes_ok_step Cons.prems
      by (auto simp: modes_ok_def)
  qed
qed simp

text \<open>At most one mode of a scene is recorded once it has been entered.\<close>

theorem MatchDeviceMode_modes:
  assumes "modes_ok (recordDeviceMode s)"
  shows "modes_ok (recordDeviceMode (snd (MatchDeviceMode mode status items s)))
    \<and> set (recordDeviceMode (snd (MatchDeviceMode mode status items s))) =
        (if status then (set (recordDeviceMode s) - (si_name ` set items - {mode}))
                          \<union> (if mode \<in> si_name ` set items then {mode} else {})
         else set (recordDeviceMode s) - {mode})"
proof (cases status)
  case True
  obtain nm ms where m: "matchItems mode items (DEFAULT_MODE, recordDeviceMode s) = (nm, ms)"
    by (cases "matchItems mode items (DEFAULT_MODE, recordDeviceMode s)")
  show ?thesis
    using True matchItems_modes [OF assms, of mode items DEFAULT_MODE] by (simp add: MatchDeviceMode_def m)
next
  case False
  then show ?thesis
    using assms modes_ok_step by (simp add: MatchDeviceMode_def modes_ok_def)
qed

lemma reportScenario_modes [simp]:
  "recordDeviceMode (reportScenario ty nm status sc s) = recordDeviceMode (snd (MatchDeviceMode nm status (sr_items sc) s))"
  by (simp add: reportScenario_def split: prod.split)

lemma RequestDeviceMode_scene:
  assumes en: "enabled s" and len: "length (ty @ CHR '':'' # nm) \<le> MAX_RES_MODE_LEN"
    and sep: "CHR '':'' \<notin> set ty" "CHR '':'' \<notin> set nm" and scene: "map_of (sceneResourceInfo s) ty = Some sc"
    and nweak: "\<not> (ty = ACTION_MODE_STRING \<and> nm = WEAK_ACTION_STRING)"
  shows "okE (\<lambda>s'. recordDeviceMode s' = recordDeviceMode (snd (MatchDeviceMode nm status (sr_items sc) s)))
    (RequestDeviceMode (ty @ CHR '':'' # nm) status s)"
proof -
  have split: "Split (ty @ CHR '':'' # nm) '':'' = Some [ty, nm]"
    using sep by (simp add: Split_char split_on_append split_on_no_sep)
  have perf: "recordDeviceMode (snd (MatchDeviceMode nm status is (SetPerformanceModeStatus status s)))
      = recordDeviceMode (snd (MatchDeviceMode nm status is s))"
    "sceneResourceInfo (SetPerformanceModeStatus status s) = sceneResourceInfo s" for "is"
    by (simp_all add: MatchDeviceMode_def SetPerformanceModeStatus_def submit_def submit_h_def split: prod.split)
  show ?thesis
    using assms unfolding RequestDeviceMode_def split by (auto simp: Let_def perf)
qed

subsection \<open>Printed counts\<close>

lemma printCounts_join: "printCounts [c] m = join_with c (map countEntry m)"
proof -
  have entry: "countEntry e \<noteq> []" for e by (simp add: countEntry_def split: prod.split)
  let ?f = "\<lambda>kn ret. (if length ret > 0 then ret @ [c] else ret) @ countEntry kn"
  have more: "ret \<noteq> [] \<Longrightarrow> fold ?f xs ret = join_with c (ret # map countEntry xs)" for ret xs
  proof (induction xs arbitrary: ret)
    case (Cons e xs)
    have "fold ?f (e # xs) ret = join_with c ((ret @ c # countEntry e) # map countEntry xs)"
      using Cons by simp
    then show ?case by (cases xs) simp_all
  qed simp
  show ?thesis
  proof (cases m)
    case (Cons e m')
    then show ?thesis using more [of "countEntry e" m'] entry [of e] by (simp add: printCounts_def)
  qed (simp add: printCounts_def)
qed

text \<open>A reader of the printed counts.\<close>

definition readCounts :: "string \<Rightarrow> (int \<times> int) list option" where
  "readCounts str = (if str = [] then Some [] else map_option (map (\<lambda>e. case split_on (CHR '':'') e of
     [k, n] \<Rightarrow> (string_to_int k, string_to_int n) | _ \<Rightarrow> (0, 0))) (Split str '',''))"

lemma to_string_no_sep: "\<not> is_digit c \<Longrightarrow> c \<noteq> CHR ''-'' \<Longrightarrow> c \<notin> set (to_string i)"
  using nat_to_string_digits by (auto simp: to_string_def list_all_iff)

theorem readCounts_print: "readCounts (printCounts '','' m) = Some (map (\<lambda>(k, n). (k, uint n)) m)"
proof (cases "m = []")
  case True
  then show ?thesis by (simp add: readCounts_def printCounts_def)
next
  case False
  have sep: "\<not> is_digit (CHR '','')" "\<not> is_digit (CHR '':'')" by (simp_all add: is_digit_code)
  have entry: "CHR '','' \<notin> set (countEntry e)" for e
    using to_string_no_sep [OF sep(1)] by (auto simp: countEntry_def split: prod.split)
  have "split_on (CHR '':'') (countEntry (k, n)) = [to_string k, to_string (uint n)]" for k n
    using to_string_no_sep [OF sep(2)] by (simp add: countEntry_def split_on_append split_on_no_sep)
  moreover have "Split (printCounts '','' m) '','' = Some (map countEntry m)"
    using split_on_join [of "map countEntry m" "CHR '',''"] False entry by (simp add: printCounts_join Split_char)
  moreover have "printCounts '','' m \<noteq> []"
  proof -
    obtain e m' where "m = e # m'" using False by (cases m) auto
    moreover have "countEntry e \<noteq> []" by (simp add: countEntry_def split: prod.split)
    ultimately show ?thesis by (cases "map countEntry m'") (simp_all add: printCounts_join)
  qed
  ultimately show ?thesis by (auto simp: readCounts_def string_to_int_to_string split: prod.split)
qed

subsection \<open>Commands that are not configured\<close>

lemma CheckTimeInterval_keeps:
  "CheckTimeInterval now b k s = (pass, s') \<Longrightarrow> configPerfActionsInfo s' = configPerfActionsInfo s
     \<and> recordDeviceMode s' = recordDeviceMode s \<and> enabled s' = enabled s \<and> perfRequestEnable s' = perfRequestEnable s"
  by (auto simp: CheckTimeInterval_def Let_def split: option.splits if_splits)

lemma PerfRequest_null:
  assumes en: "enabled s" "perfRequestEnable s" and time: "fst (CheckTimeInterval now True k s)"
    and mode: "recordDeviceMode s = []" and null: "map_of (modeActions DEFAULT_CONFIG_MODE s) k = Some None"
    and k: "k \<noteq> INVALID_CMD_ID"
  shows "PerfRequest now curMs k msg s = Inl NullDeref"
proof -
  obtain t where t: "CheckTimeInterval now True k s = (True, t)" using time by (cases "CheckTimeInterval now True k s") auto
  note frame = CheckTimeInterval_keeps [OF t]
  have m: "modeActions m t = modeActions m s" for m using frame by (simp add: modeActions_def)
  obtain ms where ms: "map_of (configPerfActionsInfo t) DEFAULT_CONFIG_MODE = Some ms" "map_of ms k = Some None"
    using null frame by (auto simp: modeActions_def split: option.splits)
  have "GetMatchCmdId k False t = Inl NullDeref \<or> GetMatchCmdId k False t = Inr (k, t)"
    using mode frame null ms by (auto simp: GetMatchCmdId_def GetDeviceMode_def m MatchDeviceModeCmd_def derefE_def)
  moreover have "fst (GetActionsInfo k t) = None"
    using mode frame null by (simp add: GetActionsInfo_def GetDeviceMode_def m actionsAt_def ptrAt_def)
  ultimately show ?thesis
    using en t k by (auto simp: PerfRequest_def DoFreqActions_def derefE_def split: prod.split)
qed

text \<open>
  A lookup of a command that is not configured leaves a null entry: a request for it, ignored before
  the lookup, then dereferences the null pointer.
\<close>

theorem lookup_leaves_null:
  assumes en: "enabled s" "perfRequestEnable s" and time: "fst (CheckTimeInterval now True k s)"
    and mode: "recordDeviceMode s = []" and unconfigured: "map_of (modeActions DEFAULT_CONFIG_MODE s) k = None"
    and k: "k \<noteq> INVALID_CMD_ID"
  shows "okE (\<lambda>t. socperfQueue t = socperfQueue s) (PerfRequest now curMs k msg s)"
    and "PerfRequest now curMs k msg (snd (GetActionsInfo k s)) = Inl NullDeref"
proof -
  obtain t where t: "CheckTimeInterval now True k s = (True, t)" using time by (cases "CheckTimeInterval now True k s") auto
  note frame = CheckTimeInterval_keeps [OF t]
  have q: "socperfQueue t = socperfQueue s"
    using t by (auto simp: CheckTimeInterval_def Let_def split: option.splits if_splits)
  have tm: "modeActions m (touchMode m' u) = modeActions m u" for m m' and u :: "'a SocPerf_scheme"
    by (simp add: modeActions_def touchMode_def update_conv')
  have "modeActions m t = modeActions m s" for m using frame by (simp add: modeActions_def)
  then have "GetMatchCmdId k False t = Inr (INVALID_CMD_ID, touchMode DEFAULT_CONFIG_MODE t)"
    using mode frame unconfigured by (simp add: GetMatchCmdId_def GetDeviceMode_def tm Let_def)
  then show "okE (\<lambda>t. socperfQueue t = socperfQueue s) (PerfRequest now curMs k msg s)"
    using en t q by (simp add: PerfRequest_def touchMode_def)
  let ?u = "touchActions DEFAULT_CONFIG_MODE k s"
  have u: "snd (GetActionsInfo k s) = ?u"
    using mode unconfigured by (simp add: GetActionsInfo_def GetDeviceMode_def)
  have "fst (CheckTimeInterval now True k ?u) = fst (CheckTimeInterval now True k s)"
    by (simp add: CheckTimeInterval_def Let_def touchActions_def split: option.split)
  moreover have "map_of (modeActions DEFAULT_CONFIG_MODE ?u) k = Some None"
    using unconfigured by (simp add: modeActions_def touchActions_def touch_def update_conv')
  ultimately show "PerfRequest now curMs k msg (snd (GetActionsInfo k s)) = Inl NullDeref"
    unfolding u using en mode k time by (intro PerfRequest_null) (simp_all add: touchActions_def)
qed

subsection \<open>Daily statistics\<close>

text \<open>A run of the statistics closure reports the counts, clears them and arms itself again; after \<open>StopStatisticsTimer\<close> it does nothing.\<close>

theorem statistics_cycle:
  "statisticsTimerRunning s \<Longrightarrow> dailyCmdIdCount (statisticsFunc s) = []
     \<and> statisticsInfo (statisticsFunc s) = statisticsInfo s @
         (if dailyCmdIdCount s = [] then [] else [printCounts '';'' (dailyCmdIdCount s)])
     \<and> socperfQueue (statisticsFunc s) = socperfQueue s @
         [\<lparr>qe_handle = nextHandle s, qe_delay = STATISTICS_REPORT_INTERVAL_US, qe_task = TaskStatistics\<rparr>]
     \<and> statisticsTimer (statisticsFunc s) = Some (nextHandle s)"
  "statisticsFunc (StopStatisticsTimer s) = StopStatisticsTimer s"
  by (auto simp: statisticsFunc_def ReportCmdIdStatistics_def StartStatisticsTimer_def SubmitStatisticsTask_def
      submit_h_def Let_def StopStatisticsTimer_def CancelStatisticsTask_def cancel_def split: option.split)

end
