(* ===== verification/PolicySpecs.thy ===== *)
theory PolicySpecs
  imports Guarantees Requests
begin

text \<open>
  Promises of single operations of the thread wrap: the limits in force bound the candidate, a level
  selects one of the available values, a pack is followed by one removal for each duration in it, and
  a removal leaves none of its actions alive. At the end, what the value last sent owes to the live actions.
\<close>

subsection \<open>Limits in force\<close>

definition bounded_by :: "bool \<Rightarrow> int \<Rightarrow> int \<Rightarrow> bool" where
  "bounded_by limit wanted v \<longleftrightarrow> limit \<and> wanted \<noteq> INVALID_VALUE \<longrightarrow> v \<le> wanted"

lemma limitCaseValue_bounds:
  fixes p t perf power thermal
  defines "v \<equiv> limitCaseValue p t perf power thermal"
  shows "bounded_by p power v" and "bounded_by t thermal v"
    and "\<not> p \<Longrightarrow> \<not> t \<Longrightarrow> perf \<noteq> INVALID_VALUE \<Longrightarrow> perf \<le> v"
    and "v \<in> {perf, power, thermal}"
  unfolding v_def limitCaseValue_def bounded_by_def Max64_3_def Max64_max Min64_min by (auto simp: max_def min_def)

theorem ProcessLimitCase_bounds:
  assumes "stm s k = Some st"
  shows "okE (\<lambda>s'. \<exists>v. map_option rs_candidate (stm s' k) = Some v
     \<and> bounded_by (powerLimitBoost s) (candVal ACTION_TYPE_POWER st) v
     \<and> bounded_by (thermalLimitBoost s) (candVal ACTION_TYPE_THERMAL st) v
     \<and> (\<not> powerLimitBoost s \<longrightarrow> \<not> thermalLimitBoost s \<longrightarrow> candVal ACTION_TYPE_PERF st \<noteq> INVALID_VALUE
          \<longrightarrow> candVal ACTION_TYPE_PERF st \<le> v)) (ProcessLimitCase k s)"
  using limitCaseValue_bounds
  by (auto simp: ProcessLimitCase_def Let_def touchStatus_id [OF assms] statusAt_stm assms)

subsection \<open>Levels\<close>

lemma sorted_levels:
  assumes "n = length xs" and "sorted xs" and "0 \<le> l" and "l \<le> m" and "xs \<noteq> []"
  shows "xs ! (if m < int n then nat (int n - 1 - m) else 0) \<le> xs ! (if l < int n then nat (int n - 1 - l) else 0)"
  using assms by (auto intro!: sorted_nth_mono)

lemma sorted_ends:
  assumes "sorted xs" and "xs \<noteq> []"
  shows "xs ! (length xs - 1) = Max (set xs)" and "xs ! 0 = Min (set xs)"
proof -
  have len: "0 < length xs" using assms(2) by simp
  show "xs ! (length xs - 1) = Max (set xs)"
    using assms(1) len
    by (intro Max_eqI [symmetric] nth_mem) (auto simp: in_set_conv_nth intro!: sorted_nth_mono)
  show "xs ! 0 = Min (set xs)"
    using assms len by (intro Min_eqI [symmetric]) (auto simp: in_set_conv_nth intro!: sorted_nth_mono)
qed

theorem GetResValueByLevel_spec:
  assumes n: "nodeAt k s = Some n" and av: "rn_available n \<noteq> []"
  shows "0 \<le> l \<Longrightarrow> \<exists>v\<in>set (rn_available n). GetResValueByLevel k l s = Some v"
    and "0 \<le> l \<Longrightarrow> l \<le> m \<Longrightarrow> the (GetResValueByLevel k m s) \<le> the (GetResValueByLevel k l s)"
    and "GetResValueByLevel k 0 s = Some (Max (set (rn_available n)))"
    and "int (card (set (rn_available n))) \<le> l + 1 \<Longrightarrow> 0 \<le> l \<Longrightarrow> GetResValueByLevel k l s = Some (Min (set (rn_available n)))"
    and "l < 0 \<Longrightarrow> GetResValueByLevel k l s = None"
proof -
  let ?xs = "sort (remdups (rn_available n))"
  have xs: "sorted ?xs" "?xs \<noteq> []" "set ?xs = set (rn_available n)" "length ?xs = card (set (rn_available n))"
    using av by (simp_all add: length_remdups_card_conv) (metis set_empty set_remdups set_sort)
  have eq: "GetResValueByLevel k j s = Some (?xs ! (if j < int (length ?xs) then nat (int (length ?xs) - 1 - j) else 0))"
    if "0 \<le> j" for j
    using n av that by (simp add: GetResValueByLevel_def Let_def)
  have "?xs ! i \<in> set (rn_available n)" if "i < length ?xs" for i using nth_mem [OF that] xs(3) by simp
  moreover have "(if l < int (length ?xs) then nat (int (length ?xs) - 1 - l) else 0) < length ?xs" if "0 \<le> l"
    using that xs(2) by auto
  ultimately show "\<exists>v\<in>set (rn_available n). GetResValueByLevel k l s = Some v" if "0 \<le> l"
    using eq [OF that] that by blast
  show "the (GetResValueByLevel k m s) \<le> the (GetResValueByLevel k l s)" if "0 \<le> l" "l \<le> m"
    using sorted_levels [OF refl xs(1) that xs(2)] that by (simp add: eq)
  show "l < 0 \<Longrightarrow> GetResValueByLevel k l s = None" using n by (simp add: GetResValueByLevel_def)
  have "nat (int (length ?xs) - 1 - 0) = length ?xs - 1" by simp
  then show "GetResValueByLevel k 0 s = Some (Max (set (rn_available n)))"
    using eq [of 0] sorted_ends(1) [OF xs(1,2)] xs(2,3) av by simp
  show "GetResValueByLevel k l s = Some (Min (set (rn_available n)))"
    if "int (card (set (rn_available n))) \<le> l + 1" "0 \<le> l"
  proof -
    have "(if l < int (length ?xs) then nat (int (length ?xs) - 1 - l) else 0) = 0"
      using that unfolding xs(4) by simp
    then show ?thesis unfolding eq [OF that(2)] by (simp only: sorted_ends(2) [OF xs(1,2)] xs(3))
  qed
qed

subsection \<open>Delays\<close>

theorem delayOfDuration_exact:
  assumes "in_int32 d"
  shows "delayOfDuration d = d * 1000 \<longleftrightarrow> 0 \<le> d \<and> d \<le> 2147483"
proof
  assume "0 \<le> d \<and> d \<le> 2147483"
  then show "delayOfDuration d = d * 1000"
    by (simp add: delayOfDuration_def to_int32_id in_int32_def to_uint64_def)
next
  have "0 \<le> delayOfDuration d" by (simp add: delayOfDuration_def to_uint64_def)
  moreover have "delayOfDuration d \<noteq> d * 1000" if "d > 2147483"
  proof
    let ?x = "to_int32 (d * 1000)"
    assume eq: "delayOfDuration d = d * 1000"
    have x: "in_int32 ?x" by (rule in_int32_to_int32)
    have "0 \<le> ?x"
    proof (rule ccontr)
      assume "\<not> 0 \<le> ?x"
      then have "(?x + 2 ^ 64) mod 2 ^ 64 = ?x + 2 ^ 64"
        using x by (intro mod_pos_pos_trivial) (simp_all add: in_int32_def)
      then have "delayOfDuration d = ?x + 2 ^ 64" by (simp add: delayOfDuration_def to_uint64_def)
      then show False using eq x assms by (simp add: in_int32_def)
    qed
    then have "?x = d * 1000"
      using eq x by (simp add: delayOfDuration_def to_uint64_def in_int32_def)
    then show False using x that by (simp add: in_int32_def)
  qed
  ultimately show "0 \<le> d \<and> d \<le> 2147483" if "delayOfDuration d = d * 1000"
    using that by force
qed

subsection \<open>Packs and their removals\<close>

definition postedTasks :: "'a SocPerfThreadWrap_scheme \<Rightarrow> (int \<times> Task) list" where
  "postedTasks s = map (\<lambda>e. (qe_delay e, qe_task e)) (socperfQueue s)"

lemma postedTasks_submit [simp]: "postedTasks (submit d t s) = postedTasks s @ [(d, t)]"
  by (simp add: postedTasks_def submit_def submit_h_def)

lemma postedTasks_fold_submit:
  "postedTasks (fold (\<lambda>(d, items). submit (f d) (g items)) m s) = postedTasks s @ map (\<lambda>(d, items). (f d, g items)) m"
  by (induction m arbitrary: s) auto

definition removals :: "ResActionItem list \<Rightarrow> int list \<Rightarrow> (int \<times> Task) list" where
  "removals items ds = map (\<lambda>d. (delayOfDuration d, TaskPostDelay (withDuration d items))) ds"

lemma PostDelayTask_posts:
  obtains ds where "distinct ds" and "set ds = (\<lambda>it. ra_duration (it_resAction it)) ` set items - {0}"
    and "postedTasks (PostDelayTask items s) = postedTasks s @ removals items ds"
proof (rule that)
  let ?m = "groupByDuration items []"
  have spec: "distinct (map fst ?m) \<and> map_of ?m d = (if d = 0 \<or> withDuration d items = [] then None else Some (withDuration d items))" for d
    using groupByDuration_spec [of "[]" items d] by simp
  show "distinct (map fst ?m)" using spec [of 0] by simp
  have "d \<in> fst ` set ?m \<longleftrightarrow> map_of ?m d \<noteq> None" for d by (simp add: map_of_eq_None_iff)
  then have "d \<in> fst ` set ?m \<longleftrightarrow> d \<noteq> 0 \<and> withDuration d items \<noteq> []" for d
    unfolding spec [THEN conjunct2] by simp
  then have "fst ` set ?m = {d. d \<noteq> 0 \<and> withDuration d items \<noteq> []}" by blast
  also have "\<dots> = (\<lambda>it. ra_duration (it_resAction it)) ` set items - {0}"
    by (auto simp: withDuration_def filter_empty_conv)
  finally show "set (map fst ?m) = (\<lambda>it. ra_duration (it_resAction it)) ` set items - {0}" by simp
  have "g = withDuration d items" if "(d, g) \<in> set ?m" for d g using groupByDuration_items [OF that] by simp
  then have "map (\<lambda>(d, g). (delayOfDuration d, TaskPostDelay g)) ?m = removals items (map fst ?m)"
    by (auto simp: removals_def)
  then show "postedTasks (PostDelayTask items s) = postedTasks s @ removals items (map fst ?m)"
    by (simp add: PostDelayTask_def postedTasks_fold_submit)
qed

lemma freqAction_queue:
  fixes s :: "'a SocPerf_scheme"
  shows "socperfQueue (snd (freqAction curMs as onOff type ac (items, s))) = socperfQueue s
    \<and> resStatusInfo (snd (freqAction curMs as onOff type ac (items, s))) = resStatusInfo s"
proof -
  have info: "socperfQueue (snd (GetActionsInfo k t)) = socperfQueue t \<and> resStatusInfo (snd (GetActionsInfo k t)) = resStatusInfo t"
    for k and t :: "'a SocPerf_scheme"
    by (simp add: GetActionsInfo_def touchActions_def)
  have "socperfQueue (snd (DoPerfRequestThremalLvl k a ev its e t)) = socperfQueue t
      \<and> resStatusInfo (snd (DoPerfRequestThremalLvl k a ev its e t)) = resStatusInfo t" for k a ev its e and t :: "'a SocPerf_scheme"
    using info [of "ac_thermalCmdId a" t]
    by (auto simp: DoPerfRequestThremalLvl_def Let_def split: prod.split option.split)
  then show ?thesis by (simp add: freqAction_def Let_def)
qed

lemma freqActions_keep:
  "socperfQueue (snd (fold (freqAction curMs as onOff type) acs (items, s))) = socperfQueue s
   \<and> resStatusInfo (snd (fold (freqAction curMs as onOff type) acs (items, s))) = resStatusInfo s"
proof (induction acs arbitrary: items s)
  case (Cons ac acs)
  then show ?case using freqAction_queue [of curMs as onOff type ac items s]
    by (cases "freqAction curMs as onOff type ac (items, s)") simp
qed simp

lemmas freqActions_queue = freqActions_keep [THEN conjunct1]

text \<open>A request posts one pack, and one removal for every duration of its actions.\<close>

theorem DoFreqActions_posts:
  assumes "actions = Some as"
  shows "okE (\<lambda>s'. \<exists>items ds. distinct ds \<and> set ds = (\<lambda>it. ra_duration (it_resAction it)) ` set items - {0}
     \<and> postedTasks s' = postedTasks s @ (if items = [] then [] else [(0, TaskDoFreqActionPack items)])
          @ removals items ds) (DoFreqActions curMs actions onOff type s)"
proof -
  obtain items t where run: "fold (freqAction curMs as onOff type) (as_actionList as) ([], s) = (items, t)" by fastforce
  have "postedTasks t = postedTasks s"
    using freqActions_queue [of curMs as onOff type "as_actionList as" "[]" s] by (simp add: run postedTasks_def)
  then have pack: "postedTasks (DoFreqActionPack items t)
      = postedTasks s @ (if items = [] then [] else [(0, TaskDoFreqActionPack items)])"
    by (simp add: DoFreqActionPack_def)
  obtain ds where "distinct ds" "set ds = (\<lambda>it. ra_duration (it_resAction it)) ` set items - {0}"
      "postedTasks (PostDelayTask items (DoFreqActionPack items t)) = postedTasks (DoFreqActionPack items t) @ removals items ds"
    by (rule PostDelayTask_posts)
  then show ?thesis
    unfolding DoFreqActions_def assms by (auto simp: derefE_def run pack)
qed

subsection \<open>What a removal leaves\<close>

definition liveRefs :: "int \<Rightarrow> int \<Rightarrow> 'a SocPerfThreadWrap_scheme \<Rightarrow> nat list" where
  "liveRefs k t s = (case stm s k of None \<Rightarrow> [] | Some st \<Rightarrow> map ra_ref (rs_resActionList st ! nat t))"

definition refsDistinct :: "'a SocPerfThreadWrap_scheme \<Rightarrow> bool" where
  "refsDistinct s \<longleftrightarrow> (\<forall>k t. 0 \<le> t \<and> t < ACTION_TYPE_MAX \<longrightarrow> distinct (liveRefs k t s))"

definition removed :: "'a SocPerfThreadWrap_scheme \<Rightarrow> ResActionItem \<Rightarrow> bool" where
  "removed s it \<longleftrightarrow> ra_ref (it_resAction it) \<notin> set (liveRefs (it_resId it) (ra_type (it_resAction it)) s)"

text \<open>The live actions of a type, and what an operation on the list of one type does to all of them.\<close>

definition acts :: "int \<Rightarrow> int \<Rightarrow> 'a SocPerfThreadWrap_scheme \<Rightarrow> ResAction list" where
  "acts k t s = (case stm s k of None \<Rightarrow> [] | Some st \<Rightarrow> actionsOf t st)"

lemma liveRefs_acts: "liveRefs k t s = map ra_ref (acts k t s)"
  by (simp add: liveRefs_def acts_def actionsOf_def split: option.split)

lemma acts_kept:
  "map_option kept (stm s' k) = map_option kept (stm s k) \<Longrightarrow> acts k t s' = acts k t s"
  by (cases "stm s' k"; cases "stm s k") (simp_all add: acts_def kept_def actionsOf_def)

lemma acts_effect:
  assumes eff: "actionEffect k d a s s'" and wf: "wf_wrap s" and a: "0 \<le> ra_type a" "ra_type a < ACTION_TYPE_MAX"
    and t: "0 \<le> t" "t < ACTION_TYPE_MAX"
  shows "acts j t s' = (if j = k \<and> t = ra_type a then actionsAfter d a (acts j t s) else acts j t s)"
proof (cases "j = k")
  case True
  obtain st where st: "stm s k = Some st" and all: "\<forall>j. map_option kept (stm s' j) =
      (if j = k then Some (kept (setActionList (ra_type a) (actionsAfter d a (actionsOf (ra_type a) st)) st))
       else map_option kept (stm s j))"
    using eff unfolding actionEffect_def by blast
  note eq = trans [OF spec [OF all, of k] if_P [OF refl]]
  have len: "nat (ra_type a) < length (rs_resActionList st)"
    using wf_wrap_resIds [OF wf st] a by (simp add: wf_status_def)
  have same: "nat t = nat (ra_type a) \<longleftrightarrow> t = ra_type a" using a t by auto
  have "acts k t s' = (rs_resActionList st)[nat (ra_type a) := actionsAfter d a (actionsOf (ra_type a) st)] ! nat t"
    using eq by (cases "stm s' k") (simp_all add: acts_def kept_def setActionList_def actionsOf_def)
  then show ?thesis
    using len same True by (cases "t = ra_type a") (simp_all add: acts_def st actionsOf_def)
next
  case False
  with eff have "map_option kept (stm s' j) = map_option kept (stm s j)" by (auto simp: actionEffect_def)
  from acts_kept [OF this] False show ?thesis by simp
qed

lemma map_eraseFirst_ref: "map ra_ref (eraseFirst (sameRef a) as) = remove1 (ra_ref a) (map ra_ref as)"
  by (induction as) (auto simp: sameRef_def)

lemma delayed_liveRefs:
  assumes eff: "actionEffect k True a s s'" and wf: "wf_wrap s" and a: "0 \<le> ra_type a" "ra_type a < ACTION_TYPE_MAX"
    and t: "0 \<le> t" "t < ACTION_TYPE_MAX"
  shows "liveRefs j t s' = (if j = k \<and> t = ra_type a then remove1 (ra_ref a) (liveRefs j t s) else liveRefs j t s)"
  by (simp add: liveRefs_acts acts_effect [OF assms] actionsAfter_def map_eraseFirst_ref)

lemma removals_loop:
  assumes "midInv s" and "\<forall>it\<in>set items. typed_item it \<and> it_resId it \<in> resIds s" and "refsDistinct s"
  shows "okE (\<lambda>s'. midInv s' \<and> (\<forall>it. typed_item it \<and> (removed s it \<or> it \<in> set items) \<longrightarrow> removed s' it))
    (foldE (\<lambda>it. UpdateResActionList (it_resId it) (it_resAction it) True) items s)"
  using assms
proof (induction items arbitrary: s)
  case (Cons it items)
  let ?k = "it_resId it" and ?a = "it_resAction it"
  have item: "typed_item it" "?k \<in> resIds s" using Cons.prems(2) by simp_all
  have res: "resInv UNIV s" and wf: "wf_wrap s" using Cons.prems(1) by (simp_all add: midInv_def resInv_def)
  obtain st where st: "stm s ?k = Some st" using wf item(2) by (rule wf_wrap_status)
  have a: "typed_action ?a" "0 \<le> ra_type ?a" "ra_type ?a < ACTION_TYPE_MAX" using item(1) by (simp_all add: typed_item_def)
  obtain u where u: "UpdateResActionList ?k ?a True s = Inr u" "actionEffect ?k True ?a s u" "resInv UNIV u"
    using UpdateResActionList_inv [OF res st a, of True] by (auto simp: okE_iff)
  have mid: "midInv u" and frame: "wrapFrame s u"
    using midInv_step [OF Cons.prems(1) _ actionEffect_samePrev [OF u(2)] u(3)] u(2) by (simp_all add: actionEffect_def)
  note refs = delayed_liveRefs [OF u(2) wf a(2,3)]
  have dist: "refsDistinct u" using Cons.prems(3) by (simp add: refsDistinct_def refs)
  have rem: "removed u x" if "typed_item x" "removed s x \<or> x = it" for x
  proof -
    have t: "0 \<le> ra_type (it_resAction x)" "ra_type (it_resAction x) < ACTION_TYPE_MAX"
      using that(1) by (simp_all add: typed_item_def)
    then have d: "distinct (liveRefs (it_resId x) (ra_type (it_resAction x)) s)" using Cons.prems(3) by (simp add: refsDistinct_def)
    from that(2) show ?thesis
    proof
      assume "removed s x"
      moreover have "set (liveRefs (it_resId x) (ra_type (it_resAction x)) u)
          \<subseteq> set (liveRefs (it_resId x) (ra_type (it_resAction x)) s)"
        unfolding refs [OF t] by (simp add: set_remove1_subset)
      ultimately show ?thesis unfolding removed_def by (rule contra_subsetD [rotated])
    next
      assume x: "x = it"
      show ?thesis using d unfolding removed_def refs [OF t] unfolding x by simp
    qed
  qed
  have "\<forall>x\<in>set items. typed_item x \<and> it_resId x \<in> resIds u" using Cons.prems(2) wrapFrame_frame(1) [OF frame] by simp
  from Cons.IH [OF mid this dist] show ?case
    unfolding foldE.simps u(1) bindE_simps
  proof (rule okE_mono, elim conjE, intro conjI)
    fix s'
    assume s': "\<forall>x. typed_item x \<and> (removed u x \<or> x \<in> set items) \<longrightarrow> removed s' x"
    show "\<forall>x. typed_item x \<and> (removed s x \<or> x \<in> set (it # items)) \<longrightarrow> removed s' x"
      using s' rem by (metis set_ConsD)
  qed
qed simp

text \<open>After a delayed removal has run, none of its actions is alive.\<close>

theorem postDelayTaskFunc_removes:
  assumes inv: "midInv s" and items: "\<forall>it\<in>set items. typed_item it \<and> it_resId it \<in> resIds s" and dist: "refsDistinct s"
  shows "okE (\<lambda>s'. wrapInv s' \<and> (\<forall>it\<in>set items. removed s' it)) (postDelayTaskFunc items s)"
  unfolding postDelayTaskFunc_def
proof (rule okE_bind [OF removals_loop [OF assms]], elim conjE)
  fix t :: "'a SocPerfThreadWrap_scheme"
  assume t: "midInv t" "\<forall>it. typed_item it \<and> (removed s it \<or> it \<in> set items) \<longrightarrow> removed t it"
  have sync: "rs_resActionList (sync st) = rs_resActionList st" for st by (simp add: sync_def)
  show "okE (\<lambda>s'. wrapInv s' \<and> (\<forall>it\<in>set items. removed s' it)) (SendResStatus t)"
  proof (rule okE_mono [OF SendResStatus_inv [OF t(1)]], elim conjE)
    fix u :: "'a SocPerfThreadWrap_scheme"
    assume u: "wrapInv u" "sendEffect t u"
    have "liveRefs k y u = liveRefs k y t" for k y
      using u(2) by (simp add: sendEffect_def liveRefs_def sync split: option.split)
    then show "wrapInv u \<and> (\<forall>it\<in>set items. removed u it)"
      using u(1) t(2) items by (simp add: removed_def)
  qed
qed

subsection \<open>What the hardware was asked for\<close>

lemma candidateSpec_value:
  assumes "as \<noteq> []"
  shows "\<exists>a\<in>set as. fst (candidateSpec type as) = ra_value a"
    and "isPerfFirstType type \<Longrightarrow> a \<in> set as \<Longrightarrow> ra_value a \<le> fst (candidateSpec type as)"
    and "\<not> isPerfFirstType type \<Longrightarrow> a \<in> set as \<Longrightarrow> fst (candidateSpec type as) \<le> ra_value a"
proof -
  have "bestValue type as \<in> ra_value ` set as" using assms by (simp add: bestValue_def Max_in Min_in)
  then show "\<exists>a\<in>set as. fst (candidateSpec type as) = ra_value a" using assms by (auto simp: candidateSpec_def)
qed (use assms in \<open>auto simp: candidateSpec_def bestValue_def\<close>)

lemma limitCaseValue_asked:
  fixes v0 v1 v2 :: int
  assumes "v0 \<noteq> INVALID_VALUE \<or> v1 \<noteq> INVALID_VALUE \<or> v2 \<noteq> INVALID_VALUE"
    and "v0 \<ge> INVALID_VALUE" and "v1 \<ge> INVALID_VALUE" and "v2 \<ge> INVALID_VALUE"
  shows "limitCaseValue p t v0 v1 v2 \<noteq> INVALID_VALUE"
  using assms unfolding limitCaseValue_def Max64_3_def Max64_max Min64_min by auto

text \<open>The value in force for a resource without a pair and without a thermal level, from its live actions.\<close>

definition asked :: "int \<Rightarrow> 'a SocPerfThreadWrap_scheme \<Rightarrow> int set" where
  "asked k s = (\<Union>t\<in>{0..<4}. ra_value ` set (acts k t s))"

theorem sent_honours:
  assumes inv: "wrapInv s" and sym: "sym_pairs s" and st: "stm s k = Some st" and "pairOf k s = None"
    and "sendable s k" and lvl: "acts k ACTION_TYPE_PERFLVL s = []" and valid: "\<forall>v\<in>asked k s. INVALID_VALUE < v"
  shows "\<exists>v. lastSent (reports s) k = Some v
    \<and> (powerLimitBoost s \<longrightarrow> (\<forall>a\<in>set (acts k ACTION_TYPE_POWER s). v \<le> ra_value a))
    \<and> (thermalLimitBoost s \<longrightarrow> (\<forall>a\<in>set (acts k ACTION_TYPE_THERMAL s). v \<le> ra_value a))
    \<and> (\<not> powerLimitBoost s \<and> \<not> thermalLimitBoost s \<longrightarrow> (\<forall>a\<in>set (acts k ACTION_TYPE_PERF s). ra_value a \<le> v))
    \<and> (if asked k s = {} then v = NODE_DEFAULT_VALUE else v \<in> asked k s)"
proof -
  let ?p = "powerLimitBoost s" and ?t = "thermalLimitBoost s"
  let ?w = "\<lambda>t. candVal t st" and ?A = "\<lambda>t. acts k t s"
  have A: "?A t = actionsOf t st" for t by (simp add: acts_def st)
  have w: "?w t = fst (candidateSpec t (?A t))" if "t \<in> {0..<4}" for t
    using wrapInv_candidates [OF inv st] that by (simp add: A)
  have none: "?w t = INVALID_VALUE" if "t \<in> {0..<4}" "?A t = []" for t
    using w [OF that(1)] that(2) by (simp add: candidateSpec_def)
  have some: "?w t \<in> asked k s" "INVALID_VALUE < ?w t" if "t \<in> {0..<4}" "?A t \<noteq> []" for t
  proof -
    show "?w t \<in> asked k s" using candidateSpec_value(1) [OF that(2), of t] w [OF that(1)] that(1) by (auto simp: asked_def)
    then show "INVALID_VALUE < ?w t" using valid by blast
  qed
  have ge: "INVALID_VALUE \<le> ?w t" if "t \<in> {0..<4}" for t using none some(2) that by (cases "?A t = []") force+
  let ?c = "limitCaseValue ?p ?t (?w 0) (?w 1) (?w 2)"
  obtain v where v: "lastSent (reports s) k = Some v" "v = (if noCandidate st then NODE_DEFAULT_VALUE else ?c)"
    using wrapInv_unpaired_sent [OF assms(1-5)] none [OF _ lvl] by (auto simp: candidateOf_def Let_def)
  note bounds = limitCaseValue_bounds [where p = ?p and t = ?t and perf = "?w 0" and power = "?w 1" and thermal = "?w 2"]
  have dom: "{0..<4} = {0, 1, 2, 3 :: int}" by auto
  have asking: "v = ?c" "v \<in> asked k s" if "t \<in> {0..<4}" "?A t \<noteq> []" for t
  proof -
    have "?w t \<noteq> INVALID_VALUE" "t \<in> {0, 1, 2}" using some(2) [OF that] that lvl by (auto simp: dom)
    then have valid: "?w 0 \<noteq> INVALID_VALUE \<or> ?w 1 \<noteq> INVALID_VALUE \<or> ?w 2 \<noteq> INVALID_VALUE" by auto
    then have "\<not> noCandidate st" by (auto simp: noCandidate_def)
    then show v': "v = ?c" using v(2) by simp
    have "?c \<noteq> INVALID_VALUE" using valid ge by (intro limitCaseValue_asked) simp_all
    with bounds(4) obtain u where "u \<in> {0, 1, 2}" "v = ?w u" "?w u \<noteq> INVALID_VALUE" unfolding v' by auto
    with none [of u] some(1) [of u] show "v \<in> asked k s" by (cases "?A u = []") auto
  qed
  have power: "v \<le> ra_value a" if "?p" "a \<in> set (?A ACTION_TYPE_POWER)" for a
  proof -
    have ne: "?A ACTION_TYPE_POWER \<noteq> []" using that(2) by auto
    then have "v \<le> ?w 1" using asking(1) [of 1] some(2) [of 1] bounds(1) that(1) by (simp add: bounded_by_def)
    also have "?w 1 \<le> ra_value a" using candidateSpec_value(3) [OF ne _ that(2), of 1] w [of 1] by (simp add: isPerfFirstType_def)
    finally show ?thesis .
  qed
  have thermal: "v \<le> ra_value a" if "?t" "a \<in> set (?A ACTION_TYPE_THERMAL)" for a
  proof -
    have ne: "?A ACTION_TYPE_THERMAL \<noteq> []" using that(2) by auto
    then have "v \<le> ?w 2" using asking(1) [of 2] some(2) [of 2] bounds(2) that(1) by (simp add: bounded_by_def)
    also have "?w 2 \<le> ra_value a" using candidateSpec_value(3) [OF ne _ that(2), of 2] w [of 2] by (simp add: isPerfFirstType_def)
    finally show ?thesis .
  qed
  have perf: "ra_value a \<le> v" if "\<not> ?p" "\<not> ?t" "a \<in> set (?A ACTION_TYPE_PERF)" for a
  proof -
    have ne: "?A ACTION_TYPE_PERF \<noteq> []" using that(3) by auto
    have "ra_value a \<le> ?w 0" using candidateSpec_value(2) [OF ne _ that(3), of 0] w [of 0] by (simp add: isPerfFirstType_def)
    also have "?w 0 \<le> v" using asking(1) [OF _ ne] some(2) [OF _ ne] bounds(3) that(1,2) by simp
    finally show ?thesis .
  qed
  have "if asked k s = {} then v = NODE_DEFAULT_VALUE else v \<in> asked k s"
  proof (cases "asked k s = {}")
    case True
    then have "?A t = []" if "t \<in> {0..<4}" for t using that by (auto simp: asked_def)
    then have "noCandidate st" using none by (simp add: noCandidate_def)
    then show ?thesis using v(2) True by simp
  next
    case False
    then obtain t where "t \<in> {0..<4}" "?A t \<noteq> []" by (auto simp: asked_def)
    then show ?thesis using asking(2) False by simp
  qed
  with v(1) power thermal perf show ?thesis by blast
qed

end
