(* ===== verification/PackSpecs.thy ===== *)
theory PackSpecs
  imports PolicySpecs
begin

text \<open>
  Which items a request posts. The reference \<open>wantedItems\<close> computes them from the command and the
  tables alone: for every action, one item for each pair of a configured resource and a value, and,
  while the thermal level asks for it, the items of the action of the nearest level. Items are compared
  without the identity of the objects (\<open>anon\<close>).
\<close>

definition anon :: "ResActionItem \<Rightarrow> ResActionItem" where
  "anon it = it\<lparr>it_resAction := (it_resAction it)\<lparr>ra_ref := 0\<rparr>\<rparr>"

text \<open>The items that ask for the pairs \<open>ps\<close>: pairs of unknown resources are left out.\<close>

definition asking ::
  "'a SocPerfConfig_scheme \<Rightarrow> int \<Rightarrow> int \<Rightarrow> EventType \<Rightarrow> int \<Rightarrow> int \<Rightarrow> bool \<Rightarrow> (int \<times> int) list \<Rightarrow> ResActionItem list" where
  "asking s duration type onOff cmdId endTime counted ps =
     map (\<lambda>(r, v). \<lparr>it_resId = to_int32 r, it_resAction = \<lparr>ra_ref = 0, ra_value = v, ra_duration = duration,
         ra_type = type, ra_onOff = onOff, ra_cmdId = cmdId, ra_endTime = endTime, ra_interaction = counted\<rparr>\<rparr>)
       (filter (\<lambda>(r, v). to_int32 r \<in> resIds s) ps)"

definition endOfAction :: "int \<Rightarrow> Action \<Rightarrow> int" where
  "endOfAction curMs ac = (if ac_duration ac = 0 then MAX_INT_VALUE else to_int64 (curMs + ac_duration ac))"

definition boostItems :: "'a SocPerf_scheme \<Rightarrow> int \<Rightarrow> Actions \<Rightarrow> EventType \<Rightarrow> int \<Rightarrow> Action \<Rightarrow> ResActionItem list" where
  "boostItems s curMs as onOff type ac =
     asking s (ac_duration ac) type onOff (as_id as) (endOfAction curMs ac) (as_interaction as \<and> type = ACTION_TYPE_PERF)
       (varPairs (ac_variable ac))"

definition levelItems :: "'a SocPerf_scheme \<Rightarrow> int \<Rightarrow> Actions \<Rightarrow> EventType \<Rightarrow> Action \<Rightarrow> ResActionItem list" where
  "levelItems s curMs as onOff ac =
     (case fst (GetActionsInfo (ac_thermalCmdId ac) s) of None \<Rightarrow> []
      | Some config \<Rightarrow> (case nearestAction (thermalLvl s) (as_actionList config) None of None \<Rightarrow> []
          | Some a \<Rightarrow> asking s (ac_duration ac) ACTION_TYPE_PERFLVL onOff (as_id as) (endOfAction curMs ac) False
              (varPairs (ac_variable a))))"

text \<open>\<open>pre\<close>: the items of the actions before; a thermal level adds nothing to an empty chain.\<close>

fun wantedItems ::
  "'a SocPerf_scheme \<Rightarrow> int \<Rightarrow> Actions \<Rightarrow> EventType \<Rightarrow> int \<Rightarrow> Action list \<Rightarrow> ResActionItem list \<Rightarrow> ResActionItem list" where
  "wantedItems s curMs as onOff type [] pre = pre"
| "wantedItems s curMs as onOff type (ac # acs) pre =
     wantedItems s curMs as onOff type acs
       (if ac_duration ac = 0 \<and> onOff = EVENT_INVALID then pre
        else let own = pre @ boostItems s curMs as onOff type ac in
          if ac_thermalCmdId ac \<noteq> INVALID_THERMAL_CMD_ID \<and> minThermalLvl s \<le> thermalLvl s \<and> own \<noteq> []
          then own @ levelItems s curMs as onOff ac else own)"

lemma anon_build:
  "map anon (buildItems s d type onOff cmd e interact ref ps) =
     asking s d type onOff cmd e (interact \<and> type = ACTION_TYPE_PERF) ps"
  by (induction s d type onOff cmd e interact ref ps rule: buildItems.induct)
     (auto simp: asking_def anon_def new_ResAction_def Let_def)

text \<open>What the items depend on, and that building them leaves it alone.\<close>

definition sameTables :: "'a SocPerf_scheme \<Rightarrow> 'a SocPerf_scheme \<Rightarrow> bool" where
  "sameTables s t \<longleftrightarrow> resIds t = resIds s \<and> thermalLvl t = thermalLvl s \<and> minThermalLvl t = minThermalLvl s
     \<and> (\<forall>k. fst (GetActionsInfo k t) = fst (GetActionsInfo k s))"

lemma sameTables_refl: "sameTables s s"
  by (simp add: sameTables_def)

lemma sameTables_trans: "sameTables s t \<Longrightarrow> sameTables t u \<Longrightarrow> sameTables s u"
  by (simp add: sameTables_def)

lemma modeActions_touchActions:
  "map_of (modeActions m (touchActions d j s)) k =
     (if m = d \<and> k = j \<and> map_of (modeActions m s) k = None then Some None else map_of (modeActions m s) k)"
  by (auto simp: touchActions_def modeActions_def update_conv' map_of_touch split: option.splits)

lemma sameTables_lookup: "sameTables s (snd (GetActionsInfo j s))"
proof -
  have "GetDeviceMode (touchActions d j s) = GetDeviceMode s" for d
    by (simp add: GetDeviceMode_def touchActions_def)
  then have "fst (GetActionsInfo k (touchActions DEFAULT_CONFIG_MODE j s)) = fst (GetActionsInfo k s)" for k
    by (auto simp: GetActionsInfo_def actionsAt_def ptrAt_def modeActions_touchActions split: option.splits)
  moreover have "resIds (touchActions d j s) = resIds s" "thermalLvl (touchActions d j s) = thermalLvl s"
      "minThermalLvl (touchActions d j s) = minThermalLvl s" for d
    by (simp_all add: touchActions_def)
  ultimately have "sameTables s (touchActions DEFAULT_CONFIG_MODE j s)" unfolding sameTables_def by blast
  moreover have "snd (GetActionsInfo j s) = s \<or> snd (GetActionsInfo j s) = touchActions DEFAULT_CONFIG_MODE j s"
    by (simp add: GetActionsInfo_def)
  ultimately show ?thesis using sameTables_refl by metis
qed

lemma sameTables_next: "sameTables s t \<Longrightarrow> sameTables s (t\<lparr>nextRef := n\<rparr>)"
proof -
  have "fst (GetActionsInfo k (t\<lparr>nextRef := n\<rparr>)) = fst (GetActionsInfo k t)" for k
    by (simp add: GetActionsInfo_def GetDeviceMode_def modeActions_def actionsAt_def)
  then show "sameTables s t \<Longrightarrow> sameTables s (t\<lparr>nextRef := n\<rparr>)" by (simp add: sameTables_def)
qed

lemma asking_same: "sameTables s t \<Longrightarrow> asking t d type onOff cmd e c ps = asking s d type onOff cmd e c ps"
  by (simp add: asking_def sameTables_def)

lemma thermal_wanted:
  assumes "sameTables s t"
  shows "case DoPerfRequestThremalLvl (as_id as) ac onOff items (endOfAction curMs ac) t of (items', u) \<Rightarrow>
     sameTables s u \<and> map anon items' = map anon items @ (if items = [] then [] else levelItems s curMs as onOff ac)"
proof (cases "items = []")
  case True
  then show ?thesis using assms by (simp add: DoPerfRequestThremalLvl_def)
next
  case False
  obtain a u where u: "GetActionsInfo (ac_thermalCmdId ac) t = (a, u)" by fastforce
  have "sameTables t u" using sameTables_lookup [of t "ac_thermalCmdId ac"] by (simp add: u)
  with assms have su: "sameTables s u" by (rule sameTables_trans)
  have "a = fst (GetActionsInfo (ac_thermalCmdId ac) t)" by (simp add: u)
  also have "\<dots> = fst (GetActionsInfo (ac_thermalCmdId ac) s)" using assms by (simp add: sameTables_def)
  finally have a: "fst (GetActionsInfo (ac_thermalCmdId ac) s) = a" ..
  have lvl: "thermalLvl u = thermalLvl s" using su by (simp add: sameTables_def)
  show ?thesis
    using False su sameTables_next [OF su]
    by (auto simp: DoPerfRequestThremalLvl_def levelItems_def a u lvl Let_def anon_build asking_same [OF su] split: option.split)
qed

lemma freqAction_wanted:
  assumes "sameTables s t"
  shows "case freqAction curMs as onOff type ac (items, t) of (items', u) \<Rightarrow>
     sameTables s u \<and> wantedItems s curMs as onOff type acs (map anon items')
       = wantedItems s curMs as onOff type (ac # acs) (map anon items)"
proof (cases "ac_duration ac = 0 \<and> onOff = EVENT_INVALID")
  case True
  then show ?thesis using assms by (simp add: freqAction_def)
next
  case False
  let ?new = "buildItems t (ac_duration ac) type onOff (as_id as) (endOfAction curMs ac) (as_interaction as)
    (nextRef t) (varPairs (ac_variable ac))"
  let ?u = "t\<lparr>nextRef := nextRef t + length ?new\<rparr>"
  have u: "sameTables s ?u" using assms by (rule sameTables_next)
  have lvls: "thermalLvl t = thermalLvl s" "minThermalLvl t = minThermalLvl s" using assms by (simp_all add: sameTables_def)
  have own: "map anon (items @ ?new) = map anon items @ boostItems s curMs as onOff type ac"
    by (simp add: anon_build boostItems_def asking_same [OF assms])
  then have ne: "items @ ?new = [] \<longleftrightarrow> map anon items @ boostItems s curMs as onOff type ac = []" by (metis map_is_Nil_conv)
  have eq: "freqAction curMs as onOff type ac (items, t) =
     (if ac_thermalCmdId ac \<noteq> INVALID_THERMAL_CMD_ID \<and> minThermalLvl s \<le> thermalLvl s
      then DoPerfRequestThremalLvl (as_id as) ac onOff (items @ ?new) (endOfAction curMs ac) ?u else (items @ ?new, ?u))"
    using False by (auto simp: freqAction_def Let_def endOfAction_def lvls)
  show ?thesis
  proof (cases "ac_thermalCmdId ac \<noteq> INVALID_THERMAL_CMD_ID \<and> minThermalLvl s \<le> thermalLvl s")
    case True
    obtain items' v where v: "DoPerfRequestThremalLvl (as_id as) ac onOff (items @ ?new) (endOfAction curMs ac) ?u = (items', v)"
      by fastforce
    note tw = thermal_wanted [OF u, where as = as and ac = ac and onOff = onOff and items = "items @ ?new" and curMs = curMs,
        unfolded v prod.case, unfolded own ne]
    have "sameTables s v" using tw by (rule conjunct1)
    moreover have "map anon items' = (map anon items @ boostItems s curMs as onOff type ac)
        @ (if map anon items @ boostItems s curMs as onOff type ac = [] then [] else levelItems s curMs as onOff ac)"
      using tw by (rule conjunct2)
    ultimately show ?thesis unfolding eq if_P [OF True] v wantedItems.simps if_not_P [OF False] Let_def prod.case
      using True by (cases "map anon items @ boostItems s curMs as onOff type ac = []") (simp_all only: if_P if_not_P simp_thms append_Nil2 append_assoc if_True if_False)
  next
    case nothermal: False
    show ?thesis unfolding eq if_not_P [OF nothermal] prod.case own wantedItems.simps if_not_P [OF False] Let_def
      using u nothermal by auto
  qed
qed

lemma freqActions_wanted:
  "sameTables s t \<Longrightarrow> map anon (fst (fold (freqAction curMs as onOff type) acs (items, t)))
     = wantedItems s curMs as onOff type acs (map anon items)"
proof (induction acs arbitrary: items t)
  case (Cons ac acs)
  obtain items' u where u: "freqAction curMs as onOff type ac (items, t) = (items', u)" by fastforce
  have "sameTables s u" "wantedItems s curMs as onOff type acs (map anon items')
      = wantedItems s curMs as onOff type (ac # acs) (map anon items)"
    using freqAction_wanted [OF Cons.prems, where curMs = curMs and as = as and onOff = onOff and type = type and ac = ac
        and items = items and acs = acs] by (simp_all add: u)
  then show ?case using Cons.IH [of u items'] by (simp only: fold_simps u)
qed simp

text \<open>A request posts the items its command asks for as one pack, and one removal for every duration among them.\<close>

theorem DoFreqActions_wanted:
  assumes "actions = Some as"
  shows "okE (\<lambda>s'. \<exists>items ds. map anon items = wantedItems s curMs as onOff type (as_actionList as) []
     \<and> distinct ds \<and> set ds = (\<lambda>it. ra_duration (it_resAction it)) ` set items - {0}
     \<and> postedTasks s' = postedTasks s @ (if items = [] then [] else [(0, TaskDoFreqActionPack items)])
          @ removals items ds) (DoFreqActions curMs actions onOff type s)"
proof -
  obtain items t where run: "fold (freqAction curMs as onOff type) (as_actionList as) ([], s) = (items, t)" by fastforce
  let ?s = "PostDelayTask items (DoFreqActionPack items t)"
  have items: "map anon items = wantedItems s curMs as onOff type (as_actionList as) []"
    using freqActions_wanted [OF sameTables_refl [of s], of curMs as onOff type "as_actionList as" "[]"]
    unfolding run fst_conv list.map .
  have "postedTasks t = postedTasks s"
    using freqActions_queue [of curMs as onOff type "as_actionList as" "[]" s] by (simp add: run postedTasks_def)
  then have pack: "postedTasks (DoFreqActionPack items t)
      = postedTasks s @ (if items = [] then [] else [(0, TaskDoFreqActionPack items)])"
    by (simp add: DoFreqActionPack_def)
  obtain ds where ds: "distinct ds" "set ds = (\<lambda>it. ra_duration (it_resAction it)) ` set items - {0}"
      "postedTasks ?s = postedTasks (DoFreqActionPack items t) @ removals items ds"
    by (rule PostDelayTask_posts)
  have "DoFreqActions curMs actions onOff type s = Inr ?s"
    by (simp add: DoFreqActions_def assms derefE_def run)
  moreover have "postedTasks ?s = postedTasks s @ (if items = [] then [] else [(0, TaskDoFreqActionPack items)])
      @ removals items ds"
    using ds(3) pack by simp
  ultimately show ?thesis using items ds(1,2) unfolding okE_iff by blast
qed

end
