(* ===== verification/SentPolicy.thy ===== *)
theory SentPolicy
  imports Service PolicySpecs
begin

text \<open>
  The value the hardware has, for the running service, in terms of a policy written without the code's
  case distinction on the two limits: \<open>limitPolicy\<close>.
\<close>

text \<open>
  The value for a boost, a power and a thermal request, each \<open>INVALID_VALUE\<close> when there is none: the
  smallest of the limits that are in force; without one the largest request; and when there is no
  boost and no limit is switched on, the smaller of the power and thermal requests.
\<close>

definition limitPolicy :: "bool \<Rightarrow> bool \<Rightarrow> int \<Rightarrow> int \<Rightarrow> int \<Rightarrow> int" where
  "limitPolicy powerLimit thermalLimit v0 v1 v2 =
     (let limits = {v1, v2} - {INVALID_VALUE};
          binding = (if powerLimit then {v1} else {}) \<union> (if thermalLimit then {v2} else {}) - {INVALID_VALUE} in
      if binding \<noteq> {} then Min binding
      else if v0 = INVALID_VALUE \<and> \<not> powerLimit \<and> \<not> thermalLimit \<and> limits \<noteq> {} then Min limits
      else Max {v0, v1, v2})"

lemma limitCaseValue_policy:
  fixes v0 v1 v2 :: int
  assumes "INVALID_VALUE \<le> v0" and "INVALID_VALUE \<le> v1" and "INVALID_VALUE \<le> v2"
  shows "limitCaseValue p t v0 v1 v2 = limitPolicy p t v0 v1 v2"
proof -
  have two: "{a, b} - {i} = (if a = i then {b} - {i} else if b = i then {a} else {a, b})" for a b i :: int by auto
  have one: "{a} - {i} = (if a = i then {} else {a})" for a i :: int by auto
  show ?thesis
    using assms
    by (cases p; cases t; cases "v0 = INVALID_VALUE"; cases "v1 = INVALID_VALUE"; cases "v2 = INVALID_VALUE")
      (simp_all add: limitCaseValue_def limitPolicy_def Let_def two one max.assoc)
qed

text \<open>The candidate with a thermal-level request taken into account.\<close>

definition candidatePolicy :: "bool \<Rightarrow> bool \<Rightarrow> int \<Rightarrow> (int \<Rightarrow> int) \<Rightarrow> int" where
  "candidatePolicy powerLimit thermalLimit lvl v =
     (let c = limitPolicy powerLimit thermalLimit (v ACTION_TYPE_PERF) (v ACTION_TYPE_POWER) (v ACTION_TYPE_THERMAL);
          p = v ACTION_TYPE_PERFLVL in
      if \<forall>t\<in>{0..<4}. v t = INVALID_VALUE then NODE_DEFAULT_VALUE
      else if p = INVALID_VALUE then c
      else if lvl = 0 \<and> c \<noteq> INVALID_VALUE then min c p
      else p)"

text \<open>What the live actions of a type ask for.\<close>

definition wanted :: "int \<Rightarrow> 'a SocPerfThreadWrap_scheme \<Rightarrow> int \<Rightarrow> int" where
  "wanted k s t = (if acts k t s = [] then INVALID_VALUE
     else if t = ACTION_TYPE_PERF \<or> t = ACTION_TYPE_PERFLVL then Max (ra_value ` set (acts k t s))
     else Min (ra_value ` set (acts k t s)))"

lemma four_types: "{0..<4} = {0, 1, 2, 3 :: int}"
  by auto

lemma wrapInv_wanted:
  assumes inv: "wrapInv s" and st: "stm s k = Some st" and t: "t \<in> {0..<4}"
  shows "candVal t st = wanted k s t"
proof -
  have "acts k t s = actionsOf t st" using st by (simp add: acts_def)
  then show ?thesis
    using wrapInv_candidates [OF inv st] t
    by (auto simp: wanted_def candidateSpec_def bestValue_def isPerfFirstType_def)
qed

lemma wanted_valid:
  assumes "\<forall>v\<in>asked k s. INVALID_VALUE < v" and "t \<in> {0..<4}"
  shows "INVALID_VALUE \<le> wanted k s t"
proof (cases "acts k t s = []")
  case False
  then have "wanted k s t \<in> ra_value ` set (acts k t s)" by (simp add: wanted_def Max_in Min_in)
  then have "wanted k s t \<in> asked k s" using assms(2) by (auto simp: asked_def)
  then show ?thesis using assms(1) by (simp add: less_imp_le)
qed (simp add: wanted_def)

lemma candidateOf_policy:
  assumes "\<forall>t\<in>{0..<4}. candVal t st = v t" and "\<forall>t\<in>{0..<4}. INVALID_VALUE \<le> v t"
  shows "candidateOf p t lvl st = candidatePolicy p t lvl v"
proof -
  have v: "candVal 0 st = v 0" "candVal 1 st = v 1" "candVal 2 st = v 2" "candVal 3 st = v 3"
    and ge: "INVALID_VALUE \<le> v 0" "INVALID_VALUE \<le> v 1" "INVALID_VALUE \<le> v 2"
    using assms by (simp_all add: four_types)
  have "noCandidate st \<longleftrightarrow> (\<forall>t\<in>{0..<4}. v t = INVALID_VALUE)"
    by (simp add: noCandidate_def v four_types conj_ac)
  then show ?thesis
    using limitCaseValue_policy [OF ge, of p t]
    by (simp add: candidateOf_def candidatePolicy_def v Let_def)
qed

lemma paired_status:
  assumes "wrapInv s" and "pairOf k s = Some p"
  shows "\<exists>pst. stm s p = Some pst"
  using wrapInvD(1) [OF assms(1)] pairOf_resIds [OF _ assms(2)] by (auto simp: resInv_def wf_wrap_def)

theorem wrapInv_sent_policy:
  assumes inv: "wrapInv s" and sym: "sym_pairs s" and st: "stm s k = Some st" and send: "sendable s k"
  shows "lastSent (reports s) k = Some (rs_currentValue st)"
    and "\<exists>lvl. rs_candidate st = candidateOf (powerLimitBoost s) (thermalLimitBoost s) lvl st
          \<and> ((\<forall>v\<in>asked k s. INVALID_VALUE < v) \<longrightarrow>
              rs_candidate st = candidatePolicy (powerLimitBoost s) (thermalLimitBoost s) lvl (wanted k s))"
    and "case pairOf k s of None \<Rightarrow> rs_currentValue st = rs_candidate st
      | Some p \<Rightarrow> \<exists>pst lim. stm s p = Some pst \<and> (rs_currentValue st, rs_currentValue pst)
          = arbPair (isMaxRes k s) lim (rs_candidate st) (rs_candidate pst)"
proof -
  show "lastSent (reports s) k = Some (rs_currentValue st)" by (rule wrapInv_sent [OF inv st send])
  obtain lvl where c: "rs_candidate st = candidateOf (powerLimitBoost s) (thermalLimitBoost s) lvl st"
    using wrapInv_policy [OF inv st] by blast
  moreover have "rs_candidate st = candidatePolicy (powerLimitBoost s) (thermalLimitBoost s) lvl (wanted k s)"
    if "\<forall>v\<in>asked k s. INVALID_VALUE < v"
    unfolding c using wrapInv_wanted [OF inv st] wanted_valid [OF that] by (intro candidateOf_policy) simp_all
  ultimately show "\<exists>lvl. rs_candidate st = candidateOf (powerLimitBoost s) (thermalLimitBoost s) lvl st
      \<and> ((\<forall>v\<in>asked k s. INVALID_VALUE < v) \<longrightarrow>
          rs_candidate st = candidatePolicy (powerLimitBoost s) (thermalLimitBoost s) lvl (wanted k s))"
    by blast
  show "case pairOf k s of None \<Rightarrow> rs_currentValue st = rs_candidate st
      | Some p \<Rightarrow> \<exists>pst lim. stm s p = Some pst \<and> (rs_currentValue st, rs_currentValue pst)
          = arbPair (isMaxRes k s) lim (rs_candidate st) (rs_candidate pst)"
  proof (cases "pairOf k s")
    case None
    then show ?thesis using wrapInv_values [OF inv sym] st unfolding values_ok_def by fastforce
  next
    case (Some p)
    obtain pst where pst: "stm s p = Some pst" using paired_status [OF inv Some] by blast
    from wrapInv_pair_values [OF inv sym Some st pst] pst show ?thesis by (simp add: Some)
  qed
qed

end
