(* ===== verification/ParseSpecs.thy ===== *)
theory ParseSpecs
  imports ConfigLoad
begin

text \<open>
  The parsing of attributes and contents: which strings pass for numbers, when \<open>Split\<close> returns, the
  mode table of a command, and the attributes \<open>LoadInterAction\<close> needs.
\<close>

subsection \<open>Numbers\<close>

theorem IsNumber_language:
  "IsNumber str \<longleftrightarrow> (\<exists>sign digits. str = sign @ digits \<and> sign \<in> {[], ''-''} \<and> list_all is_digit digits)"
proof
  assume n: "IsNumber str"
  show "\<exists>sign digits. str = sign @ digits \<and> sign \<in> {[], ''-''} \<and> list_all is_digit digits"
  proof (cases str)
    case (Cons c cs)
    show ?thesis
    proof (cases "c = CHR ''-''")
      case True
      then have "str = ''-'' @ cs" "list_all is_digit cs" using n Cons by (auto simp: IsNumber_iff is_digit_code)
      then show ?thesis by blast
    next
      case False
      then have "str = [] @ str" "list_all is_digit str" using n Cons by (auto simp: IsNumber_iff)
      then show ?thesis by blast
    qed
  qed simp
next
  assume "\<exists>sign digits. str = sign @ digits \<and> sign \<in> {[], ''-''} \<and> list_all is_digit digits"
  then obtain sign digits where s: "str = sign @ digits" "sign \<in> {[], ''-''}" "list_all is_digit digits" by blast
  have "\<not> is_digit (CHR ''-'')" by (simp add: is_digit_code)
  then show "IsNumber str" using s by (cases digits) (auto simp: IsNumber_iff)
qed

subsection \<open>Split\<close>

text \<open>With an empty pattern the position does not advance: the loop does not end.\<close>

lemma SplitEx_loop_empty:
  assumes "SplitEx_loop tempStr pattern i result = Some r"
  shows "pattern \<noteq> [] \<or> length tempStr \<le> i"
proof -
  have found: "find_from [] tempStr i = int i" if "i < length tempStr" for tempStr i
    using that by (cases "drop i tempStr") (auto simp: find_from_def)
  show ?thesis
  proof (rule SplitEx_loop.raw_induct [where P = "\<lambda>tempStr pattern i result r. pattern \<noteq> [] \<or> length tempStr \<le> i", OF _ assms], goal_cases)
    case (1 loop tempStr pattern i result r)
    show ?case
    proof (rule ccontr)
      assume c: "\<not> (pattern \<noteq> [] \<or> length tempStr \<le> i)"
      then have "loop tempStr pattern i (result @ [substr tempStr i (int i - int i)]) = Some r"
        using 1(2) found [of i tempStr] by (auto simp: Let_def)
      from 1(1) [OF this] c show False by simp
    qed
  qed
qed

theorem Split_empty_pattern: "Split str [] = None \<longleftrightarrow> str \<noteq> []"
proof
  show "Split str [] = None" if "str \<noteq> []"
    using SplitEx_loop_empty [of str "[]" 0 "[]"] that by (cases "Split str []") (auto simp: Split_def SplitEx_def)
  have "Split [] [] = Some []" by (simp add: Split_def SplitEx_def SplitEx_loop.simps)
  then show "str \<noteq> []" if "Split str [] = None" using that by auto
qed

subsection \<open>The mode table of a command\<close>

definition modeEntry :: "ModeMap \<Rightarrow> string" where
  "modeEntry m = mm_mode m @ CHR ''='' # to_string (mm_cmdId m)"

definition modes_printable :: "ModeMap list \<Rightarrow> bool" where
  "modes_printable ms \<longleftrightarrow> distinct (map mm_mode ms) \<and>
     (\<forall>m\<in>set ms. mm_mode m \<noteq> [] \<and> CHR ''='' \<notin> set (mm_mode m) \<and> CHR ''|'' \<notin> set (mm_mode m) \<and> in_int32 (mm_cmdId m))"

lemma to_string_chars: "\<not> is_digit c \<Longrightarrow> c \<noteq> CHR ''-'' \<Longrightarrow> c \<notin> set (to_string i)"
  using nat_to_string_digits by (auto simp: to_string_def list_all_iff)

lemma modePair_entry:
  assumes "mm_mode m \<noteq> []" and "CHR ''='' \<notin> set (mm_mode m)" and "in_int32 (mm_cmdId m)"
    and "mm_mode m \<notin> mm_mode ` set (as_modeMap as)"
  shows "modePair (modeEntry m) as = Inr (as\<lparr>as_modeMap := as_modeMap as @ [m]\<rparr>)"
proof -
  have "CHR ''='' \<notin> set (to_string (mm_cmdId m))"
    by (rule to_string_chars) (simp_all add: is_digit_code)
  then have "Split (modeEntry m) ''='' = Some [mm_mode m, to_string (mm_cmdId m)]"
    using assms(2) by (simp add: modeEntry_def Split_char split_on_append split_on_no_sep)
  moreover have "\<not> list_ex (\<lambda>x. mm_mode x = mm_mode m) (as_modeMap as)"
    using assms(4) unfolding list_ex_iff by (metis image_eqI)
  ultimately show ?thesis
    using assms(1,3) by (simp add: modePair_def splitE_def IsNumber_to_string atoi_to_string)
qed

lemma modePair_loop:
  assumes "modes_printable ms" and "\<forall>m\<in>set ms. mm_mode m \<notin> mm_mode ` set (as_modeMap as)"
  shows "foldE modePair (map modeEntry ms) as = Inr (as\<lparr>as_modeMap := as_modeMap as @ ms\<rparr>)"
  using assms
proof (induction ms arbitrary: as)
  case (Cons m ms)
  have "modePair (modeEntry m) as = Inr (as\<lparr>as_modeMap := as_modeMap as @ [m]\<rparr>)"
    using Cons.prems by (intro modePair_entry) (auto simp: modes_printable_def)
  moreover have "modes_printable ms" using Cons.prems(1) by (simp add: modes_printable_def)
  moreover have "\<forall>x\<in>set ms. mm_mode x \<notin> mm_mode ` set (as_modeMap (as\<lparr>as_modeMap := as_modeMap as @ [m]\<rparr>))"
  proof
    fix x
    assume "x \<in> set ms"
    then have "mm_mode m \<noteq> mm_mode x" using Cons.prems(1) by (auto simp: modes_printable_def)
    with \<open>x \<in> set ms\<close> Cons.prems(2)
    show "mm_mode x \<notin> mm_mode ` set (as_modeMap (as\<lparr>as_modeMap := as_modeMap as @ [m]\<rparr>))" by simp
  qed
  ultimately show ?case using Cons.IH by simp
qed simp

theorem ParseModeCmd_inverts:
  assumes ms: "modes_printable ms" "ms \<noteq> []" and as: "as_modeMap as = []"
  shows "ParseModeCmd (join_with (CHR ''|'') (map modeEntry ms)) as = Inr (as\<lparr>as_modeMap := ms\<rparr>)"
proof -
  have "CHR ''|'' \<notin> set (modeEntry m)" if "m \<in> set ms" for m
    using ms(1) that to_string_chars [of "CHR ''|''" "mm_cmdId m"]
    by (auto simp: modeEntry_def modes_printable_def is_digit_code)
  then have "Split (join_with (CHR ''|'') (map modeEntry ms)) ''|'' = Some (map modeEntry ms)"
    using split_on_join [of "map modeEntry ms" "CHR ''|''"] ms(2) by (simp add: Split_char)
  then show ?thesis
    using modePair_loop [OF ms(1), of as] as by (simp add: ParseModeCmd_def splitE_def)
qed

subsection \<open>Interactions\<close>

definition weakAttributes :: "XmlNode \<Rightarrow> bool" where
  "weakAttributes x \<longleftrightarrow> xn_name x = ''weak'' \<longrightarrow>
     xmlGetProp x ''id'' \<noteq> None \<and> xmlGetProp x ''type'' \<noteq> None \<and> xmlGetProp x ''delay'' \<noteq> None"

definition weakItem :: "XmlNode \<Rightarrow> 'a SocPerfConfig_scheme \<Rightarrow> 'a SocPerfConfig_scheme" where
  "weakItem x s =
     (if xn_name x = ''weak'' then s\<lparr>interAction := interAction s @
        [new_InterAction (atoi (the (xmlGetProp x ''id''))) (atoi (the (xmlGetProp x ''type'')))
          (atoll (the (xmlGetProp x ''delay'')))]\<rparr> else s)"

lemma LoadInterAction_eq:
  "LoadInterAction x s =
     foldE (\<lambda>y t. if weakAttributes y then Inr (weakItem y t) else Inl NullDeref) (xn_children x) s"
  unfolding LoadInterAction_def
  by (rule arg_cong [where f = "\<lambda>f. foldE f (xn_children x) s"])
     (auto simp: fun_eq_iff weakAttributes_def weakItem_def derefE_def split: option.split)

theorem LoadInterAction_fails:
  "LoadInterAction x s = Inl NullDeref \<longleftrightarrow> \<not> list_all weakAttributes (xn_children x)"
proof -
  have "foldE (\<lambda>y t. if weakAttributes y then Inr (weakItem y t) else Inl NullDeref) xs t = Inl NullDeref
      \<longleftrightarrow> \<not> list_all weakAttributes xs" for xs and t :: "'a SocPerfConfig_scheme"
    by (induction xs arbitrary: t) simp_all
  then show ?thesis by (simp add: LoadInterAction_eq)
qed

end
