(* ===== verification/ExampleRun.thy ===== *)
theory ExampleRun
  imports ExampleFiles ServerSpecs ClientSpecs RequestSpecs PackSpecs SentPolicy ParseSpecs
begin

text \<open>
  The service on the example files, started and run: the first closure, two requests that contradict
  each other on the pair, and the closures they post. Beside it a caller without the permission,
  another one, and a client with and without a service.
\<close>

definition demoStarted :: SocPerf where
  "demoStarted = (case Init (Config_Init demoEnv) new_SocPerf of Inl e \<Rightarrow> new_SocPerf | Inr (ok, s) \<Rightarrow> s)"

lemma demo_started: "Init (Config_Init demoEnv) new_SocPerf = Inr (True, demoStarted)"
  by (rule started [OF demo_init demo_camera demo_config(1)]) (simp add: demoStarted_def)

lemma demo_started_inv: "bootInv (hw demoConfig) demoStarted" and demo_started_sys: "sysInv (hw demoConfig) demoStarted"
proof -
  show b: "bootInv (hw demoConfig) demoStarted"
    by (rule started [OF demo_init demo_camera demo_config(1)]) (simp add: demo_started)
  then show "sysInv (hw demoConfig) demoStarted" by (simp add: sysInv_def)
qed

subsection \<open>A run\<close>

datatype Move = Call Request | Run nat

fun move :: "Move \<Rightarrow> SocPerf \<Rightarrow> error + SocPerf" where
  "move (Call r) s = request r s"
| "move (Run n) s = runNext n s"

fun possible :: "Move \<Rightarrow> SocPerf \<Rightarrow> bool" where
  "possible (Call r) s = typed_request r"
| "possible (Run n) s = runnable (socperfQueue s) n"

fun play :: "Move list \<Rightarrow> SocPerf \<Rightarrow> SocPerf option" where
  "play [] s = Some s"
| "play (m # ms) s = (if possible m s then case move m s of Inl e \<Rightarrow> None | Inr s' \<Rightarrow> play ms s' else None)"

lemma play_reachable: "play ms s = Some s' \<Longrightarrow> reachable s0 s \<Longrightarrow> reachable s0 s'"
proof (induction ms arbitrary: s)
  case (Cons m ms)
  from Cons.prems(1) obtain t where m: "possible m s" "move m s = Inr t" "play ms t = Some s'"
    by (auto split: if_splits sum.splits)
  have "sysStep s t" using m(1,2) by (cases m) (auto intro: sysStep.intros)
  with Cons.prems(2) have "reachable s0 t" by (rule reach_step)
  with m(3) show ?case by (rule Cons.IH)
qed simp

definition demoMoves :: "Move list" where
  "demoMoves = [Run 0, Call (ReqPerf 100 5 10010 []), Call (ReqPerfEx 200 5 9101 True []), Run 1, Run 2]"

definition demoRunning :: SocPerf where
  "demoRunning = the (play demoMoves demoStarted)"

definition demoLook :: "SocPerf \<Rightarrow> _" where
  "demoLook s = (map (\<lambda>k. map_option rs_candidate (stm s k)) [1000, 1001, 2000],
     map (\<lambda>k. (pairOf k s, isMaxRes k s, sendable s k, lastSent (reports s) k)) [1000, 1001, 2000],
     map qe_delay (socperfQueue s), map ra_duration (acts 1000 ACTION_TYPE_PERF s),
     map (\<lambda>t. map ra_value (acts 2000 t s)) [0, 1, 2, 3], powerLimitBoost s, thermalLimitBoost s)"

lemma demo_played:
  "case Init (Config_Init demoEnv) new_SocPerf of Inl e \<Rightarrow> False | Inr (ok, s) \<Rightarrow>
     (case play demoMoves s of None \<Rightarrow> False | Some s' \<Rightarrow>
       demoLook s' = ([Some 2000, Some 1000, Some 1],
         [(Some 1001, False, True, Some 2000), (Some 1000, True, True, Some 2000), (None, False, True, Some 1)],
         [86400000000, 100000], [100], [[1], [], [], []], False, False))"
  by code_simp

lemma demo_play: "play demoMoves demoStarted = Some demoRunning"
  using demo_played by (auto simp: demo_started demoRunning_def split: option.splits)

lemma demo_reachable: "reachable demoStarted demoRunning"
  using play_reachable [OF demo_play reach_start] .

lemma demo_look:
  "demoLook demoRunning = ([Some 2000, Some 1000, Some 1],
     [(Some 1001, False, True, Some 2000), (Some 1000, True, True, Some 2000), (None, False, True, Some 1)],
     [86400000000, 100000], [100], [[1], [], [], []], False, False)"
  using demo_played by (simp add: demo_started demo_play)

text \<open>The resource without a pair, asked by one boost.\<close>

lemma demo_gov:
  "pairOf 2000 demoRunning = None" "sendable demoRunning 2000" "map_option rs_candidate (stm demoRunning 2000) = Some 1"
  "map ra_value (acts 2000 ACTION_TYPE_PERF demoRunning) = [1]" "acts 2000 ACTION_TYPE_PERFLVL demoRunning = []"
  "asked 2000 demoRunning = {1}" "\<not> powerLimitBoost demoRunning" "\<not> thermalLimitBoost demoRunning"
proof -
  have a: "map ra_value (acts 2000 0 demoRunning) = [1]" "acts 2000 1 demoRunning = []" "acts 2000 2 demoRunning = []"
      "acts 2000 3 demoRunning = []"
    using demo_look by (simp_all add: demoLook_def)
  then show "map ra_value (acts 2000 ACTION_TYPE_PERF demoRunning) = [1]" "acts 2000 ACTION_TYPE_PERFLVL demoRunning = []"
    by simp_all
  have "{0..<4} = {0, 1, 2, 3 :: int}" by auto
  then have "asked 2000 demoRunning = ra_value ` set (acts 2000 0 demoRunning)" by (simp add: asked_def a)
  then show "asked 2000 demoRunning = {1}" by (simp add: a flip: set_map)
qed (use demo_look in \<open>simp_all add: demoLook_def\<close>)

lemma demo_running:
  "pairOf 1001 demoRunning = Some 1000" "isMaxRes 1001 demoRunning"
  "sendable demoRunning 1001" "sendable demoRunning 1000"
  "map_option rs_candidate (stm demoRunning 1001) = Some 1000"
  "map_option rs_candidate (stm demoRunning 1000) = Some 2000"
  "lastSent (reports demoRunning) 1001 = Some 2000" "lastSent (reports demoRunning) 1000 = Some 2000"
  "map qe_delay (socperfQueue demoRunning) = [86400000000, 100000]"
  "map ra_duration (acts 1000 ACTION_TYPE_PERF demoRunning) = [100]"
  using demo_look by (simp_all add: demoLook_def)

subsection \<open>Callers\<close>

text \<open>A system service without the permission.\<close>

definition demoCaller :: Caller where
  "demoCaller = \<lparr>cl_tokenId = 7, cl_isHap = False, cl_isSystemApp = False, cl_uid = 1000,
     cl_verify = (\<lambda>p. - 1), cl_dumpGranted = False\<rparr>"

text \<open>Another caller, with a token of its own.\<close>

definition demoOther :: Caller where
  "demoOther = demoCaller\<lparr>cl_tokenId := 8\<rparr>"

lemma demo_others:
  "\<not> foreign (demoCaller\<lparr>cl_verify := f\<rparr>)" "\<not> foreign demoCaller" "cl_tokenId demoCaller = 7"
  "cl_tokenId demoOther = 8" "capacity (permissionCache new_SocPerfServer) = 32"
  by (simp_all add: foreign_def demoCaller_def demoOther_def new_SocPerfServer_def new_SocPerfLRUCache_def)

lemma new_cache: "lru_inv (permissionCache new_SocPerfServer)" "storedIn (permissionCache new_SocPerfServer) = Map.empty"
  by (simp_all add: new_SocPerfServer_def lru_inv_def new_SocPerfLRUCache_def storedIn_def entries_def)

lemma demo_server_inv:
  "serverInv (hw demoConfig) (new_SocPerfServer\<lparr>socPerf := demoStarted\<rparr>)"
  using new_cache(1) demo_started_sys by (simp add: serverInv_def)

lemma demo_authorised: "authorised (demoCaller\<lparr>cl_verify := f\<rparr>) (new_SocPerfServer\<lparr>socPerf := p\<rparr>) \<longleftrightarrow> f NEEDED_PERMISSION = 0"
  by (simp add: authorised_def demoCaller_def new_cache(2))

subsection \<open>Limits\<close>

lemma demo1_limits: "limits_clean 1 demo1" "limitsOf 1 demo1 = []"
proof -
  have "limitRequest demo1 = [[], [], [], [], []]" by code_simp
  then show "limits_clean 1 demo1" "limitsOf 1 demo1 = []" by (simp_all add: limits_clean_def client_ok_def limitsOf_def)
qed

subsection \<open>A removal\<close>

lemma refsDistinct_check:
  assumes "list_all (\<lambda>(k, p). case p of None \<Rightarrow> True
     | Some st \<Rightarrow> list_all (\<lambda>t. distinct (map ra_ref (rs_resActionList st ! nat t))) [0, 1, 2, 3, 4]) (resStatusInfo s)"
  shows "refsDistinct s"
  unfolding refsDistinct_def
proof (intro allI impI, elim conjE)
  fix k t :: int
  assume t: "0 \<le> t" "t < ACTION_TYPE_MAX"
  show "distinct (liveRefs k t s)"
  proof (cases "stm s k")
    case (Some st)
    then have "(k, Some st) \<in> set (resStatusInfo s)" by (auto simp: stm_def ptrAt_def dest: map_of_SomeD split: option.splits)
    with assms have "list_all (\<lambda>t. distinct (map ra_ref (rs_resActionList st ! nat t))) [0, 1, 2, 3, 4]"
      by (auto simp: list_all_iff)
    moreover have "t \<in> {0, 1, 2, 3, 4}" using t by auto
    ultimately show ?thesis using Some by (auto simp: liveRefs_def)
  qed (simp add: liveRefs_def)
qed

lemma demo2_removal:
  "midInv demo2" "\<forall>it\<in>set demoItems. typed_item it \<and> it_resId it \<in> resIds demo2" "refsDistinct demo2"
proof -
  show "midInv demo2" using demo2_inv by (rule wrapInv_mid)
  show "\<forall>it\<in>set demoItems. typed_item it \<and> it_resId it \<in> resIds demo2"
    by (simp add: demo2_values(5) demoNodes_def demoItems_def typed_item_def typed_action_def new_ResAction_def in_int64_def)
  show "refsDistinct demo2" by (rule refsDistinct_check) code_simp
qed

definition demoModes :: "ModeMap list" where
  "demoModes = [\<lparr>mm_mode = ''game'', mm_cmdId = 39101\<rparr>, \<lparr>mm_mode = ''video'', mm_cmdId = 9101\<rparr>]"

lemma demo_modes:
  "modes_printable demoModes" "demoModes \<noteq> []"
  "join_with (CHR ''|'') (map modeEntry demoModes) = ''game=39101|video=9101''"
proof -
  show "modes_printable demoModes" "demoModes \<noteq> []"
    by (simp_all add: demoModes_def modes_printable_def in_int32_def)
  show "join_with (CHR ''|'') (map modeEntry demoModes) = ''game=39101|video=9101''"
    by (simp add: demoModes_def modeEntry_def to_string_def nat_to_string.simps digit_char_def char_of_def bit_0)
qed

subsection \<open>A request\<close>

definition demoTouch :: Actions where
  "demoTouch = the (the (map_of demoActions 10010))"

definition itemView :: "ResActionItem \<Rightarrow> int \<times> int \<times> int" where
  "itemView it = (it_resId it, ra_value (it_resAction it), ra_duration (it_resAction it))"

lemma itemView_anon: "map itemView (map anon items) = map itemView items"
  by (simp add: itemView_def anon_def)

lemma demo_wanted:
  "map itemView (wantedItems demo1 5 demoTouch EVENT_ON ACTION_TYPE_PERF (as_actionList demoTouch) [])
     = [(1000, 1000, 100), (2000, 1, 100), (1001, 2000, 0)]"
  by code_simp

lemma demo_posted:
  assumes "map anon items = wantedItems demo1 5 demoTouch EVENT_ON ACTION_TYPE_PERF (as_actionList demoTouch) []"
    and "distinct ds" and "set ds = (\<lambda>it. ra_duration (it_resAction it)) ` set items - {0}"
  shows "map itemView items = [(1000, 1000, 100), (2000, 1, 100), (1001, 2000, 0)] \<and> items \<noteq> []
    \<and> removals items ds = [(100000, TaskPostDelay (withDuration 100 items))] \<and> postedTasks demo1 = []"
proof -
  have view: "map itemView items = [(1000, 1000, 100), (2000, 1, 100), (1001, 2000, 0)]"
    using demo_wanted itemView_anon [of items] assms(1) by simp
  have "(\<lambda>it. ra_duration (it_resAction it)) ` set items = (\<lambda>(r, v, d). d) ` set (map itemView items)"
    by (auto simp: itemView_def image_image)
  then have ds: "set ds = {100}" using assms(3) by (simp add: view insert_Diff_if)
  have "ds = [100]"
  proof -
    have "length ds = 1" using ds distinct_card [OF assms(2)] by simp
    then obtain d where "ds = [d]" by (cases ds) auto
    with ds show ?thesis by simp
  qed
  then have "removals items ds = [(100000, TaskPostDelay (withDuration 100 items))]"
    by (simp add: removals_def delayOfDuration_def to_int32_def to_uint64_def)
  moreover have "items \<noteq> []" using view by force
  moreover have "postedTasks demo1 = []" by (simp add: postedTasks_def)
  ultimately show ?thesis using view by blast
qed

subsection \<open>Clients\<close>

text \<open>A client that gets no service manager, and one that gets the service.\<close>

definition demoService :: Samgr where
  "demoService = \<lparr>sm_manager = True, sm_object = True, sm_cast = Some \<lparr>px_object = Some 1\<rparr>, sm_alloc = True\<rparr>"

lemma demo_client:
  "fst (CheckClientValid demoService new_SocPerfClient)" "ct_sent new_SocPerfClient = []"
  "okE (\<lambda>c'. ct_client c' = Some \<lparr>px_object = Some 1\<rparr>) (Client_PerfRequest demoService pid tid k msg new_SocPerfClient)"
  by (simp_all add: CheckClientValid_def Client_PerfRequest_def callClient_def derefE_def demoService_def new_SocPerfClient_def)

lemma demo_tagged: "taggedMessage 7 8 ''touch'' = ''pid=7|tid=8|touch''"
  by (simp add: taggedMessage_def to_string_def nat_to_string.simps digit_char_def char_of_def bit_0)

definition demoSamgr :: Samgr where
  "demoSamgr = \<lparr>sm_manager = False, sm_object = True, sm_cast = None, sm_alloc = True\<rparr>"

end
