(* ===== verification/Expiry.thy ===== *)
theory Expiry
  imports System PolicySpecs "HOL-Library.Sublist"
begin

text \<open>
  No boost outlives its removal: in every reachable state a live action with a duration has its
  removal pending in the queue, with the delay of that duration, and the closures the queue lets run lead
  to a state without it: the entries that carry actions keep their order in the queue (\<open>grows\<close>), so those to
  be run before the removal get fewer (\<open>urgent\<close>). \<open>tidy\<close> is the invariant behind it. Every \<open>ResAction\<close> object is in at
  most one place, a pack or a list of live actions; a pack is followed in the queue by the removals of
  its items, and the removals that are due cover the live actions with a duration.
\<close>

subsection \<open>The queue as a list of delays and tasks\<close>

fun carries :: "Task \<Rightarrow> bool" where
  "carries (TaskDoFreqActionPack items) = True"
| "carries (TaskUpdateLimitStatus ev a k) = True"
| "carries (TaskPostDelay items) = True"
| "carries _ = False"

text \<open>The entries that carry actions.\<close>

definition work :: "'a SocPerfThreadWrap_scheme \<Rightarrow> (int \<times> Task) list" where
  "work s = filter (\<lambda>e. carries (snd e)) (postedTasks s)"

abbreviation refOf :: "ResActionItem \<Rightarrow> nat" where
  "refOf it \<equiv> ra_ref (it_resAction it)"

text \<open>Where an item goes, the object that goes there and how long it stays.\<close>

definition keyOf :: "ResActionItem \<Rightarrow> int \<times> int \<times> nat \<times> int" where
  "keyOf it = (it_resId it, ra_type (it_resAction it), refOf it, ra_duration (it_resAction it))"

fun carriedRefs :: "int \<times> Task \<Rightarrow> nat list" where
  "carriedRefs (d, TaskDoFreqActionPack items) = map refOf items"
| "carriedRefs (d, TaskUpdateLimitStatus ev a k) = [ra_ref a]"
| "carriedRefs _ = []"

abbreviation pendingRefs :: "(int \<times> Task) list \<Rightarrow> nat list" where
  "pendingRefs w \<equiv> concat (map carriedRefs w)"

text \<open>The items an entry removes when their time is over.\<close>

fun dueItems :: "int \<times> Task \<Rightarrow> ResActionItem list" where
  "dueItems (d, TaskPostDelay items) = filter (\<lambda>it. d = delayOfDuration (ra_duration (it_resAction it))) items"
| "dueItems _ = []"

abbreviation due :: "(int \<times> Task) list \<Rightarrow> (int \<times> int \<times> nat \<times> int) set" where
  "due w \<equiv> \<Union>e\<in>set w. keyOf ` set (dueItems e)"

definition finite_due :: "ResActionItem list \<Rightarrow> (int \<times> int \<times> nat \<times> int) set \<Rightarrow> bool" where
  "finite_due items D \<longleftrightarrow> (\<forall>it\<in>set items. ra_duration (it_resAction it) \<noteq> 0 \<longrightarrow> keyOf it \<in> D)"

text \<open>The removals of a pack come after it.\<close>

fun followed :: "(int \<times> Task) list \<Rightarrow> bool" where
  "followed [] = True"
| "followed ((d, t) # w) = ((case t of
       TaskDoFreqActionPack items \<Rightarrow> d = 0 \<and> finite_due items (due w)
     | TaskUpdateLimitStatus ev a k \<Rightarrow> ra_duration a = 0
     | _ \<Rightarrow> True) \<and> followed w)"

lemma finite_due_mono: "finite_due items D \<Longrightarrow> D \<subseteq> E \<Longrightarrow> finite_due items E"
  by (auto simp: finite_due_def)

lemma followed_append:
  assumes "followed w" and "followed v"
  shows "followed (w @ v)"
  using assms(1)
proof (induction w rule: followed.induct)
  case (2 d t w)
  have "due w \<subseteq> due (w @ v)" by auto
  with 2 show ?case by (auto intro: finite_due_mono split: Task.splits)
qed (simp add: assms(2))

text \<open>An entry with no undelayed entry before it can be taken out: no pack is before it.\<close>

lemma followed_take:
  assumes "followed (w @ e # v)" and "\<forall>x\<in>set w. 0 < fst x"
  shows "followed (w @ v)" and "followed (e # v)"
proof -
  show "followed (w @ v)"
    using assms
  proof (induction w rule: followed.induct)
    case 1
    then show ?case by (cases e) simp
  next
    case (2 d t w)
    then show ?case by (auto split: Task.splits)
  qed
  show "followed (e # v)"
    using assms(1) by (induction w rule: followed.induct) simp_all
qed

subsection \<open>The invariant\<close>

definition typeRange :: "int \<Rightarrow> bool" where
  "typeRange t \<longleftrightarrow> 0 \<le> t \<and> t < ACTION_TYPE_MAX"

text \<open>One list of live actions, given the objects in flight, the next fresh object and the removals due.\<close>

definition tidyList :: "nat set \<Rightarrow> nat \<Rightarrow> (int \<times> int \<times> nat \<times> int) set \<Rightarrow> int \<Rightarrow> int \<Rightarrow> ResAction list \<Rightarrow> bool" where
  "tidyList R n D k t as \<longleftrightarrow> distinct (map ra_ref as)
     \<and> (\<forall>a\<in>set as. ra_ref a < n \<and> ra_ref a \<notin> R \<and> (ra_duration a \<noteq> 0 \<longrightarrow> (k, t, ra_ref a, ra_duration a) \<in> D))"

text \<open>
  Inside a closure, \<open>own\<close> are the items of its pack not yet added, \<open>rem\<close> the items of its removal not yet
  removed.
\<close>

definition tidy :: "ResActionItem list \<Rightarrow> ResActionItem list \<Rightarrow> 'a SocPerfThreadWrap_scheme \<Rightarrow> bool" where
  "tidy own rem s \<longleftrightarrow>
     distinct (map refOf own @ pendingRefs (work s))
     \<and> (\<forall>r\<in>set (map refOf own @ pendingRefs (work s)). r < nextRef s)
     \<and> followed (work s) \<and> finite_due own (due (work s))
     \<and> (\<forall>k t. typeRange t \<longrightarrow> tidyList (set (map refOf own @ pendingRefs (work s))) (nextRef s)
           (keyOf ` set rem \<union> due (work s)) k t (acts k t s))"

lemma tidyList_mono:
  assumes "tidyList R n D k t as" and "R' \<subseteq> R" and "n \<le> n'" and "D \<subseteq> D'"
  shows "tidyList R' n' D' k t as"
  using assms unfolding tidyList_def by fastforce

text \<open>
  What happens to a list of entries: some that do not matter are cancelled, the others stay in their
  order, and \<open>w\<close> is appended.
\<close>

definition grows :: "('e \<Rightarrow> bool) \<Rightarrow> 'e list \<Rightarrow> 'e list \<Rightarrow> 'e list \<Rightarrow> bool" where
  "grows c q w q' \<longleftrightarrow> (\<exists>u. q' = u @ w \<and> subseq u q \<and> filter c u = filter c q)"

lemma grows_append [intro]: "grows c q w (q @ w)"
  by (auto simp: grows_def)

lemma grows_refl [intro]: "grows c q [] q"
  by (auto simp: grows_def)

lemma grows_filter: "grows c q w q' \<Longrightarrow> filter c q' = filter c q @ filter c w"
  by (auto simp: grows_def)

lemma subseq_filter_length: "subseq xs ys \<Longrightarrow> length (filter c xs) \<le> length (filter c ys)"
  by (rule list_emb_length) (rule subseq_filter)

lemma grows_split:
  assumes "subseq u (xs @ ys)" and "filter c u = filter c xs @ filter c ys"
  obtains a b where "u = a @ b" and "subseq a xs" and "subseq b ys" and "filter c a = filter c xs" and "filter c b = filter c ys"
proof -
  obtain a b where ab: "u = a @ b" "subseq a xs" "subseq b ys"
    using assms(1) by (rule subseq_appendE)
  have "length (filter c a) \<le> length (filter c xs)" "length (filter c b) \<le> length (filter c ys)"
    using ab(2,3) by (simp_all add: subseq_filter_length)
  moreover have "filter c a @ filter c b = filter c xs @ filter c ys" using assms(2) ab(1) by simp
  moreover from this have "length (filter c a) + length (filter c b) = length (filter c xs) + length (filter c ys)"
    by (metis length_append)
  ultimately have "filter c a = filter c xs" "filter c b = filter c ys" by simp_all
  with ab show thesis using that by blast
qed

lemma grows_trans:
  assumes "grows c q v q'" and "grows c q' w q''"
  obtains v' where "grows c q v' q''" and "filter c v' = filter c v @ filter c w"
proof -
  obtain u where u: "q' = u @ v" "subseq u q" "filter c u = filter c q" using assms(1) by (auto simp: grows_def)
  obtain u' where u': "q'' = u' @ w" "subseq u' (u @ v)" "filter c u' = filter c u @ filter c v"
    using assms(2) by (auto simp: grows_def u(1))
  obtain a b where ab: "u' = a @ b" "subseq a u" "filter c a = filter c u" "filter c b = filter c v"
    using u'(2,3) by (rule grows_split)
  have "grows c q (b @ w) q''"
    using ab u u'(1) subseq_order.trans [OF ab(2) u(2)] by (auto simp: grows_def)
  with ab(4) show thesis using that by simp
qed

text \<open>An entry that matters stays, with no more entries before it than there were.\<close>

lemma grows_entry:
  assumes "grows c (xs @ e # ys) w q'" and "c e"
  obtains a b where "q' = a @ e # b" and "subseq a xs"
proof -
  obtain u where u: "q' = u @ w" "subseq u (xs @ e # ys)" "filter c u = filter c xs @ filter c (e # ys)"
    using assms(1) by (auto simp: grows_def)
  obtain a b where ab: "u = a @ b" "subseq a xs" "subseq b (e # ys)" "filter c b = filter c (e # ys)"
    using u(2,3) by (rule grows_split)
  have "\<not> subseq b ys"
  proof
    assume "subseq b ys"
    then have "length (filter c b) \<le> length (filter c ys)" by (rule subseq_filter_length)
    then show False using ab(4) assms(2) by simp
  qed
  with ab(3) obtain b' where "b = e # b'" by (cases b) (auto split: if_splits)
  with u(1) ab(1,2) show thesis using that by simp
qed

text \<open>What requests and the end of a closure do: they post complete blocks of entries with fresh objects.\<close>

definition block :: "nat \<Rightarrow> nat \<Rightarrow> (int \<times> Task) list \<Rightarrow> bool" where
  "block lo hi w \<longleftrightarrow> lo \<le> hi \<and> distinct (pendingRefs w) \<and> set (pendingRefs w) \<subseteq> {lo..<hi} \<and> followed w"

abbreviation matters :: "int \<times> Task \<Rightarrow> bool" where
  "matters e \<equiv> carries (snd e)"

definition posts :: "'a SocPerfThreadWrap_scheme \<Rightarrow> 'a SocPerfThreadWrap_scheme \<Rightarrow> bool" where
  "posts s s' \<longleftrightarrow> (\<forall>k t. typeRange t \<longrightarrow> acts k t s' = acts k t s)
     \<and> (\<exists>w. grows matters (postedTasks s) w (postedTasks s') \<and> block (nextRef s) (nextRef s') (filter matters w))"

lemma block_nil: "lo \<le> hi \<Longrightarrow> block lo hi []"
  by (simp add: block_def)

lemma block_append: "block lo mid v \<Longrightarrow> block mid hi w \<Longrightarrow> block lo hi (v @ w)"
  by (force simp: block_def intro: followed_append)

lemma postsI:
  "(\<And>k t. typeRange t \<Longrightarrow> acts k t s' = acts k t s) \<Longrightarrow> grows matters (postedTasks s) w (postedTasks s')
   \<Longrightarrow> block (nextRef s) (nextRef s') (filter matters w) \<Longrightarrow> posts s s'"
  by (auto simp: posts_def)

lemma posts_work:
  assumes "posts s s'"
  obtains w where "work s' = work s @ w" and "block (nextRef s) (nextRef s') w"
  using assms that grows_filter unfolding posts_def work_def by blast

lemma posts_trans:
  assumes "posts s t" and "posts t u"
  shows "posts s u"
proof -
  obtain v w where vw: "grows matters (postedTasks s) v (postedTasks t)" "grows matters (postedTasks t) w (postedTasks u)"
      "block (nextRef s) (nextRef t) (filter matters v)" "block (nextRef t) (nextRef u) (filter matters w)"
    and same: "\<forall>k t'. typeRange t' \<longrightarrow> acts k t' u = acts k t' s"
    using assms unfolding posts_def by metis
  obtain v' where "grows matters (postedTasks s) v' (postedTasks u)" "filter matters v' = filter matters v @ filter matters w"
    using vw(1,2) by (rule grows_trans)
  with same block_append [OF vw(3,4)] show ?thesis unfolding posts_def by metis
qed

lemma posts_same:
  "(\<And>k t. typeRange t \<Longrightarrow> acts k t s' = acts k t s) \<Longrightarrow> postedTasks s' = postedTasks s \<Longrightarrow> nextRef s' = nextRef s \<Longrightarrow> posts s s'"
  by (rule postsI [where w = "[]"]) (auto simp: block_nil)

lemma posts_refl [simp]: "posts s s"
  by (rule posts_same) simp_all

lemma tidy_posts:
  assumes "tidy own rem s" and "posts s s'"
  shows "tidy own rem s'"
proof -
  obtain w where w: "work s' = work s @ w" "block (nextRef s) (nextRef s') w"
    using assms(2) by (rule posts_work)
  have same: "acts k t s' = acts k t s" if "typeRange t" for k t
    using assms(2) that unfolding posts_def by blast
  have old: "distinct (map refOf own @ pendingRefs (work s))"
      "\<And>r. r \<in> set (map refOf own @ pendingRefs (work s)) \<Longrightarrow> r < nextRef s"
      "followed (work s)" "finite_due own (due (work s))"
    using assms(1) unfolding tidy_def by blast+
  have lists: "tidyList (set (map refOf own @ pendingRefs (work s))) (nextRef s)
           (keyOf ` set rem \<union> due (work s)) k t (acts k t s)" if "typeRange t" for k t
    using assms(1) that unfolding tidy_def by blast
  have new: "distinct (pendingRefs w)" "set (pendingRefs w) \<subseteq> {nextRef s..<nextRef s'}" "followed w" "nextRef s \<le> nextRef s'"
    using w(2) by (simp_all add: block_def)
  have refs: "set (map refOf own @ pendingRefs (work s')) = set (map refOf own @ pendingRefs (work s)) \<union> set (pendingRefs w)"
    by (auto simp: w(1))
  have dist: "distinct ((map refOf own @ pendingRefs (work s)) @ pendingRefs w)"
    using old(1,2) new(1,2) by (subst distinct_append) force
  show ?thesis
    unfolding tidy_def
  proof (intro conjI allI impI ballI)
    show "distinct (map refOf own @ pendingRefs (work s'))" using dist by (simp add: w(1))
    show "followed (work s')" using old(3) new(3) by (simp add: w(1) followed_append)
    show "finite_due own (due (work s'))" using old(4) by (rule finite_due_mono) (auto simp: w(1))
    show "r < nextRef s'" if "r \<in> set (map refOf own @ pendingRefs (work s'))" for r
      using that old(2) [of r] new(2,4) unfolding refs by fastforce
    fix k t assume t: "typeRange t"
    from lists [OF t] have "tidyList (set (map refOf own @ pendingRefs (work s)) \<union> set (pendingRefs w)) (nextRef s)
        (keyOf ` set rem \<union> due (work s)) k t (acts k t s)"
      using new(2) unfolding tidyList_def by fastforce
    then show "tidyList (set (map refOf own @ pendingRefs (work s'))) (nextRef s')
        (keyOf ` set rem \<union> due (work s')) k t (acts k t s')"
      unfolding same [OF t] refs by (rule tidyList_mono) (use new(4) in \<open>auto simp: w(1)\<close>)
  qed
qed

subsection \<open>The operations on the live actions\<close>

lemma eraseFirst_subset: "set (eraseFirst P xs) \<subseteq> set xs"
  by (induction xs) auto

lemma distinct_eraseFirst: "distinct (map f xs) \<Longrightarrow> distinct (map f (eraseFirst P xs))"
proof (induction xs)
  case (Cons x xs)
  then show ?case using eraseFirst_subset [of P xs] by auto
qed simp

lemma tidyList_erase: "tidyList R n D k t as \<Longrightarrow> tidyList R n D k t (eraseFirst P as)"
  unfolding tidyList_def using distinct_eraseFirst eraseFirst_subset by (metis subsetD)

lemma tidyList_instant:
  assumes "tidyList (insert (ra_ref a) R) n D k t as" and "ra_ref a \<notin> R" and "ra_ref a < n"
    and "ra_duration a \<noteq> 0 \<longrightarrow> (k, t, ra_ref a, ra_duration a) \<in> D"
  shows "tidyList R n D k t (actionsAfter False a as)"
proof -
  have one: "tidyList (insert (ra_ref a) R) n D k t (eraseFirst P as)" for P
    using assms(1) by (rule tidyList_erase)
  have "tidyList R n D k t (eraseFirst P as @ [a])" for P
    using one [of P] assms(2-4) by (auto simp: tidyList_def image_iff)
  moreover have "tidyList R n D k t (eraseFirst P as)" for P
    using one by (rule tidyList_mono) auto
  ultimately show ?thesis by (simp add: actionsAfter_def)
qed

lemma tidyList_delayed:
  assumes "tidyList R n (insert (k, t, ra_ref a, ra_duration a) D) k t as"
  shows "tidyList R n D k t (actionsAfter True a as)"
proof -
  let ?as = "eraseFirst (sameRef a) as"
  have d: "distinct (map ra_ref as)" using assms by (simp add: tidyList_def)
  have "ra_ref a \<notin> set (map ra_ref ?as)" using d by (simp only: map_eraseFirst_ref) simp
  then have "ra_ref b \<noteq> ra_ref a" if "b \<in> set ?as" for b using that by (metis image_eqI set_map)
  then show ?thesis
    using tidyList_erase [OF assms, of "sameRef a"] by (auto simp: tidyList_def actionsAfter_def)
qed

lemma work_same: "socperfQueue s' = socperfQueue s \<Longrightarrow> work s' = work s"
  by (simp add: work_def postedTasks_def)

text \<open>Lists that are emptied, and items that are not added.\<close>

lemma tidy_acts:
  assumes "tidy own rem s" and "work s' = work s" and "nextRef s' = nextRef s"
    and "\<And>k t. typeRange t \<Longrightarrow> acts k t s' = acts k t s \<or> acts k t s' = []"
  shows "tidy own rem s'"
proof -
  have "tidyList R n D k t (acts k t s')" if "tidyList R n D k t (acts k t s)" "typeRange t" for R n D k t
    using assms(4) [OF that(2), of k] that(1) by (auto simp: tidyList_def)
  then show ?thesis using assms(1) unfolding tidy_def assms(2,3) by blast
qed

lemma tidy_skip:
  assumes "tidy (it # own) rem s"
  shows "tidy own rem s"
proof -
  have "tidyList (set (map refOf own @ pendingRefs (work s))) (nextRef s) (keyOf ` set rem \<union> due (work s)) k t (acts k t s)"
    if "typeRange t" for k t
  proof (rule tidyList_mono)
    show "tidyList (set (map refOf (it # own) @ pendingRefs (work s))) (nextRef s)
        (keyOf ` set rem \<union> due (work s)) k t (acts k t s)"
      using assms that unfolding tidy_def by blast
  qed auto
  then show ?thesis using assms by (simp add: tidy_def finite_due_def)
qed

lemma tidy_instant:
  assumes "tidy (it # own) rem s" and eff: "actionEffect (it_resId it) False (it_resAction it) s s'"
    and wf: "wf_wrap s" and it: "typed_item it"
  shows "tidy own rem s'"
proof -
  have fr: "wrapFrame s s'" using eff by (simp add: actionEffect_def)
  have ws: "work s' = work s" "nextRef s' = nextRef s" using work_same wrapFrame_frame(5,8) [OF fr] by blast+
  have same: "acts k t s' = (if k = it_resId it \<and> t = ra_type (it_resAction it)
      then actionsAfter False (it_resAction it) (acts k t s) else acts k t s)" if "typeRange t" for k t
    using acts_effect [OF eff wf] it that unfolding typed_item_def typeRange_def by blast
  let ?R = "set (map refOf own @ pendingRefs (work s))" and ?D = "keyOf ` set rem \<union> due (work s)"
  have it': "refOf it \<notin> ?R" "refOf it < nextRef s" "ra_duration (it_resAction it) \<noteq> 0 \<Longrightarrow> keyOf it \<in> ?D"
    using assms(1) by (auto simp: tidy_def finite_due_def)
  have lists: "tidyList (insert (refOf it) ?R) (nextRef s) ?D k t (acts k t s)" if "typeRange t" for k t
    using assms(1) that by (simp add: tidy_def)
  have "tidyList ?R (nextRef s) ?D k t (acts k t s')" if t: "typeRange t" for k t
  proof (cases "k = it_resId it \<and> t = ra_type (it_resAction it)")
    case True
    have "tidyList ?R (nextRef s) ?D k t (actionsAfter False (it_resAction it) (acts k t s))"
      using lists [OF t] it' True by (intro tidyList_instant) (simp_all add: keyOf_def)
    then show ?thesis unfolding same [OF t] if_P [OF True] .
  next
    case False
    have "acts k t s' = acts k t s" unfolding same [OF t] if_not_P [OF False] ..
    then show ?thesis using lists [OF t] by (metis (no_types, lifting) subset_insertI order_refl tidyList_mono)
  qed
  then show ?thesis using assms(1) by (simp add: tidy_def ws finite_due_def)
qed

lemma tidy_delayed:
  assumes "tidy [] (it # rem) s" and eff: "actionEffect (it_resId it) True (it_resAction it) s s'"
    and wf: "wf_wrap s" and it: "typed_item it"
  shows "tidy [] rem s'"
proof -
  have fr: "wrapFrame s s'" using eff by (simp add: actionEffect_def)
  have ws: "work s' = work s" "nextRef s' = nextRef s" using work_same wrapFrame_frame(5,8) [OF fr] by blast+
  have same: "acts k t s' = (if k = it_resId it \<and> t = ra_type (it_resAction it)
      then actionsAfter True (it_resAction it) (acts k t s) else acts k t s)" if "typeRange t" for k t
    using acts_effect [OF eff wf] it that unfolding typed_item_def typeRange_def by blast
  let ?R = "set (pendingRefs (work s))" and ?D = "keyOf ` set rem \<union> due (work s)"
  have lists: "tidyList ?R (nextRef s) (insert (keyOf it) ?D) k t (acts k t s)" if "typeRange t" for k t
    using assms(1) that by (simp add: tidy_def)
  have "tidyList ?R (nextRef s) ?D k t (acts k t s')" if t: "typeRange t" for k t
  proof (cases "k = it_resId it \<and> t = ra_type (it_resAction it)")
    case True
    have "tidyList ?R (nextRef s) ?D k t (actionsAfter True (it_resAction it) (acts k t s))"
      using lists [OF t] True by (intro tidyList_delayed) (simp add: keyOf_def)
    then show ?thesis unfolding same [OF t] if_P [OF True] .
  next
    case False
    have "acts k t s' = acts k t s" unfolding same [OF t] if_not_P [OF False] ..
    then show ?thesis using lists [OF t] False by (auto simp: tidyList_def keyOf_def)
  qed
  then show ?thesis using assms(1) by (simp add: tidy_def ws)
qed

subsection \<open>The loops of packs and removals\<close>

lemma actionEffect_next:
  assumes mid: "midInv s" and it: "typed_item it" and k: "it_resId it \<in> resIds s"
  obtains s' where "UpdateResActionList (it_resId it) (it_resAction it) d s = Inr s'"
    and "actionEffect (it_resId it) d (it_resAction it) s s'" and "midInv s'" and "wrapFrame s s'" and "wf_wrap s"
proof -
  have res: "resInv UNIV s" and wf: "wf_wrap s" using mid by (simp_all add: midInv_def resInv_def)
  obtain st where st: "stm s (it_resId it) = Some st" using wf k by (rule wf_wrap_status)
  have a: "typed_action (it_resAction it)" "0 \<le> ra_type (it_resAction it)" "ra_type (it_resAction it) < ACTION_TYPE_MAX"
    using it by (simp_all add: typed_item_def)
  obtain u where u: "UpdateResActionList (it_resId it) (it_resAction it) d s = Inr u"
      "actionEffect (it_resId it) d (it_resAction it) s u" "resInv UNIV u"
    using UpdateResActionList_inv [OF res st a, of d] by (auto simp: okE_iff)
  have "midInv u" "wrapFrame s u"
    using midInv_step [OF mid _ actionEffect_samePrev [OF u(2)] u(3)] u(2) by (simp_all add: actionEffect_def)
  with u(1,2) wf show thesis using that by blast
qed

lemma pack_tidy:
  assumes "midInv s" and "\<forall>it\<in>set items. typed_item it" and "tidy items rem s"
  shows "okE (\<lambda>s'. midInv s' \<and> tidy [] rem s') (foldE doPackItem items s)"
  using assms
proof (induction items arbitrary: s)
  case (Cons it items)
  have it: "typed_item it" using Cons.prems(2) by simp
  show ?case
  proof (cases "it_resId it \<in> resIds s")
    case True
    obtain u where u: "UpdateResActionList (it_resId it) (it_resAction it) False s = Inr u"
      "actionEffect (it_resId it) False (it_resAction it) s u" "midInv u" "wf_wrap s"
      using Cons.prems(1) it True by (rule actionEffect_next)
    have "tidy items rem u" using Cons.prems(3) u(2,4) it by (rule tidy_instant)
    moreover have "doPackItem it s = Inr u" using True u(1) by (simp add: doPackItem_def)
    moreover have "\<forall>x\<in>set items. typed_item x" using Cons.prems(2) by simp
    ultimately show ?thesis unfolding foldE.simps using Cons.IH [OF u(3)] by (simp only: bindE_simps)
  next
    case False
    then have "doPackItem it s = Inr s" by (simp add: doPackItem_def)
    moreover have "\<forall>x\<in>set items. typed_item x" using Cons.prems(2) by simp
    ultimately show ?thesis
      unfolding foldE.simps using Cons.IH [OF Cons.prems(1) _ tidy_skip [OF Cons.prems(3)]] by (simp only: bindE_simps)
  qed
qed simp

lemma removal_tidy:
  assumes "midInv s" and "\<forall>it\<in>set items. typed_item it \<and> it_resId it \<in> resIds s" and "tidy [] items s"
  shows "okE (\<lambda>s'. midInv s' \<and> tidy [] [] s')
    (foldE (\<lambda>it. UpdateResActionList (it_resId it) (it_resAction it) True) items s)"
  using assms
proof (induction items arbitrary: s)
  case (Cons it items)
  have it: "typed_item it" "it_resId it \<in> resIds s" using Cons.prems(2) by simp_all
  obtain u where u: "UpdateResActionList (it_resId it) (it_resAction it) True s = Inr u"
      "actionEffect (it_resId it) True (it_resAction it) s u" "midInv u" "wrapFrame s u" "wf_wrap s"
    using Cons.prems(1) it by (rule actionEffect_next)
  have "tidy [] items u" using Cons.prems(3) u(2,5) it(1) by (rule tidy_delayed)
  moreover have "\<forall>x\<in>set items. typed_item x \<and> it_resId x \<in> resIds u"
    using Cons.prems(2) wrapFrame_frame(1) [OF u(4)] by simp
  ultimately show ?case unfolding foldE.simps u(1) using Cons.IH [OF u(3)] by (simp only: bindE_simps)
qed simp

subsection \<open>What requests post\<close>

text \<open>The parts of the state the invariant reads.\<close>

definition flow :: "'a SocPerfThreadWrap_scheme \<Rightarrow> _" where
  "flow s = (resStatusInfo s, socperfQueue s, nextRef s)"

lemma posts_flow: "flow s' = flow s \<Longrightarrow> posts s s'"
  by (rule posts_same) (simp_all add: flow_def acts_def stm_def work_def postedTasks_def)

lemma posts_entries:
  assumes "resStatusInfo s' = resStatusInfo s" and "postedTasks s' = postedTasks s @ w"
    and "block (nextRef s) (nextRef s') (filter (\<lambda>e. carries (snd e)) w)"
  shows "posts s s'"
  by (rule postsI [OF _ _ assms(3)]) (auto simp: acts_def stm_def assms(1,2))

lemma submit_fields [simp]:
  "resStatusInfo (submit d t s) = resStatusInfo s" "nextRef (submit d t s) = nextRef s"
  by (simp_all add: submit_def submit_h_def)

lemma posts_submit: "\<not> carries t \<Longrightarrow> posts s (submit d t s)"
  by (rule posts_entries [where w = "[(d, t)]"]) (simp_all add: block_nil)

lemma posts_submit_flow: "flow t = flow s \<Longrightarrow> \<not> carries k \<Longrightarrow> posts s (submit d k t)"
  by (rule posts_trans [OF posts_flow posts_submit])

text \<open>A pack with numbered items and its removals are a block.\<close>

lemma removals_block:
  "pendingRefs (removals items ds) = []" "followed (removals items ds)"
  "filter (\<lambda>e. carries (snd e)) (removals items ds) = removals items ds"
  "it \<in> set items \<Longrightarrow> ra_duration (it_resAction it) \<in> set ds \<Longrightarrow> keyOf it \<in> due (removals items ds)"
proof -
  show "pendingRefs (removals items ds) = []" "followed (removals items ds)"
      "filter (\<lambda>e. carries (snd e)) (removals items ds) = removals items ds"
    by (induction ds) (simp_all add: removals_def)
  show "keyOf it \<in> due (removals items ds)"
    if "it \<in> set items" "ra_duration (it_resAction it) \<in> set ds"
  proof -
    have "it \<in> set (withDuration (ra_duration (it_resAction it)) items)"
      using that(1) by (simp add: withDuration_def)
    then show ?thesis using that(2) unfolding removals_def by (force simp: withDuration_def)
  qed
qed

lemma block_pack:
  assumes "map refOf items = [lo..<hi]" and "lo \<le> hi"
    and "\<And>it. it \<in> set items \<Longrightarrow> ra_duration (it_resAction it) \<noteq> 0 \<Longrightarrow> ra_duration (it_resAction it) \<in> set ds"
  shows "block lo hi (filter (\<lambda>e. carries (snd e)) ((if items = [] then [] else [(0, TaskDoFreqActionPack items)]) @ removals items ds))"
proof -
  have "set (map refOf items) = {lo..<hi}" by (simp only: assms(1)) simp
  moreover have "distinct (map refOf items)" by (simp only: assms(1)) simp
  ultimately show ?thesis
    using assms(2,3) removals_block by (auto simp: block_def finite_due_def removals_block)
qed

lemma upt_glue: "lo \<le> mid \<Longrightarrow> mid \<le> hi \<Longrightarrow> [lo..<mid] @ [mid..<hi] = [lo..<hi]"
  using upt_add_eq_append [of lo mid "hi - mid"] by simp

lemma weakItems_refs:
  "map refOf (weakItems s type onOff cmd ref acs) = [ref..<ref + length (weakItems s type onOff cmd ref acs)]"
proof (induction s type onOff cmd ref acs rule: weakItems.induct)
  case (2 s type onOff cmd ref ac rest)
  then show ?case
    using buildItems_refs [of s 0 type onOff cmd MAX_INT_VALUE False ref "varPairs (ac_variable ac)"]
    by (simp add: Let_def comp_def upt_glue add.assoc)
qed simp

text \<open>The items of a request are numbered from the next fresh object on.\<close>

definition numbered :: "nat \<Rightarrow> ResActionItem list \<times> 'a SocPerfThreadWrap_scheme \<Rightarrow> bool" where
  "numbered n p \<longleftrightarrow> n \<le> nextRef (snd p) \<and> map refOf (fst p) = [n..<nextRef (snd p)]"

lemma numbered_build:
  assumes "numbered n (items, t)" and "r = nextRef t"
  shows "numbered n (items @ buildItems s d type onOff cmd e interact r ps,
    t'\<lparr>nextRef := r + length (buildItems s d type onOff cmd e interact r ps)\<rparr>)"
  using assms buildItems_refs [of s d type onOff cmd e interact r ps]
  by (simp add: numbered_def comp_def upt_glue)

lemma GetActionsInfo_flow: "flow (snd (GetActionsInfo k s)) = flow s"
  by (simp add: GetActionsInfo_def touchActions_def flow_def)

lemma thermal_numbered:
  assumes "numbered n (items, t)"
  shows "numbered n (DoPerfRequestThremalLvl cmd origin onOff items e t)"
proof -
  obtain a u where u: "GetActionsInfo (ac_thermalCmdId origin) t = (a, u)" by fastforce
  then have "nextRef u = nextRef t" using GetActionsInfo_flow [of "ac_thermalCmdId origin" t] by (simp add: flow_def)
  moreover from this have "numbered n (items, u)" using assms by (simp add: numbered_def)
  ultimately show ?thesis
    using assms unfolding DoPerfRequestThremalLvl_def u Let_def prod.case
    by (auto intro!: numbered_build split: option.split)
qed

lemma freqAction_numbered:
  assumes "numbered n (items, t)"
  shows "numbered n (freqAction curMs as onOff type ac (items, t))"
  unfolding freqAction_def Let_def prod.case
  by (auto intro!: thermal_numbered numbered_build assms refl)

lemma freqActions_numbered:
  "numbered n p \<Longrightarrow> numbered n (fold (freqAction curMs as onOff type) acs p)"
proof (induction acs arbitrary: p)
  case (Cons ac acs)
  then show ?case using freqAction_numbered [of n "fst p" "snd p" curMs as onOff type ac] by simp
qed simp

lemma fold_submit_fields:
  "resStatusInfo (fold (\<lambda>(d, items). submit (f d) (g items)) m s) = resStatusInfo s"
  "nextRef (fold (\<lambda>(d, items). submit (f d) (g items)) m s) = nextRef s"
  by (induction m arbitrary: s) auto

lemma DoFreqActions_block: "retE (posts s) (DoFreqActions curMs actions onOff type s)"
proof (cases actions)
  case (Some as)
  obtain items t where run: "fold (freqAction curMs as onOff type) (as_actionList as) ([], s) = (items, t)" by fastforce
  have "numbered (nextRef s) (items, t)"
    using freqActions_numbered [of "nextRef s" "([], s)" curMs as onOff type "as_actionList as"]
    by (simp add: run numbered_def)
  then have refs: "map refOf items = [nextRef s..<nextRef t]" "nextRef s \<le> nextRef t" by (simp_all add: numbered_def)
  have keep: "resStatusInfo t = resStatusInfo s" "postedTasks t = postedTasks s"
    using freqActions_keep [of curMs as onOff type "as_actionList as" "[]" s] by (simp_all add: run postedTasks_def)
  let ?s' = "PostDelayTask items (DoFreqActionPack items t)"
  obtain ds where ds: "set ds = (\<lambda>it. ra_duration (it_resAction it)) ` set items - {0}"
      "postedTasks ?s' = postedTasks (DoFreqActionPack items t) @ removals items ds"
    by (rule PostDelayTask_posts)
  have "resStatusInfo ?s' = resStatusInfo s" "nextRef ?s' = nextRef t"
    by (simp_all add: PostDelayTask_def fold_submit_fields DoFreqActionPack_def keep)
  moreover have "postedTasks ?s' = postedTasks s @ (if items = [] then [] else [(0, TaskDoFreqActionPack items)]) @ removals items ds"
    using ds(2) by (simp add: DoFreqActionPack_def keep)
  moreover have "block (nextRef s) (nextRef t)
      (filter (\<lambda>e. carries (snd e)) ((if items = [] then [] else [(0, TaskDoFreqActionPack items)]) @ removals items ds))"
    using refs by (rule block_pack) (use ds(1) in auto)
  ultimately have "posts s ?s'"
    by (intro posts_entries [where w = "(if items = [] then [] else [(0, TaskDoFreqActionPack items)]) @ removals items ds"])
      (simp_all only:)
  then show ?thesis by (simp add: DoFreqActions_def Some derefE_def run)
qed (simp add: DoFreqActions_def derefE_def)

lemma request_flows:
  "flow (snd (CheckTimeInterval now b k s)) = flow s"
  "flow (UpdateCmdIdCount k s) = flow s" "flow (UpdateDailyCmdIdCount k s) = flow s"
  "flow (snd (MatchDeviceMode m b items s)) = flow s" "flow (reportScenario ty nm b sc s) = flow s"
  by (auto simp: flow_def CheckTimeInterval_def UpdateCmdIdCount_def UpdateDailyCmdIdCount_def
      MatchDeviceMode_def reportScenario_def Let_def split: option.split prod.splits if_splits)

lemma GetMatchCmdId_flow: "retE (\<lambda>(m, s'). flow s' = flow s) (GetMatchCmdId k b s)"
  unfolding GetMatchCmdId_def Let_def
  by (auto simp: flow_def touchMode_def intro!: retE_skip)

text \<open>The part of a request after its rate limit.\<close>

lemma matched_posts:
  fixes s :: "'a SocPerf_scheme"
  assumes "\<And>t. flow (g t) = flow t"
  shows "retE (posts s) (bindE (GetMatchCmdId k b s) (\<lambda>(m, s). if m = INVALID_CMD_ID then Inr s
     else case GetActionsInfo m s of (actions, s) \<Rightarrow>
       bindE (DoFreqActions curMs actions onOff type s) (\<lambda>s. Inr (g s))))"
proof (rule retE_bind [OF GetMatchCmdId_flow], clarify)
  fix m and t :: "'a SocPerf_scheme"
  assume t: "flow t = flow s"
  obtain a u where u: "GetActionsInfo m t = (a, u)" by fastforce
  then have fu: "flow u = flow s" using GetActionsInfo_flow [of m t] t by simp
  have "retE (posts s) (bindE (DoFreqActions curMs a onOff type u) (\<lambda>s. Inr (g s)))"
  proof (rule retE_bind [OF DoFreqActions_block])
    fix x assume "posts u x"
    with posts_flow [OF fu] posts_flow [OF assms, of x] show "retE (posts s) (Inr (g x))"
      by (auto intro: posts_trans)
  qed
  with posts_flow [OF t] show "retE (posts s) (if m = INVALID_CMD_ID then Inr t
     else case GetActionsInfo m t of (actions, s) \<Rightarrow> bindE (DoFreqActions curMs actions onOff type s) (\<lambda>s. Inr (g s)))"
    by (simp add: u)
qed

lemma checked_posts:
  assumes "\<And>t. flow t = flow s \<Longrightarrow> retE (posts t) (f t)"
  shows "retE (posts s) (case CheckTimeInterval now b k s of (pass, s) \<Rightarrow> if \<not> pass then Inr s else f s)"
proof -
  obtain pass t where t: "CheckTimeInterval now b k s = (pass, t)" by fastforce
  then have "flow t = flow s" using request_flows(1) [of now b k s] by simp
  then show ?thesis
    using assms [of t] posts_flow [of t s] by (auto simp: t intro: retE_mono posts_trans)
qed

lemma PerfRequest_posts: "retE (posts s) (PerfRequest now curMs k msg s)"
  unfolding PerfRequest_def
  by (auto intro!: checked_posts matched_posts simp: request_flows)

lemma PerfRequestEx_posts: "retE (posts s) (PerfRequestEx now curMs k b msg s)"
  unfolding PerfRequestEx_def
  by (auto intro!: checked_posts matched_posts simp: request_flows)

lemma posts_limit:
  assumes "flow t = flow s"
  shows "posts s (UpdateLimitStatus ev (new_ResAction (nextRef s) v 0 type b k e) r (t\<lparr>nextRef := Suc (nextRef s)\<rparr>))"
    (is "posts s (UpdateLimitStatus ev ?a r ?t)")
proof (rule posts_entries)
  show "postedTasks (UpdateLimitStatus ev ?a r ?t) = postedTasks s @ [(0, TaskUpdateLimitStatus ev ?a r)]"
    using assms by (simp add: UpdateLimitStatus_def postedTasks_def flow_def)
qed (use assms in \<open>simp_all add: UpdateLimitStatus_def flow_def block_def new_ResAction_def\<close>)

lemma flow_setLimits [simp]: "flow (setLimits c m s) = flow s"
  by (simp add: flow_def setLimits_def)

lemma SendLimitRequestEventOff_posts: "posts s (SendLimitRequestEventOff c r ev s)"
  unfolding SendLimitRequestEventOff_def Let_def
  by (auto intro!: posts_trans [OF posts_limit posts_flow] split: option.split)

lemma SendLimitRequestEventOn_posts: "posts s (SendLimitRequestEventOn c r v ev s)"
  unfolding SendLimitRequestEventOn_def Let_def
  by (auto intro!: posts_trans [OF posts_limit posts_flow] posts_limit)

lemma SendLimitRequestEvent_posts: "posts s (SendLimitRequestEvent c kv s)"
  unfolding SendLimitRequestEvent_def
  by (auto split: prod.split intro: posts_trans [OF posts_trans [OF SendLimitRequestEventOff_posts
        SendLimitRequestEventOff_posts] SendLimitRequestEventOn_posts])

lemma LimitRequest_posts: "posts s (LimitRequest c tags configs msg s)"
proof -
  have "posts s (fold (SendLimitRequestEvent c) kvs t)" if "posts s t" for kvs t
    using that
  proof (induction kvs arbitrary: t)
    case (Cons kv kvs)
    show ?case using Cons.IH [OF posts_trans [OF Cons.prems SendLimitRequestEvent_posts]] by simp
  qed simp
  then show ?thesis by (simp add: LimitRequest_def)
qed

lemma RequestDeviceMode_posts: "retE (posts s) (RequestDeviceMode mode b s)"
proof -
  have weak: "posts s (SetWeakInteractionStatus b s)" "posts s (SetPerformanceModeStatus b s)"
    by (simp_all add: SetWeakInteractionStatus_def SetPerformanceModeStatus_def posts_submit)
  have scene: "posts t (reportScenario ty nm b sc t)" for ty nm sc and t :: "'a SocPerf_scheme"
    by (rule posts_flow) (rule request_flows)
  show ?thesis
    unfolding RequestDeviceMode_def Let_def
    by (auto intro: weak scene posts_trans split: option.split)
qed

theorem request_posts: "retE (posts s) (request r s)"
proof (cases r)
  case (ReqPowerLimit b msg)
  then show ?thesis
    by (auto simp: PowerLimitBoost_def UpdatePowerLimitBoostFreq_def Let_def flow_def intro!: posts_submit_flow)
next
  case (ReqStatus b msg)
  have same: "flow (s\<lparr>perfRequestEnable := x\<rparr>) = flow s" for x by (simp add: flow_def)
  have "posts s (SetRequestStatus b msg s)"
  proof (cases "b \<or> \<not> enabled s")
    case True
    then show ?thesis
      by (intro posts_flow) (auto simp: SetRequestStatus_def ClearAllAliveRequest_def Let_def flow_def)
  next
    case False
    then have "SetRequestStatus b msg s = submit 0 TaskClearAllAliveRequest (s\<lparr>perfRequestEnable := False\<rparr>)"
      by (simp add: SetRequestStatus_def ClearAllAliveRequest_def ClearAllAliveRequest_wrap_def Let_def)
    then show ?thesis using posts_submit_flow [OF same] by simp
  qed
  then show ?thesis using ReqStatus by simp
qed (auto simp: PerfRequest_posts PerfRequestEx_posts LimitRequest_posts RequestDeviceMode_posts
    ThermalLimitBoost_def UpdateThermalLimitBoostFreq_def SetThermalLevel_def posts_submit flow_def intro: posts_flow)

lemma statisticsFunc_posts: "posts s (statisticsFunc s)"
proof -
  have "flow (ReportCmdIdStatistics s) = flow s" by (simp add: ReportCmdIdStatistics_def flow_def)
  moreover have "posts t (StartStatisticsTimer t)" for t :: "'a SocPerf_scheme"
    by (rule posts_entries [where w = "[(STATISTICS_REPORT_INTERVAL_US, TaskStatistics)]"])
      (simp_all add: StartStatisticsTimer_def SubmitStatisticsTask_def submit_h_def postedTasks_def block_nil)
  ultimately show ?thesis
    by (auto simp: statisticsFunc_def Let_def intro: posts_trans posts_flow)
qed

subsection \<open>The end of a closure\<close>

lemma weakInteractionOf_posts: "posts s (weakInteractionOf ia onOff s)"
proof -
  let ?t = "touchActions DEFAULT_CONFIG_MODE (GetModeCmdId (ia_cmdId ia) s) s"
  have "posts ?t (DoWeakInteraction (Some as) onOff type ?t)" for as type
  proof -
    let ?items = "weakItems ?t type onOff (as_id as) (nextRef ?t) (as_actionList as)"
    have zero: "ra_duration (it_resAction it) = 0" if "it \<in> set (weakItems u type onOff k r acs)" for it k r acs
      and u :: "'a SocPerfThreadWrap_scheme"
      using that by (induction u type onOff k r acs rule: weakItems.induct) (auto simp: Let_def dest: buildItems_items(2))
    have "block (nextRef ?t) (nextRef ?t + length ?items)
        (filter (\<lambda>e. carries (snd e)) ((if ?items = [] then [] else [(0, TaskDoFreqActionPack ?items)]) @ removals ?items []))"
      by (rule block_pack [OF weakItems_refs]) (simp_all add: zero)
    then show ?thesis
      by (intro posts_entries [where w = "if ?items = [] then [] else [(0, TaskDoFreqActionPack ?items)]"])
        (auto simp: DoWeakInteraction_def DoFreqActionPack_def Let_def removals_def postedTasks_def)
  qed
  moreover have "posts s ?t" by (rule posts_flow) (simp add: flow_def touchActions_def)
  ultimately show ?thesis
    unfolding weakInteractionOf_def Let_def
    by (cases "actionsAt DEFAULT_CONFIG_MODE (GetModeCmdId (ia_cmdId ia) s) s")
      (auto simp: DoWeakInteraction_def intro: posts_trans)
qed

text \<open>Only timers are cancelled.\<close>

lemma cancel_posts:
  assumes "sq.handles_ok s" and "h \<in> set (timers i s)"
  shows "posts s (cancel h s)"
proof (rule postsI [where w = "[]"])
  have "\<not> carries (qe_task e)" if "e \<in> set (socperfQueue s)" "qe_handle e = h" for e
  proof -
    have "(h, qe_task e) \<in> set (pendingOf s)" using that by (auto simp: pendingOf_def entryOf_def)
    moreover have "(h, TaskWeakInteractionTimer i) \<in> set (pendingOf s)"
      using assms(2) by (auto simp: timers_def sq.tasks_of_def)
    ultimately have "qe_task e = TaskWeakInteractionTimer i"
      using assms(1) unfolding sq.handles_ok_def by (meson eq_key_imp_eq_value)
    then show ?thesis by simp
  qed
  then have "filter matters (postedTasks (cancel h s)) = filter matters (postedTasks s)"
    unfolding postedTasks_def cancel_def by (auto simp: filter_map comp_def intro!: arg_cong [where f = "map _"] filter_cong)
  moreover have "subseq (postedTasks (cancel h s)) (postedTasks s)"
    by (auto simp: postedTasks_def cancel_def intro: subseq_map)
  ultimately show "grows matters (postedTasks s) [] (postedTasks (cancel h s))" by (simp add: grows_def)
qed (simp_all add: cancel_def acts_def stm_def block_nil)

lemma flow_setInterAction [simp]: "flow (setInterAction i ia s) = flow s"
  by (simp add: flow_def setInterAction_def)

lemma WeakInteraction_step_posts:
  assumes inv: "timerInv s" and i: "i < length (interAction s)"
  shows "posts s (WeakInteraction_step i s)"
proof -
  have start: "posts s (setInterAction i ia (snd (submit_h d (TaskWeakInteractionTimer i) s)))" for ia d
  proof -
    have "posts s (submit d (TaskWeakInteractionTimer i) s)" by (rule posts_submit) simp
    then show ?thesis unfolding submit_def by (rule posts_trans) (simp add: posts_flow)
  qed
  have stop: "posts s (setInterAction i ia (cancel h s))"
    if "ia_status (interAction s ! i) = BOOST_END_STATUS" "ia_timerTask (interAction s ! i) = Some h" for ia h
  proof -
    have "timers i s = [h]" using timerInvD(2) [OF inv i] that by (simp add: timer_ok_def)
    with timerInvD(1) [OF inv] have "posts s (cancel h s)" by (intro cancel_posts [where i = i]) simp_all
    then show ?thesis by (rule posts_trans) (simp add: posts_flow)
  qed
  have weak: "posts s (weakInteractionOf ia EVENT_OFF (setInterAction i ib s))" for ia ib
    by (rule posts_trans [OF posts_flow weakInteractionOf_posts]) simp
  show ?thesis
    unfolding WeakInteraction_step_def Let_def
    using start stop weak
    by (auto simp: submit_h_def split: option.split prod.split intro: posts_flow)
qed

lemma WeakInteraction_posts:
  assumes "timerInv s" and "typed_config s"
  shows "posts s (WeakInteraction s)"
proof -
  have "posts s (fold WeakInteraction_step [0..<n] s) \<and> loopEffect n s (fold WeakInteraction_step [0..<n] s)"
    if "n \<le> length (interAction s)" for n
    using that
  proof (induction n)
    case 0
    show ?case using assms(1) by (simp add: loopEffect_def list_all2_refl)
  next
    case (Suc n)
    let ?t = "fold WeakInteraction_step [0..<n] s"
    have t: "posts s ?t" "loopEffect n s ?t" using Suc by simp_all
    then have "timerInv ?t" "length (interAction ?t) = length (interAction s)"
      by (auto simp: loopEffect_def list_all2_lengthD)
    then have "posts ?t (WeakInteraction_step n ?t)" using Suc.prems by (intro WeakInteraction_step_posts) simp_all
    then show ?case using posts_trans [OF t(1)] loopEffect_step [OF t(2) _ assms(2)] Suc.prems by simp
  qed
  then show ?thesis by (simp add: WeakInteraction_def)
qed

lemma SendResStatus_posts:
  assumes inv: "midInv s"
  shows "okE (posts s) (SendResStatus s)"
proof -
  have wf: "wf_wrap s" and stat: "confInv s" "timerInv s" using inv by (simp_all add: midInv_def resInv_def)
  obtain u r where eq: "sendChanged s = u\<lparr>reports := r\<rparr>" and only: "onlyStatus s u"
    and m: "stm u = (\<lambda>j. map_option sync (stm s j))"
    using wf by (rule sendChanged_sync)
  note fr = onlyStatus_frame [OF only]
  have t: "timerInv (sendChanged s)" "typed_config (sendChanged s)"
    using stat static_cong [of "sendChanged s" s] by (simp_all add: eq fr confInv_def)
  have "posts s (sendChanged s)"
  proof (rule posts_same)
    show "postedTasks (sendChanged s) = postedTasks s" by (simp add: eq fr postedTasks_def)
    show "acts k ty (sendChanged s) = acts k ty s" for k ty
    proof -
      have "stm (sendChanged s) k = map_option sync (stm s k)" using m by (simp add: eq stm_def)
      then show ?thesis by (cases "stm s k") (simp_all add: acts_def actionsOf_def sync_def)
    qed
  qed (simp add: eq fr)
  then show ?thesis
    using posts_trans WeakInteraction_posts [OF t] by (simp add: SendResStatus_eq [OF wf])
qed

text \<open>A closure leaves a tidy state and takes no entry that carries actions from the queue.\<close>

definition tidies :: "'a SocPerfThreadWrap_scheme \<Rightarrow> 'a SocPerfThreadWrap_scheme \<Rightarrow> bool" where
  "tidies s s' \<longleftrightarrow> tidy [] [] s' \<and> (\<exists>w. grows matters (postedTasks s) w (postedTasks s'))"

lemma tidies_posts:
  assumes "tidy [] [] t" and "postedTasks t = postedTasks s" and "posts t s'"
  shows "tidies s s'"
  using tidy_posts [OF assms(1,3)] assms(2,3) unfolding tidies_def posts_def by auto

lemma tidies_same: "tidy [] [] t \<Longrightarrow> postedTasks t = postedTasks s \<Longrightarrow> tidies s t"
  by (rule tidies_posts [OF _ _ posts_refl])

lemma then_send_tidy:
  assumes "okE (\<lambda>t. midInv t \<and> tidy [] [] t \<and> postedTasks t = postedTasks s) m"
  shows "okE (tidies s) (bindE m SendResStatus)"
  by (rule okE_bind [OF assms]) (auto intro: okE_mono [OF SendResStatus_posts] tidies_posts)

subsection \<open>The closures\<close>

text \<open>What a closure may do to live actions besides adding and removing its own: empty whole lists.\<close>

definition thins :: "'a SocPerfThreadWrap_scheme \<Rightarrow> 'a SocPerfThreadWrap_scheme \<Rightarrow> bool" where
  "thins s s' \<longleftrightarrow> socperfQueue s' = socperfQueue s \<and> nextRef s' = nextRef s
     \<and> (\<forall>k t. typeRange t \<longrightarrow> acts k t s' = acts k t s \<or> acts k t s' = [])"

lemma thins_refl: "thins s s"
  by (simp add: thins_def)

lemma thins_trans: "thins s t \<Longrightarrow> thins t u \<Longrightarrow> thins s u"
  unfolding thins_def by metis

lemma tidy_thins: "tidy own rem s \<Longrightarrow> thins s s' \<Longrightarrow> tidy own rem s'"
  unfolding thins_def by (blast intro: tidy_acts work_same)

lemma thins_kept:
  assumes "onlyStatus s s'" and "\<And>j. map_option kept (stm s' j) = map_option kept (stm s j)"
  shows "thins s s'"
  using onlyStatus_wrapFrame [OF assms(1)] acts_kept [OF assms(2)] by (simp add: thins_def wrapFrame_frame(5,8))

lemma clearEntry_thins:
  assumes inv: "midInv s"
  shows "okE (\<lambda>s'. midInv s' \<and> thins s s') (clearEntry k s)"
proof -
  have "retE (thins s) (clearEntry k s)"
  proof (cases "stm s k")
    case None
    then show ?thesis by (simp add: clearEntry_def statusAt_stm thins_refl)
  next
    case (Some st)
    have r: "resInv UNIV s" using inv by (simp add: midInv_def)
    have wf: "wf_status st" using r wf_wrap_resIds [OF _ Some] by (simp add: resInv_def)
    have "okE (\<lambda>s'. resInv UNIV s' \<and> onlyStatus s s' \<and>
        (\<forall>j. map_option kept (stm s' j) = map_option kept (((stm s)(k \<mapsto> setActionList ACTION_TYPE_PERF [] st)) j)))
      (clearEntry k s)"
      unfolding clearEntry_def statusAt_stm Some option.case
      by (rule UpdateCandidatesValue_inv [OF r Some]) simp_all
    then have "okE (thins s) (clearEntry k s)"
    proof (rule okE_mono, elim conjE)
      fix s' assume only: "onlyStatus s s'"
        and kept: "\<forall>j. map_option kept (stm s' j) = map_option kept (((stm s)(k \<mapsto> setActionList ACTION_TYPE_PERF [] st)) j)"
      have "acts j t s' = acts j t s \<or> acts j t s' = []" if t: "typeRange t" for j t
      proof (cases "j = k")
        case True
        have "map_option kept (stm s' k) = Some (kept (setActionList ACTION_TYPE_PERF [] st))"
          using spec [OF kept, of k] by simp
        then have "acts k t s' = (rs_resActionList st)[0 := []] ! nat t"
          by (cases "stm s' k") (simp_all add: acts_def kept_def setActionList_def actionsOf_def)
        then show ?thesis
          using True wf by (cases "nat t = 0") (simp_all add: acts_def Some actionsOf_def wf_status_def)
      next
        case False
        then show ?thesis using acts_kept [of s' j s] spec [OF kept, of j] by simp
      qed
      then show "thins s s'" using onlyStatus_wrapFrame [OF only] by (simp add: thins_def wrapFrame_frame(5,8))
    qed
    then show ?thesis by (auto simp: okE_iff)
  qed
  with clearEntry_mid [OF inv, of k] show ?thesis by (auto simp: okE_iff)
qed

interpretation thin_loop: guarded_loop clearEntry midInv "\<lambda>s k. True" thins
  by unfold_locales (auto intro: clearEntry_thins thins_refl thins_trans)

lemma arbitrate_thins:
  assumes "resInv K s"
  shows "okE (thins s) (foldE arbitrateEntry ks s)"
proof -
  have "okE (\<lambda>t. (\<exists>K. resInv K t) \<and> thins s t) (foldE arbitrateEntry ks s)"
  proof (rule okE_foldE)
    show "(\<exists>K. resInv K s) \<and> thins s s" using assms thins_refl by blast
  next
    fix k t assume t: "(\<exists>K. resInv K t) \<and> thins s t"
    then obtain L where L: "resInv L t" by blast
    show "okE (\<lambda>t. (\<exists>K. resInv K t) \<and> thins s t) (arbitrateEntry k t)"
    proof (cases "stm t k = None")
      case True
      then show ?thesis using t by (simp add: arbitrateEntry_def statusAt_stm)
    next
      case False
      then obtain st where "stm t k = Some st" by blast
      then have eq: "arbitrateEntry k t = ArbitrateCandidate k t" by (simp add: arbitrateEntry_def statusAt_stm)
      show ?thesis
        unfolding eq
      proof (rule okE_mono [OF ArbitrateCandidate_inv [OF L False]], elim conjE, intro conjI exI)
        fix u assume "onlyStatus t u" "\<forall>j. map_option kept (stm u j) = map_option kept (stm t j)"
        then have "thins t u" by (intro thins_kept) simp_all
        with t show "thins s u" by (blast intro: thins_trans)
      qed
    qed
  qed
  then show ?thesis by (rule okE_mono) simp
qed

lemma wrapFrame_posted: "wrapFrame s s' \<Longrightarrow> postedTasks s' = postedTasks s"
  by (simp add: postedTasks_def wrapFrame_frame(5))

lemma thins_posted: "thins s s' \<Longrightarrow> postedTasks s' = postedTasks s"
  by (simp add: thins_def postedTasks_def)

lemma limit_tidy:
  assumes mid: "midInv s" and it: "typed_action a" "0 \<le> ra_type a" "ra_type a < ACTION_TYPE_MAX"
    and tidy: "tidy [\<lparr>it_resId = k, it_resAction = a\<rparr>] [] s" and dur: "ra_duration a = 0"
  shows "okE (\<lambda>s'. midInv s' \<and> tidy [] [] s' \<and> postedTasks s' = postedTasks s) (DoFreqAction k a s)"
    and "okE (\<lambda>s'. midInv s' \<and> tidy [] [] s' \<and> postedTasks s' = postedTasks s) (DoFreqActionLevel k a s)"
proof -
  have other: "tidy [\<lparr>it_resId = j, it_resAction = b\<rparr>] [] s" if "ra_ref b = ra_ref a" "ra_duration b = 0" for j b
    using tidy that by (simp add: tidy_def finite_due_def)
  have add: "okE (\<lambda>s'. midInv s' \<and> tidy [] [] s' \<and> postedTasks s' = postedTasks s) (UpdateResActionList j b False s)"
    if "typed_item \<lparr>it_resId = j, it_resAction = b\<rparr>" "j \<in> resIds s" "ra_ref b = ra_ref a" "ra_duration b = 0" for j b
  proof -
    note item = that
    obtain u where u: "UpdateResActionList j b False s = Inr u" "actionEffect j False b s u" "midInv u" "wf_wrap s" "wrapFrame s u"
      using actionEffect_next [OF mid item(1), of False] item(2) by auto
    have "tidy [] [] u" using tidy_instant [OF other [OF item(3,4), of j] _ u(4) item(1)] u(2) by simp
    with u(1,3) wrapFrame_posted [OF u(5)] show ?thesis by simp
  qed
  have none: "tidy [] [] s" using tidy by (rule tidy_skip)
  show "okE (\<lambda>s'. midInv s' \<and> tidy [] [] s' \<and> postedTasks s' = postedTasks s) (DoFreqAction k a s)"
    using add [of k a] it dur mid none by (simp add: DoFreqAction_def typed_item_def)
  show "okE (\<lambda>s'. midInv s' \<and> tidy [] [] s' \<and> postedTasks s' = postedTasks s) (DoFreqActionLevel k a s)"
  proof (cases "k - RES_ID_ADDITION \<in> resIds s \<and> GetResValueByLevel (k - RES_ID_ADDITION) (to_int32 (ra_value a)) s \<noteq> None")
    case False
    then show ?thesis using mid none by (auto simp: DoFreqActionLevel_def Let_def)
  next
    case True
    then obtain v where k: "k - RES_ID_ADDITION \<in> resIds s"
      and v: "GetResValueByLevel (k - RES_ID_ADDITION) (to_int32 (ra_value a)) s = Some v" by blast
    have "avail_ok s" using mid by (simp add: midInv_def confInv_def)
    then have "typed_item \<lparr>it_resId = k - RES_ID_ADDITION, it_resAction = a\<lparr>ra_value := v\<rparr>\<rparr>"
      using it GetResValueByLevel_in [OF v] by (simp add: typed_item_def typed_action_def)
    from add [OF this k] dur k v show ?thesis by (simp add: DoFreqActionLevel_def Let_def)
  qed
qed

text \<open>The items a task brings and the items it takes away.\<close>

fun bringing :: "Task \<Rightarrow> ResActionItem list" where
  "bringing (TaskDoFreqActionPack items) = items"
| "bringing (TaskUpdateLimitStatus ev a k) = [\<lparr>it_resId = k, it_resAction = a\<rparr>]"
| "bringing _ = []"

fun taking :: "Task \<Rightarrow> ResActionItem list" where
  "taking (TaskPostDelay items) = items"
| "taking _ = []"

fun limit_endless :: "Task \<Rightarrow> bool" where
  "limit_endless (TaskUpdateLimitStatus ev a k) = (ra_duration a = 0)"
| "limit_endless _ = True"

lemma switch_tidy:
  fixes s s' :: "'a SocPerfThreadWrap_scheme"
  assumes mid: "midInv s" and t: "tidy [] [] s"
    and s': "resourceNodeInfo s' = resourceNodeInfo s" "flow s' = flow s"
    and run: "okE midInv (foldE arbitrateEntry (map fst (resStatusInfo s')) s')"
  shows "okE (tidies s) (bindE (foldE arbitrateEntry (map fst (resStatusInfo s')) s') SendResStatus)"
proof (rule then_send_tidy)
  have "resInv {} s'" using mid resInv_switch [OF _ s'(1), of UNIV] s'(2) by (simp add: midInv_def flow_def)
  from arbitrate_thins [OF this, of "map fst (resStatusInfo s')"] run
  show "okE (\<lambda>u. midInv u \<and> tidy [] [] u \<and> postedTasks u = postedTasks s) (foldE arbitrateEntry (map fst (resStatusInfo s')) s')"
    using tidy_thins [OF tidy_posts [OF t posts_flow [OF s'(2)]]] thins_posted [of s'] s'(2)
    by (auto simp: okE_iff flow_def postedTasks_def)
qed

lemma execTask_tidy:
  assumes inv: "wrapInv s" and ok: "task_ok s t" and no: "\<And>j. t \<noteq> TaskWeakInteractionTimer j"
    and tidy: "tidy (bringing t) (taking t) s" and lim: "limit_endless t"
  shows "okE (tidies s) (execTask t s)"
proof -
  have mid: "midInv s" using inv by (rule wrapInv_mid)
  have midD: "timerInv s" "typed_config s" using mid by (simp_all add: midInv_def confInv_def)
  show ?thesis
  proof (cases t)
    case (TaskDoFreqActionPack items)
    have "okE (\<lambda>u. midInv u \<and> tidy [] [] u) (foldE doPackItem items s)"
      using ok tidy TaskDoFreqActionPack by (intro pack_tidy [OF mid]) simp_all
    moreover have "okE (\<lambda>u. midInv u \<and> wrapFrame s u) (foldE doPackItem items s)"
      using ok TaskDoFreqActionPack by (intro pack_loop.loop_ok [OF mid]) simp
    ultimately have "okE (\<lambda>u. midInv u \<and> tidy [] [] u \<and> postedTasks u = postedTasks s) (foldE doPackItem items s)"
      using wrapFrame_posted by (auto simp: okE_iff)
    then show ?thesis using TaskDoFreqActionPack by (simp add: doFreqActionPackFunc_def then_send_tidy)
  next
    case (TaskPowerLimitBoost b)
    have "okE midInv (foldE arbitrateEntry (map fst (resStatusInfo (s\<lparr>powerLimitBoost := b\<rparr>))) (s\<lparr>powerLimitBoost := b\<rparr>))"
      by (rule switch_mid [OF mid]) simp_all
    then show ?thesis using TaskPowerLimitBoost tidy
        switch_tidy [OF mid, of "s\<lparr>powerLimitBoost := b\<rparr>"]
      by (simp add: updatePowerLimitBoostFreqFunc_def Let_def flow_def)
  next
    case (TaskThermalLimitBoost b)
    have "okE midInv (foldE arbitrateEntry (map fst (resStatusInfo (s\<lparr>thermalLimitBoost := b\<rparr>))) (s\<lparr>thermalLimitBoost := b\<rparr>))"
      by (rule switch_mid [OF mid]) simp_all
    then show ?thesis using TaskThermalLimitBoost tidy
        switch_tidy [OF mid, of "s\<lparr>thermalLimitBoost := b\<rparr>"]
      by (simp add: updateThermalLimitBoostFreqFunc_def Let_def flow_def)
  next
    case (TaskUpdateLimitStatus ev a k)
    have a: "typed_action a" "0 \<le> ra_type a" "ra_type a < ACTION_TYPE_MAX" "ra_duration a = 0"
      "tidy [\<lparr>it_resId = k, it_resAction = a\<rparr>] [] s"
      using ok lim tidy TaskUpdateLimitStatus by simp_all
    have "okE (\<lambda>u. midInv u \<and> tidy [] [] u \<and> postedTasks u = postedTasks s) (if ev = INNER_EVENT_ID_DO_FREQ_ACTION then DoFreqAction k a s
        else if ev = INNER_EVENT_ID_DO_FREQ_ACTION_LEVEL then DoFreqActionLevel k a s else Inr s)"
      using limit_tidy [OF mid a(1-3,5,4)] tidy_skip [OF a(5)] mid by simp
    from then_send_tidy [OF this] show ?thesis
      unfolding TaskUpdateLimitStatus execTask.simps updateLimitStatusFunc_def bindE_assoc [symmetric]
    proof (rule okE_bind)
      fix x :: "'a SocPerfThreadWrap_scheme"
      assume x: "tidies s x"
      have same: "postedTasks (touchStatus k x) = postedTasks x" by (simp add: postedTasks_def touchStatus_def)
      moreover have "posts x (touchStatus k x)"
        by (rule posts_same [OF _ same]) (simp_all add: acts_def stm_touchStatus, simp_all add: touchStatus_def)
      ultimately show "okE (tidies s) (Inr (if ra_onOff a \<noteq> EVENT_OFF then touchStatus k x else x))"
        using x tidy_posts [of "[]" "[]" x] by (simp add: tidies_def)
    qed
  next
    case TaskClearAllAliveRequest
    have "okE (\<lambda>s'. midInv s' \<and> thins s s') (foldE clearEntry (map fst (resStatusInfo s)) s)"
      by (rule thin_loop.loop_ok [OF mid]) simp
    then have "okE (\<lambda>u. midInv u \<and> tidy [] [] u \<and> postedTasks u = postedTasks s) (foldE clearEntry (map fst (resStatusInfo s)) s)"
      using tidy TaskClearAllAliveRequest by (auto intro: okE_mono tidy_thins thins_posted)
    then show ?thesis using TaskClearAllAliveRequest by (simp add: clearAllAliveRequestFunc_def then_send_tidy)
  next
    case (TaskPerformanceMode b)
    then show ?thesis using tidies_posts [OF _ refl posts_flow, of s "s\<lparr>performanceModeStatus := b\<rparr>"] tidy by (simp add: flow_def)
  next
    case (TaskWeakInteractionStatus b)
    let ?t = "s\<lparr>weakInteractionStatus := b\<rparr>"
    have "timerInv ?t" "typed_config ?t"
      using midD static_cong [of ?t s] by (simp_all add: typed_config_def actionsAt_def modeActions_def)
    then have "posts s (weakInteractionFunc b s)"
      unfolding weakInteractionFunc_def by (intro posts_trans [OF posts_flow WeakInteraction_posts]) (simp_all add: flow_def)
    then show ?thesis using TaskWeakInteractionStatus tidy by (simp add: tidies_posts)
  next
    case (TaskPostDelay items)
    let ?m = "foldE (\<lambda>it. UpdateResActionList (it_resId it) (it_resAction it) True) items s"
    have "okE (\<lambda>u. midInv u \<and> tidy [] [] u) ?m"
      using ok tidy TaskPostDelay by (intro removal_tidy [OF mid]) simp_all
    moreover have "okE (\<lambda>u. midInv u \<and> wrapFrame s u) ?m"
      using ok TaskPostDelay by (intro delayed_loop.loop_ok [OF mid]) simp
    ultimately have "okE (\<lambda>u. midInv u \<and> tidy [] [] u \<and> postedTasks u = postedTasks s) ?m"
      using wrapFrame_posted by (auto simp: okE_iff)
    then show ?thesis using TaskPostDelay by (simp add: postDelayTaskFunc_def then_send_tidy)
  next
    case TaskStatistics
    then show ?thesis using tidy by (simp add: tidies_same)
  qed (use no ok in auto)
qed

lemma weakInteractionTimer_tidy:
  assumes "tidy [] [] s"
  shows "retE (tidies s) (weakInteractionTimer i s)"
  unfolding weakInteractionTimer_def Let_def
  by (rule retE_skip) (simp add: tidies_posts [OF assms] posts_trans [OF posts_flow weakInteractionOf_posts])

subsection \<open>Taking an entry from the queue\<close>

lemma distinct_move: "distinct (concat (map f (u @ e # v))) \<longleftrightarrow> distinct (f e @ concat (map f (u @ v)))"
  by auto

lemma tidy_dequeue:
  assumes tidy: "tidy [] [] s" and run: "runnable (socperfQueue s) n"
  defines "t \<equiv> qe_task (socperfQueue s ! n)"
  shows "tidy (bringing t) (taking t) (dequeue n s)" and "limit_endless t"
proof -
  let ?q = "socperfQueue s"
  let ?w = "\<lambda>q. filter (\<lambda>e. carries (snd e)) (map (\<lambda>e. (qe_delay e, qe_task e)) q)"
  let ?e = "(qe_delay (?q ! n), t)"
  let ?u = "?w (take n ?q)" and ?v = "?w (drop (Suc n) ?q)"
  have n: "n < length ?q" and early: "\<forall>x\<in>set ?u. 0 < fst x"
    using run by (auto simp: runnable_def list_all_iff)
  have "work s = ?w (take n ?q @ ?q ! n # drop (Suc n) ?q)"
    using n by (simp add: work_def postedTasks_def id_take_nth_drop [symmetric])
  then have before: "work s = ?u @ ?w [?q ! n] @ ?v" by simp
  have after: "work (dequeue n s) = ?u @ ?v" by (simp add: work_def postedTasks_def dequeue_def)
  have same: "nextRef (dequeue n s) = nextRef s" "acts k ty (dequeue n s) = acts k ty s" for k ty
    by (simp_all add: dequeue_def acts_def stm_def)
  show "tidy (bringing t) (taking t) (dequeue n s)" and "limit_endless t"
  proof (atomize (full), cases "carries t")
    case False
    then have "work (dequeue n s) = work s" by (simp add: before after t_def)
    then have "tidy [] [] (dequeue n s)" using tidy by (simp add: tidy_def same)
    moreover have "bringing t = []" "taking t = []" "limit_endless t" using False by (cases t; simp)+
    ultimately show "tidy (bringing t) (taking t) (dequeue n s) \<and> limit_endless t" by simp
  next
    case True
    then have w: "work s = ?u @ ?e # ?v" by (simp add: before t_def)
    have fol: "followed (?u @ ?v)" "followed (?e # ?v)"
      using tidy early unfolding tidy_def w by (blast intro: followed_take)+
    have refs: "map refOf (bringing t) = carriedRefs ?e" by (cases t) simp_all
    have gone: "keyOf ` set (dueItems ?e) \<subseteq> keyOf ` set (taking t)" by (cases t) auto
    have fin: "finite_due (bringing t) (due (?u @ ?v))" and lim: "limit_endless t"
      using fol(2) by (cases t; auto simp: finite_due_def)+
    have t: "distinct (pendingRefs (work s))" "\<forall>r\<in>set (pendingRefs (work s)). r < nextRef s"
      and lists: "\<forall>k ty. typeRange ty \<longrightarrow>
        tidyList (set (pendingRefs (work s))) (nextRef s) (due (work s)) k ty (acts k ty s)"
      using tidy by (simp_all add: tidy_def)
    have sets: "set (map refOf (bringing t) @ pendingRefs (?u @ ?v)) = set (pendingRefs (work s))"
      "due (work s) \<subseteq> keyOf ` set (taking t) \<union> due (?u @ ?v)"
      unfolding refs w using gone by auto
    have "distinct (map refOf (bringing t) @ pendingRefs (?u @ ?v))"
      using t(1) unfolding refs w distinct_move .
    then have "tidy (bringing t) (taking t) (dequeue n s)"
      unfolding tidy_def after same sets(1) using t(2) fol(1) fin lists tidyList_mono [OF _ _ _ sets(2)] by blast
    with lim show "tidy (bringing t) (taking t) (dequeue n s) \<and> limit_endless t" by blast
  qed
qed

subsection \<open>Every reachable state\<close>

lemma init_queue:
  "socperfQueue (initResourceNodeInfoFunc s) = socperfQueue s" "nextRef (initResourceNodeInfoFunc s) = nextRef s"
proof -
  have fold: "socperfQueue (fold initResStatusEntry xs t) = socperfQueue t \<and> nextRef (fold initResStatusEntry xs t) = nextRef t"
    for xs and t :: "'a SocPerfThreadWrap_scheme"
    by (induction xs arbitrary: t) (auto simp: initResStatusEntry_def split: option.split)
  let ?t = "fold initResStatusEntry (resourceNodeInfo s) s"
  obtain r where "initResourceNodeInfoFunc s = ?t\<lparr>reports := r\<rparr>"
    using sendAll_eq unfolding initResourceNodeInfoFunc_def InitResStatus_eq by blast
  then show "socperfQueue (initResourceNodeInfoFunc s) = socperfQueue s" "nextRef (initResourceNodeInfoFunc s) = nextRef s"
    using fold [of "resourceNodeInfo s" s] by simp_all
qed

lemma tidy_init:
  assumes "tidy [] [] s" and "startInv s"
  shows "tidy [] [] (initResourceNodeInfoFunc s)"
proof (rule tidy_acts [OF assms(1)])
  have new: "actionsOf t new_ResStatus = []" if "typeRange t" for t
  proof -
    have "t \<in> {0, 1, 2, 3, 4}" using that by (auto simp: typeRange_def)
    then show ?thesis by (auto simp: actionsOf_def new_ResStatus_def)
  qed
  show "acts k t (initResourceNodeInfoFunc s) = acts k t s \<or> acts k t (initResourceNodeInfoFunc s) = []" if "typeRange t" for k t
    using new [OF that] by (simp add: acts_def initResourceNodeInfoFunc_inv(2) [OF assms(2)])
  show "work (initResourceNodeInfoFunc s) = work s" by (rule work_same) (rule init_queue(1))
  show "nextRef (initResourceNodeInfoFunc s) = nextRef s" by (rule init_queue(2))
qed

lemma runNext_tidy:
  assumes inv: "sysInv h s" and tidy: "tidy [] [] s" and run: "runnable (socperfQueue s) n"
  shows "retE (tidies (dequeue n s)) (runNext n s)"
proof -
  let ?t = "qe_task (socperfQueue s ! n)"
  note deq = tidy_dequeue [OF tidy run]
  have n: "n < length (socperfQueue s)" using run by (simp add: runnable_def)
  show ?thesis
  proof (cases "bootInv h s")
    case True
    then obtain e q where q: "socperfQueue s = e # q" "qe_task e = TaskInitResourceNodeInfo" "qe_delay e = 0"
      by (auto simp: bootInv_def)
    have n0: "n = 0" using run q by (cases n) (simp_all add: runnable_def)
    have "tidy [] [] (dequeue 0 s)" using deq(1) by (simp add: n0 q)
    moreover have "startInv (dequeue 0 s)" using True by (simp add: bootInv_def)
    moreover have "postedTasks (initResourceNodeInfoFunc (dequeue 0 s)) = postedTasks (dequeue 0 s)"
      by (simp add: postedTasks_def init_queue(1))
    ultimately show ?thesis by (simp add: runNext_def runTask_def n0 q tidy_init tidies_same)
  next
    case False
    then have inv': "wrapInv s" using inv by (simp add: sysInv_def runInv_def)
    show ?thesis
    proof (cases "?t = TaskStatistics \<or> (\<exists>i. ?t = TaskWeakInteractionTimer i)")
      case True
      then show ?thesis
        using deq(1) tidies_posts [OF _ refl statisticsFunc_posts] weakInteractionTimer_tidy
        by (auto simp: runNext_def runTask_def)
    next
      case False
      have p: "n < length (pendingOf s)" "snd (pendingOf s ! n) = ?t"
        using n by (simp_all add: pendingOf_def entryOf_def)
      have "okE (tidies (dequeue n s)) (execTask ?t (dequeue n s))"
        using False deq by (intro execTask_tidy dequeue_inv [OF inv' p]) blast+
      then show ?thesis using False by (auto simp: runNext_def runTask_def okE_iff)
    qed
  qed
qed

lemma sysStep_tidy:
  assumes "sysInv h s" and "tidy [] [] s" and "sysStep s s'"
  shows "tidy [] [] s'"
  using assms(3)
proof (cases rule: sysStep.cases)
  case (request_step r)
  then have "posts s s'" using request_posts [of s r] by simp
  with assms(2) show ?thesis by (rule tidy_posts)
next
  case (closure_step n)
  then show ?thesis using runNext_tidy [OF assms(1,2)] by (fastforce simp: tidies_def)
qed

lemma reachable_tidy:
  assumes "reachable s0 s" and "sysInv h s0" and "tidy [] [] s0"
  shows "tidy [] [] s"
  using assms
proof (induction rule: reachable.induct)
  case (reach_step s s')
  then show ?case using sysStep_tidy reachable_inv by blast
qed

text \<open>\<open>Init\<close> leaves a tidy state: only the first closure and the statistics are pending.\<close>

lemma empty_tidy: "resStatusInfo s = [] \<Longrightarrow> work s = [] \<Longrightarrow> tidy [] [] s"
  by (simp add: tidy_def finite_due_def tidyList_def acts_def stm_def ptrAt_def)

lemma CopyEvent_flow: "retE (\<lambda>s'. flow s' = flow s) (CopyEvent a b s)"
  by (auto simp: CopyEvent_def Let_def flow_def intro!: retE_skip split: option.split)

lemma CompleteEvent_flow:
  fixes s :: "'a SocPerf_scheme"
  shows "retE (\<lambda>s'. flow s' = flow s) (CompleteEvent s)"
  unfolding CompleteEvent_def
proof (rule retE_bind [OF CopyEvent_flow])
  fix x :: "'a SocPerf_scheme"
  assume "flow x = flow (touchMode DEFAULT_CONFIG_MODE s)"
  then have "flow x = flow s" by (simp add: flow_def touchMode_def)
  then show "retE (\<lambda>s'. flow s' = flow s)
      (CopyEvent PERF_REQUEST_CMD_ID_EVENT_FLING PERF_REQUEST_CMD_ID_EVENT_DRAG x)"
    using CopyEvent_flow [of x PERF_REQUEST_CMD_ID_EVENT_FLING PERF_REQUEST_CMD_ID_EVENT_DRAG] by simp
qed

lemma Init_tidy:
  assumes "Init configInit c0 = Inr (True, s)"
  shows "tidy [] [] s"
proof -
  obtain c t where t: "CompleteEvent ((InitThreadWraps (CreateThreadWraps c))\<lparr>enabled := True\<rparr>) = Inr t"
      "s = StartStatisticsTimer t"
    using assms by (auto simp: Init_def bindE_Inr_iff split: if_splits)
  have "flow t = flow ((InitThreadWraps (CreateThreadWraps c))\<lparr>enabled := True\<rparr>)"
    using CompleteEvent_flow [of "(InitThreadWraps (CreateThreadWraps c))\<lparr>enabled := True\<rparr>"] t(1) by simp
  then have "resStatusInfo t = []" "work t = []"
    by (simp_all add: flow_def work_def postedTasks_def InitThreadWraps_def InitResourceNodeInfo_def CreateThreadWraps_def)
  then have "tidy [] [] t" by (rule empty_tidy)
  moreover have "posts t (StartStatisticsTimer t)"
    by (rule posts_entries [where w = "[(STATISTICS_REPORT_INTERVAL_US, TaskStatistics)]"])
      (simp_all add: StartStatisticsTimer_def SubmitStatisticsTask_def submit_h_def postedTasks_def block_nil)
  ultimately show ?thesis unfolding t(2) by (rule tidy_posts)
qed

subsection \<open>Removals that are due\<close>

lemma tidy_refsDistinct: "tidy own rem s \<Longrightarrow> refsDistinct s"
  by (simp add: tidy_def tidyList_def refsDistinct_def liveRefs_acts typeRange_def)

lemma tidy_pending:
  assumes tidy: "tidy [] [] s" and t: "typeRange t" and a: "a \<in> set (acts k t s)" and d: "ra_duration a \<noteq> 0"
  obtains n items it where "n < length (socperfQueue s)" and "qe_task (socperfQueue s ! n) = TaskPostDelay items"
    and "qe_delay (socperfQueue s ! n) = delayOfDuration (ra_duration a)"
    and "it \<in> set items" and "it_resId it = k" and "ra_type (it_resAction it) = t" and "refOf it = ra_ref a"
proof -
  have "(k, t, ra_ref a, ra_duration a) \<in> due (work s)"
    using tidy t a d by (simp add: tidy_def tidyList_def)
  then obtain e it where e: "e \<in> set (work s)" "it \<in> set (dueItems e)" "keyOf it = (k, t, ra_ref a, ra_duration a)" by auto
  obtain n where n: "n < length (socperfQueue s)" "e = (qe_delay (socperfQueue s ! n), qe_task (socperfQueue s ! n))"
    using e(1) by (auto simp: work_def postedTasks_def in_set_conv_nth)
  obtain items where "qe_task (socperfQueue s ! n) = TaskPostDelay items"
    using e(2) by (cases "qe_task (socperfQueue s ! n)") (simp_all add: n(2))
  with n e(2,3) show thesis by (intro that [of n items it]) (auto simp: keyOf_def)
qed

text \<open>When the closure of a removal runs, its actions end.\<close>

lemma removal_runs:
  assumes inv: "wrapInv s" and tidy: "tidy [] [] s" and run: "runnable (socperfQueue s) n"
    and task: "qe_task (socperfQueue s ! n) = TaskPostDelay items"
  shows "okE (\<lambda>s'. \<forall>it\<in>set items. removed s' it) (runNext n s)"
proof -
  have p: "n < length (pendingOf s)" "snd (pendingOf s ! n) = TaskPostDelay items"
    using run task by (simp_all add: runnable_def pendingOf_def entryOf_def)
  have d: "wrapInv (dequeue n s)" "task_ok (dequeue n s) (TaskPostDelay items)"
    using dequeue_inv [OF inv p] by blast+
  have "tidy [] items (dequeue n s)" using tidy_dequeue(1) [OF tidy run] by (simp add: task)
  note dist = tidy_refsDistinct [OF this]
  have "\<forall>it\<in>set items. typed_item it \<and> it_resId it \<in> resIds (dequeue n s)" using d(2) by simp
  from postDelayTaskFunc_removes [OF wrapInv_mid [OF d(1)] this dist]
  show ?thesis by (auto simp: runNext_def runTask_def task okE_iff)
qed

subsection \<open>Every boost ends\<close>

text \<open>The service without further requests: closures run, in an order the queue allows.\<close>

inductive runsTo :: "SocPerf \<Rightarrow> SocPerf \<Rightarrow> bool" where
  runs_stop: "runsTo s s"
| runs_next: "runnable (socperfQueue s) n \<Longrightarrow> runNext n s = Inr t \<Longrightarrow> runsTo t u \<Longrightarrow> runsTo s u"

text \<open>The entries to be run before an entry can be run.\<close>

definition urgent :: "(int \<times> Task) list \<Rightarrow> nat" where
  "urgent w = length (filter (\<lambda>e. fst e \<le> 0) w)"

lemma urgent_drop: "subseq w (u @ v) \<Longrightarrow> fst e \<le> 0 \<Longrightarrow> urgent w < urgent (u @ e # v)"
  using subseq_filter_length [of w "u @ v" "\<lambda>e. fst e \<le> 0"] by (simp add: urgent_def)

lemma posted_nth:
  assumes "postedTasks s = us @ e # vs"
  shows "length us < length (socperfQueue s)" and "qe_task (socperfQueue s ! length us) = snd e"
    and "\<forall>x\<in>set us. 0 < fst x \<Longrightarrow> runnable (socperfQueue s) (length us)"
    and "postedTasks (dequeue (length us) s) = us @ vs"
proof -
  let ?q = "socperfQueue s" and ?f = "\<lambda>e. (qe_delay e, qe_task e)"
  have q: "map ?f ?q = us @ e # vs" using assms by (simp add: postedTasks_def)
  then have "length ?q = length (us @ e # vs)" by (metis length_map)
  then show n: "length us < length ?q" by simp
  have "?f (?q ! length us) = e" using q n by (metis (no_types, lifting) nth_append_length nth_map)
  then show "qe_task (?q ! length us) = snd e" by force
  have us: "map ?f (take (length us) ?q) = us" and vs: "map ?f (drop (Suc (length us)) ?q) = vs"
    using q by (simp_all flip: take_map drop_map)
  then show "postedTasks (dequeue (length us) s) = us @ vs" by (simp add: postedTasks_def dequeue_def)
  show "runnable ?q (length us)" if "\<forall>x\<in>set us. 0 < fst x"
  proof -
    have "\<forall>x\<in>set (map ?f (take (length us) ?q)). 0 < fst x" unfolding us by (rule that)
    then show ?thesis using n by (simp add: runnable_def list_all_iff)
  qed
qed

lemma removal_reached:
  assumes "sysInv h s" and "tidy [] [] s" and "postedTasks s = xs @ (d, TaskPostDelay items) # ys"
  shows "\<exists>s'. runsTo s s' \<and> (\<forall>it\<in>set items. removed s' it)"
  using assms
proof (induction "urgent xs" arbitrary: s xs ys rule: less_induct)
  case less
  show ?case
  proof (cases "\<exists>e\<in>set xs. fst e \<le> 0")
    case True
    then obtain us e vs where xs: "xs = us @ e # vs" "fst e \<le> 0" "\<forall>x\<in>set us. \<not> fst x \<le> 0"
      by (rule split_list_first_propE)
    then have p: "postedTasks s = us @ e # vs @ (d, TaskPostDelay items) # ys" using less.prems(3) by simp
    note at = posted_nth [OF p]
    have run: "runnable (socperfQueue s) (length us)" using at(3) xs(3) by (simp add: not_le)
    obtain t where t: "runNext (length us) s = Inr t" "sysInv h t"
      using sysInv_closure [OF less.prems(1) run] by (auto simp: okE_iff)
    then have "tidies (dequeue (length us) s) t" using runNext_tidy [OF less.prems(1,2) run] by simp
    then obtain w where tidy: "tidy [] [] t"
      and w: "grows matters ((us @ vs) @ (d, TaskPostDelay items) # ys) w (postedTasks t)"
      by (auto simp: tidies_def at(4))
    obtain a b where ab: "postedTasks t = a @ (d, TaskPostDelay items) # b" "subseq a (us @ vs)"
      using w by (rule grows_entry) simp
    have "urgent a < urgent xs" unfolding xs(1) using ab(2) xs(2) by (rule urgent_drop)
    from less.hyps [OF this t(2) tidy ab(1)] show ?thesis using runs_next [OF run t(1)] by blast
  next
    case False
    note at = posted_nth [OF less.prems(3)]
    have run: "runnable (socperfQueue s) (length xs)" using at(3) False by (simp add: not_le)
    have "\<not> bootInv h s"
    proof
      assume "bootInv h s"
      then obtain e q where "socperfQueue s = e # q" "qe_task e = TaskInitResourceNodeInfo" "qe_delay e = 0"
        by (auto simp: bootInv_def)
      then have "hd (postedTasks s) = (0, TaskInitResourceNodeInfo)" by (simp add: postedTasks_def)
      then show False using less.prems(3) False by (cases xs) auto
    qed
    then have "wrapInv s" using less.prems(1) by (simp add: sysInv_def runInv_def)
    from removal_runs [OF this less.prems(2) run, of items] at(2)
    obtain t where "runNext (length xs) s = Inr t" "\<forall>it\<in>set items. removed t it" by (auto simp: okE_iff)
    then show ?thesis using runs_next [OF run _ runs_stop] by blast
  qed
qed

theorem live_action_ends:
  assumes inv: "sysInv h s" and tidy: "tidy [] [] s"
    and t: "typeRange t" and a: "a \<in> set (acts k t s)" and d: "ra_duration a \<noteq> 0"
  shows "\<exists>s'. runsTo s s' \<and> ra_ref a \<notin> set (liveRefs k t s')"
    and "\<exists>items. (delayOfDuration (ra_duration a), TaskPostDelay items) \<in> set (postedTasks s)
      \<and> (\<exists>it\<in>set items. it_resId it = k \<and> ra_type (it_resAction it) = t \<and> ra_ref (it_resAction it) = ra_ref a)"
proof -
  obtain n items it where n: "n < length (socperfQueue s)" "qe_task (socperfQueue s ! n) = TaskPostDelay items"
      "qe_delay (socperfQueue s ! n) = delayOfDuration (ra_duration a)"
    and it: "it \<in> set items" "it_resId it = k" "ra_type (it_resAction it) = t" "refOf it = ra_ref a"
    using tidy_pending [OF tidy t a d] .
  then have e: "(delayOfDuration (ra_duration a), TaskPostDelay items) \<in> set (postedTasks s)"
    by (force simp: postedTasks_def in_set_conv_nth)
  with it show "\<exists>items. (delayOfDuration (ra_duration a), TaskPostDelay items) \<in> set (postedTasks s)
      \<and> (\<exists>it\<in>set items. it_resId it = k \<and> ra_type (it_resAction it) = t \<and> ra_ref (it_resAction it) = ra_ref a)"
    by blast
  from e obtain xs ys where "postedTasks s = xs @ (delayOfDuration (ra_duration a), TaskPostDelay items) # ys"
    by (rule split_list [THEN exE]) blast
  from removal_reached [OF inv tidy this] it show "\<exists>s'. runsTo s s' \<and> ra_ref a \<notin> set (liveRefs k t s')"
    by (fastforce simp: removed_def)
qed

end
