(* ===== verification/Spec2Isabelle.thy ===== *)
theory Spec2Isabelle
  imports ExampleRun Expiry
begin

text \<open>
  soc_perf, the frequency boost service of resourceschedule: a verification library.

  THE PROGRAM. Applications and system services ask for boosts through a client library
  (src/interfaces/inner_api/socperf_client/src/socperf_client.cpp). The system ability
  (src/services/server/src/socperf_server.cpp) checks the permission of the caller, remembers the
  answers in a cache (src/common/include/socperf_lru_cache.h) and forwards to the service
  (src/services/core/src/socperf.cpp). The service matches the command against the tables that the
  loader (src/services/core/src/socperf_config.cpp) read from XML files, and submits closures to one
  serial queue. The closures (src/services/core/src/socperf_thread_wrap.cpp) keep, for every resource,
  the live actions of each action type, arbitrate between them, between the limits in force and
  between the two resources of a pair, report what changed to the hardware, and run a small state
  machine, the weak interactions, that boosts again some time after the last boost has ended.

  THE THEORIES. Prelude: failures of a C++ expression as an error type, the logic \<open>okE\<close> of
  computations that return normally, loops, 32 and 64 bit narrowing, maps of possibly null pointers.
  SocperfCommon, CommonStrings: socperf_common.h, atoi, atoll, to_string, find. ConfigState: the tables
  of \<open>SocPerfConfig\<close> and the lookups. ConfigLoad: the loader, function by function. ThreadWrap: the
  state of \<open>SocPerfThreadWrap\<close>, live actions, candidates, arbitration. WrapTasks: the functions that
  submit closures, the bodies of the closures, reports, weak interactions. SocperfCore: \<open>SocPerf\<close>, its
  requests, \<open>Init\<close> and the daily statistics. LruCache: \<open>get\<close> and \<open>put\<close>. Server, Client: the
  system ability and the client library. The records extend each other as the classes refer to each
  other: \<open>SocPerf\<close> owns its thread wrap, both refer to the one configuration. Definitions have the
  names of the functions; a name with a prefix (\<open>Server_\<close>, \<open>Client_\<close>, \<open>Config_\<close>) tells apart
  functions of the same name, one with a lower-case initial is a loop body, a lambda or a closure.

  THE PROOFS. CandidatePolicy: the candidate of one action type against its specification, for
  maximum and minimum in one locale (\<open>preference_loop\<close>). Arbitration: the arbitration functions against the
  policies \<open>candidateOf\<close>, \<open>endTimeOf\<close> and \<open>arbPair\<close>, as updates of the status map. ResourceInvariant:
  \<open>resInv\<close> and its preservation by every operation on the live actions. Reporting: values in force and
  values sent. WeakInteractions: the state machine and its timers
  (\<open>timerInv\<close>, over the locale \<open>cancellable_queue\<close>). TaskInvariant: the
  invariant \<open>wrapInv\<close> between closures and its preservation by every closure. Startup: the first
  closure. BoostCount: the counter of interactive boosts. Guarantees: what \<open>wrapInv\<close> says of the
  hardware. ConfigFrame, Requests: what closures leave alone, and the locale \<open>request_safe\<close> of
  invariants every request keeps. System: its two interpretations (before and after the first
  closure), the steps of the service and its reachable states. Expiry: the invariant \<open>tidy\<close> of the
  objects in flight; a boost with a duration has its removal pending and ends.
  ConfigInvariant, ConfigAccepted, ConfigTotal: what loading establishes, what an accepted configuration guarantees, and that loading
  returns. ConfigCamera: what the optional camera configuration leaves alone and what stays of it.
  Service: loading, \<open>Init\<close> and running put together. SentPolicy: the value the hardware has, against a
  policy written without the case distinction of the code (\<open>limitPolicy\<close>). RequestSpecs, PolicySpecs,
  PackSpecs (the items a request posts, against the reference \<open>wantedItems\<close>), ServerSpecs, ClientSpecs,
  ParseSpecs: promises of single operations. Example, ExampleFiles, ExampleRun: a small
  configuration, the files it comes from and a run of the service on them, for the witnesses.
  This theory states the properties, the ones about the whole service first.

  BOUNDS. Integer fields are \<open>int\<close>; wherever the code narrows or a product or sum can leave the type,
  the wrap-around is written out (\<open>to_int32\<close>), and the counters and clock differences that are unsigned
  in the code are words. Not narrowed are the lengths of and positions in strings (\<open>int32_t\<close> in
  \<open>IsNumber\<close> and \<open>SplitEx\<close>), which differ for strings of 2 GiB or more, and the counter
  \<open>boostResCnt\<close>, which differs beyond 2147483647 live boosts. No definition uses fuel: \<open>SplitEx\<close> is a \<open>partial_function\<close>, and that it
  returns is proved for the one-character patterns the program uses, that it does not for the empty one
  (\<open>Split_empty_pattern\<close>). Everything else terminates by structural recursion or a measure.

  PARAMETERS. An XML node is what the library's accessors return for it (\<open>XmlNode\<close>); files, parsed
  documents, dynamic libraries and the boot parameter are the record \<open>Env\<close>; the answers of the token
  and IPC services the records \<open>Caller\<close> and \<open>Samgr\<close>; clock readings are arguments. The queue is the
  list of pending entries; an entry may run next when all entries before it have a delay
  (\<open>runnable\<close>), so the theorems hold for every order of the delayed ones.

  THE SENTINEL. The code marks an absent value by \<open>INVALID_VALUE\<close>, - 2147483648, in fields of 64 bits.
  \<open>service_honours_requests\<close> and the second half of \<open>sent_value_is_policy\<close> assume that the requests for
  the resource are above it; the limits the interface accepts may be below. A limit of 2147483648 is recorded as
  the sentinel: \<open>limit_request_replaces\<close> says what then happens, \<open>limit_release_matches\<close> excludes it.

  CONCURRENCY. A step is one whole request or one whole closure. The requests guard the tables they
  share with mutexes and reach the wrap only through the entries they submit and the thermal level they
  store in it. What happens when two requests, or a request and a closure, overlap is not represented:
  two requests between \<open>GetMatchCmdId\<close> and \<open>GetActionsInfo\<close>, the timer of the statistics stopped while
  its closure re-arms it, two lookups inserting null entries in one table.

  WHAT THE LOADER DOES NOT CHECK. The theorems about the service assume \<open>references_ok\<close>: every
  thermal command and every command of an interaction is configured, and the action type of an
  interaction is one of the candidate types. The loader checks neither; \<open>lookup_makes_request_fail\<close>
  shows what a missing command does. Likewise \<open>sym_pairs\<close>, that paired resources name each other with
  one of them marked as the maximum, is an assumption about the files. \<open>camera_apart\<close> says that the
  optional camera configuration names no resource file. The ids of commands are not bounded either: the rate limit
  of a command holds as long as the command 100000 below is not requested (\<open>accepted_requests_spaced\<close>,
  \<open>record_reset_by_other_command\<close>).

  NOT MODELLED. libxml2, ffrt, IPC and token services (parameters, above); logging, tracing and system
  events; the hitrace chain of src/common/dfx; \<open>GetRealConfigPath\<close>, which nothing calls; the IPC
  interface, which is generated from the idl file; the headers of the client, which only declare;
  socperf_action_type.h, an enumeration for callers. Tests and fuzzers are not part of the program.
\<close>

text \<open>
  C1 (safety): When the configuration files are accepted, the camera configuration names no
  resource file and every command the configuration refers to is configured, \<open>Init\<close>
  of the service succeeds, and in every state that requests of any callers and closures of the
  serial queue can reach from there, in any order, no further request and no closure the queue
  may run next fails: none dereferences a null pointer, makes a wrong cast or reads a vector out
  of range.
\<close>

theorem service_never_crashes:
  assumes load: "Config_Init env new_SocPerf = Inr (True, c)" and cam: "camera_apart env" and refs: "references_ok c"
  shows "\<exists>s0. Init (Config_Init env) new_SocPerf = Inr (True, s0) \<and> (\<forall>s. reachable s0 s \<longrightarrow> \<not> crashes s)"
proof -
  from started [OF assms] obtain s0
    where s0: "Init (Config_Init env) new_SocPerf = Inr (True, s0)" "bootInv (hw c) s0" by blast
  then have "sysInv (hw c) s0" by (simp add: sysInv_def)
  with s0(1) show ?thesis using reachable_inv sysInv_no_crash by blast
qed

lemma service_never_crashes_witness:
  "\<exists>s0. Init (Config_Init demoEnv) new_SocPerf = Inr (True, s0) \<and> \<not> crashes s0"
  using service_never_crashes [OF demo_init demo_camera demo_config(1)] reach_start by blast

text \<open>
  C2 (safety): The guarantee of the pairs, for the running service: in every state reachable
  from \<open>Init\<close> on accepted files whose pairs name each other, the value the hardware
  got last for the maximum of a pair is at least the value it got last for the minimum, whenever
  both have a request.
\<close>

theorem service_pairs_ordered:
  assumes load: "Config_Init env new_SocPerf = Inr (True, c)" and cam: "camera_apart env" and refs: "references_ok c"
    and sym: "sym_pairs c" and init: "Init (Config_Init env) new_SocPerf = Inr (True, s0)" and run: "reachable s0 s"
    and pair: "pairOf k s = Some p" "isMaxRes k s" and st: "stm s k = Some st" "stm s p = Some pst"
    and send: "sendable s k" "sendable s p"
    and asked: "rs_candidate st \<noteq> NODE_DEFAULT_VALUE" "rs_candidate pst \<noteq> NODE_DEFAULT_VALUE"
  shows "\<exists>v w. lastSent (reports s) k = Some v \<and> lastSent (reports s) p = Some w \<and> w \<le> v"
proof -
  have "wrapInv s \<and> sym_pairs s" using started_sent [OF load cam refs sym init run st(1)] .
  then show ?thesis
    using pair st send asked by (intro wrapInv_pair_ordered [where k = k and p = p and st = st and pst = pst]) simp_all
qed

lemma service_pairs_ordered_witness:
  "\<exists>v w. lastSent (reports demoRunning) 1001 = Some v \<and> lastSent (reports demoRunning) 1000 = Some w \<and> w \<le> v"
proof -
  obtain st pst where "stm demoRunning 1001 = Some st" "rs_candidate st = 1000"
      "stm demoRunning 1000 = Some pst" "rs_candidate pst = 2000"
    using demo_running(5,6) by auto
  with service_pairs_ordered [OF demo_init demo_camera demo_config(1) demo_config_sym demo_started demo_reachable
      demo_running(1,2) _ _ demo_running(3,4), of st pst]
  show ?thesis by simp
qed

text \<open>
  C3 (invariant): Whichever entry the serial queue runs next, the closure returns normally (it
  dereferences no null pointer, reads no vector out of range, makes no wrong cast) and re-
  establishes the invariant \<open>wrapInv\<close>: candidates and values in force are the ones
  the policy asks for, the values last sent are the values in force, and the weak-interaction
  timers of the queue are those of the entries that wait for one.
\<close>

theorem every_closure_safe:
  assumes "wrapInv s" and "n < length (socperfQueue s)"
  shows "okE wrapInv (runEntry n s)"
  using assms by (rule runEntry_inv)

lemma every_closure_safe_witness:
  "okE wrapInv (runEntry 0 (submit 0 (TaskPowerLimitBoost True) demo1))"
proof (rule every_closure_safe)
  show "wrapInv (submit 0 (TaskPowerLimitBoost True) demo1)"
    by (rule submit_inv) (simp_all add: demo1_inv)
qed (simp_all add: submit_def submit_h_def)



text \<open>
  C5 (liveness): No boost outlives its removal. In every state the service can reach after it
  was started on accepted files, each live action with a duration is named by a removal pending
  in the queue, posted with exactly the delay of that duration; and without further requests,
  running the closures the queue lets run (those due before the removal, which may post others,
  and then the removal) reaches a state in which the action is no longer live.
\<close>

theorem service_boosts_expire:
  assumes load: "Config_Init env new_SocPerf = Inr (True, c)" and cam: "camera_apart env" and refs: "references_ok c"
    and init: "Init (Config_Init env) new_SocPerf = Inr (True, s0)" and reach: "reachable s0 s"
    and type: "0 \<le> t" "t < ACTION_TYPE_MAX" and live: "a \<in> set (acts k t s)" and dur: "ra_duration a \<noteq> 0"
  shows "(\<exists>items. (delayOfDuration (ra_duration a), TaskPostDelay items) \<in> set (postedTasks s)
      \<and> (\<exists>it\<in>set items. it_resId it = k \<and> ra_type (it_resAction it) = t \<and> ra_ref (it_resAction it) = ra_ref a))
    \<and> (\<exists>s'. runsTo s s' \<and> ra_ref a \<notin> set (liveRefs k t s'))"
proof -
  have inv: "sysInv (hw c) s0" using started [OF load cam refs] init by (auto simp: sysInv_def)
  have "sysInv (hw c) s" using reach inv by (rule reachable_inv)
  moreover have "tidy [] [] s" using reach inv Init_tidy [OF init] by (rule reachable_tidy)
  ultimately show ?thesis using live_action_ends type live dur unfolding typeRange_def by blast
qed

lemma service_boosts_expire_witness:
  "\<exists>a s'. a \<in> set (acts 1000 ACTION_TYPE_PERF demoRunning) \<and> ra_duration a = 100
     \<and> runsTo demoRunning s' \<and> ra_ref a \<notin> set (liveRefs 1000 ACTION_TYPE_PERF s')"
proof -
  obtain a where a: "a \<in> set (acts 1000 ACTION_TYPE_PERF demoRunning)" "ra_duration a = 100"
    using demo_running(10) by (cases "acts 1000 ACTION_TYPE_PERF demoRunning") auto
  from service_boosts_expire [OF demo_init demo_camera demo_config(1) demo_started demo_reachable _ _ a(1)] a
  show ?thesis by auto
qed

text \<open>
  C6 (safety): The service does what it is asked to. In every state reachable from
  \<open>Init\<close> on accepted files, between closures, the value the hardware got last for a
  resource without a pair and without a thermal-level request is the value of one of its live
  requests, or the default if it has none; while a power or thermal limit is in force it is not
  above any live limit of that kind; while none is, it is not below any live boost. All this
  provided that every live request for the resource asks for more than the sentinel
  \<open>INVALID_VALUE\<close>, - 2147483648: the limits of the interface are 64 bits wide, and
  below the sentinel the code may send the sentinel itself.
\<close>

theorem service_honours_requests:
  assumes load: "Config_Init env new_SocPerf = Inr (True, c)" and cam: "camera_apart env" and refs: "references_ok c"
    and sym: "sym_pairs c" and init: "Init (Config_Init env) new_SocPerf = Inr (True, s0)" and run: "reachable s0 s"
    and st: "stm s k = Some st" and "pairOf k s = None" and "sendable s k"
    and "acts k ACTION_TYPE_PERFLVL s = []" and "\<forall>v\<in>asked k s. INVALID_VALUE < v"
  shows "\<exists>v. lastSent (reports s) k = Some v
    \<and> (if asked k s = {} then v = NODE_DEFAULT_VALUE else v \<in> asked k s)
    \<and> (powerLimitBoost s \<longrightarrow> (\<forall>a\<in>set (acts k ACTION_TYPE_POWER s). v \<le> ra_value a))
    \<and> (thermalLimitBoost s \<longrightarrow> (\<forall>a\<in>set (acts k ACTION_TYPE_THERMAL s). v \<le> ra_value a))
    \<and> (\<not> powerLimitBoost s \<and> \<not> thermalLimitBoost s \<longrightarrow> (\<forall>a\<in>set (acts k ACTION_TYPE_PERF s). ra_value a \<le> v))"
proof -
  have "wrapInv s" "sym_pairs s" using started_sent [OF load cam refs sym init run st] by simp_all
  from sent_honours [OF this assms(7-11)] show ?thesis by blast
qed

lemma service_honours_requests_witness:
  "\<exists>v. lastSent (reports demoRunning) 2000 = Some v \<and> v = 1"
proof -
  obtain st where "stm demoRunning 2000 = Some st" using demo_gov(3) by auto
  from service_honours_requests [OF demo_init demo_camera demo_config(1) demo_config_sym demo_started demo_reachable
      this demo_gov(1,2,5)]
  show ?thesis by (auto simp: demo_gov(6))
qed

text \<open>
  C7 (safety): The system ability, the permission cache and the service together: a handler
  returns for every caller and every request, keeps the invariants of the cache and of the
  service, and answers \<open>ERR_OK\<close> exactly to authorised callers.
\<close>

theorem server_handlers_safe:
  assumes "serverInv h s" and "typed_request r"
  shows "okE (\<lambda>(code, s'). serverInv h s' \<and> code = (if authorised caller s then ERR_OK else ERR_PERMISSION_DENIED))
    (handler caller r s)"
  using assms by (rule handler_safe)

lemma server_handlers_safe_witness:
  "okE (\<lambda>(code, s'). code = ERR_PERMISSION_DENIED)
     (handler (demoCaller\<lparr>cl_verify := \<lambda>p. 1\<rparr>) (ReqPerf 0 0 10010 []) (new_SocPerfServer\<lparr>socPerf := demoStarted\<rparr>))"
  by (rule okE_mono [OF server_handlers_safe [OF demo_server_inv]]) (auto simp: demo_authorised)

text \<open>
  C8 (refinement): \<open>ArbitrateCandidate\<close> implements the arbitration policy: on a
  well-formed state it returns, changes only resource statuses, and the status map afterwards is
  the one the policy prescribes (the candidate and end time of the resource from its four types,
  the power and thermal limits and the thermal-level request, then the reconciliation with its
  pair).
\<close>

theorem arbitration_refines_policy:
  assumes "wf_wrap s" and "stm s k = Some st"
  shows "okE (\<lambda>s'. onlyStatus s s' \<and> stm s' = arbUpdate k st s) (ArbitrateCandidate k s)"
  using assms by (rule ArbitrateCandidate_spec)

lemma arbitration_refines_policy_witness:
  "okE (\<lambda>s'. onlyStatus demo1 s' \<and> stm s' = arbUpdate 1001 new_ResStatus demo1) (ArbitrateCandidate 1001 demo1)"
  using wrapInvD(1) [OF demo1_inv]
  by (intro arbitration_refines_policy) (simp_all add: resInv_def demo1_stm)

text \<open>
  C9 (functional): Adding, switching off or expiring an action of a resource returns, changes
  the list of live actions of its type as specified (a delayed removal erases the very object,
  an off event the first switched-on action equal up to the event, anything else replaces an
  equal action and appends), changes the boost counter accordingly, touches no live action of
  another resource, and keeps the resource invariant.
\<close>

theorem live_actions_update:
  assumes "resInv UNIV s" and "stm s k = Some st" and "typed_action a" and "0 \<le> ra_type a"
    and "ra_type a < ACTION_TYPE_MAX"
  shows "okE (\<lambda>s'. resInv UNIV s' \<and> actionEffect k d a s s') (UpdateResActionList k a d s)"
  using assms by (rule UpdateResActionList_inv)

lemma live_actions_update_witness:
  "okE (\<lambda>s'. resInv UNIV s' \<and> actionEffect 1000 False demoAction demo1 s') (UpdateResActionList 1000 demoAction False demo1)"
  using live_actions_update [of demo1 1000 new_ResStatus demoAction False] wrapInvD(1) [OF demo1_inv]
  by (simp add: demo1_stm)

text \<open>
  C10 (type): Whatever the files contain, a configuration the loader accepts is well typed: the
  keys of the resource table are distinct and each maps to a node with that id, of the class its
  governor flag says, whose pair, if it has one, is a key of the table; the available values and
  the values of the commands fit in 64 bits, no command maps to a null pointer, and every
  interaction starts in the boost status; the members of the service besides the configuration
  are left as they were.
\<close>

theorem loader_well_formed:
  assumes "Config_Init env new_SocPerf = Inr (True, c)" and "camera_apart env"
  shows "wf_nodes c \<and> typed_config c \<and> avail_ok c \<and> (\<forall>m k. map_of (modeActions m c) k \<noteq> Some None)
     \<and> (\<forall>ia\<in>set (interAction c). ia_status ia = BOOST_STATUS) \<and> SocPerfConfig.more c = SocPerfConfig.more new_SocPerf"
proof -
  have acc: "accepted (SocPerfConfig.more new_SocPerf) c"
    using Config_Init_accepted [OF accepted_new assms(2)] assms(1) by simp
  then have inv: "loadInv (SocPerfConfig.more new_SocPerf) c" by (simp add: accepted_def)
  then show ?thesis
    using accepted_wf_nodes [OF acc] loadInv_typed [OF inv] avail_accepted [OF inv] loadInv_no_null [OF inv]
    by (simp add: loadInv_def)
qed

lemma loader_well_formed_witness: "wf_nodes demoConfig \<and> typed_config demoConfig"
  using loader_well_formed [OF demo_init demo_camera] by simp

text \<open>
  C11 (termination): Loading the configuration returns on all documents, well-formed or not,
  with success or failure: every loop and every \<open>Split\<close> ends and no null pointer is
  dereferenced, provided that every \<open>weak\<close> node has the attributes
  \<open>id\<close>, \<open>type\<close> and \<open>delay\<close>.
\<close>

theorem loader_returns:
  assumes "loadInv e s" and "documents_complete env"
  shows "\<exists>ok c. Config_Init env s = Inr (ok, c)"
  using Config_Init_returns [OF assms] by (auto simp: returns_iff)

lemma loader_returns_witness: "\<exists>ok c. Config_Init demoEnv new_SocPerf = Inr (ok, c)"
  using loader_returns [OF _ demo_documents] accepted_new by (auto simp: accepted_def)

text \<open>
  C12 (safety): The check at the end of a boost file does its work: after a load whose last file
  is a boost file, every action of every command of every mode names a configured resource and,
  unless that resource is reported to the perf library or lists no values, asks for one of the
  values it lists.
\<close>

theorem loaded_values_available:
  assumes "Config_Init env s = Inr (True, c)" and "boostPaths env \<noteq> []"
    and "str_find SOCPERF_RESOURCE_CONFIG_XML (last (boostPaths env)) = None"
    and "GetAllRealConfigPath env CAMERA_AWARE_CONFIG_XML = []"
    and "map_of (modeActions m c) k = Some (Some as)" and "ac \<in> set (as_actionList as)"
    and "(r, v) \<in> set (varPairs (ac_variable ac))"
  shows "value_available r v c"
  using checked_available [OF Config_Init_checked [OF assms(1-4)] assms(5-7)] .

lemma loaded_values_available_witness: "value_available 1000 2000 demoConfig"
proof -
  obtain as ac where "map_of (modeActions DEFAULT_CONFIG_MODE demoConfig) 10010 = Some (Some as)"
      "ac \<in> set (as_actionList as)" "(1000, 2000) \<in> set (varPairs (ac_variable ac))"
    using demo_config(4) by (auto simp: asks_def list_ex_iff split: option.splits)
  with loaded_values_available [OF demo_init] demo_boost_file show ?thesis by blast
qed

text \<open>
  C13 (functional): The first closure, run on a loaded configuration with no status yet, gives
  every configured resource (and no other key) a fresh status, reports the default value for
  each of them, and establishes the invariant every later closure keeps.
\<close>

theorem startup_establishes_invariant:
  assumes "startInv s"
  shows "wrapInv (initResourceNodeInfoFunc s) \<and>
    stm (initResourceNodeInfoFunc s) = (\<lambda>k. if k \<in> resIds s then Some new_ResStatus else None)"
  using initResourceNodeInfoFunc_inv [OF assms] by simp

lemma startup_establishes_invariant_witness:
  "wrapInv (initResourceNodeInfoFunc demo0) \<and> stm (initResourceNodeInfoFunc demo0) 2000 = Some new_ResStatus"
  using startup_establishes_invariant [OF demo_start] by (simp add: demoNodes_def)

text \<open>
  C14 (equivalence): The one-pass loop over the live actions of a type computes the reference
  candidate: the largest (boost and thermal-level types) or smallest (power and thermal types)
  requested value, with the latest end time among the actions that request it; the order in
  which the actions arrived does not matter.
\<close>

theorem candidate_is_best_live_action:
  assumes "actionsOf t st \<noteq> []" and "\<forall>a\<in>set (actionsOf t st). typed_action a"
    and "mset (actionsOf t st) = mset as"
  shows "InnerArbitrateCandidatesValue t st =
    st\<lparr>rs_candidatesValue := (rs_candidatesValue st)[nat t := bestValue t as],
       rs_candidatesEndTime := (rs_candidatesEndTime st)[nat t := bestEndTime t as]\<rparr>"
proof -
  have "as \<noteq> []" using assms(1,3) by auto
  with assms(1) candidateSpec_mset [OF assms(3), of t]
  have "bestValue t as = bestValue t (actionsOf t st)" "bestEndTime t as = bestEndTime t (actionsOf t st)"
    by (simp_all add: candidateSpec_def)
  with innerArbitrateLoop_spec [OF assms(1,2), of t] show ?thesis
    by (simp add: InnerArbitrateCandidatesValue_def actionsOf_def isPerfFirstType_def Let_def)
qed

lemma candidate_is_best_live_action_witness:
  "InnerArbitrateCandidatesValue 0 (setActionList 0 [demoAction] new_ResStatus) =
    (setActionList 0 [demoAction] new_ResStatus)
     \<lparr>rs_candidatesValue := [1000, INVALID_VALUE, INVALID_VALUE, INVALID_VALUE, 0],
      rs_candidatesEndTime := [5000, MAX_INT_VALUE, MAX_INT_VALUE, MAX_INT_VALUE, 0]\<rparr>"
  using candidate_is_best_live_action [of 0 "setActionList 0 [demoAction] new_ResStatus" "[demoAction]"]
  by (simp add: actionsOf_def setActionList_def new_ResStatus_def bestValue_def bestEndTime_def isPerfFirstType_def)

text \<open>
  C15 (functional): \<open>SendResStatus\<close> hands to the perf library and to the executor
  exactly the resources whose value or end time differs from what was last sent, each to the
  destination of its node, records them as sent, and then runs the weak-interaction transitions;
  it does not fail on a well-formed state.
\<close>

theorem report_only_changes:
  assumes "wf_wrap s"
  shows "SendResStatus s = Inr (WeakInteraction (sendChanged s))"
  using assms by (rule SendResStatus_eq)

lemma report_only_changes_witness: "SendResStatus demo1 = Inr (WeakInteraction (sendChanged demo1))"
  using wrapInvD(1) [OF demo1_inv] by (intro report_only_changes) (simp add: resInv_def)

text \<open>
  C16 (safety): One pass of the weak-interaction machine moves every entry by the transition its
  status asks for (idle: the boost status starts the timer; not idle: back to the boost status),
  and afterwards the queue holds exactly one timer for each entry that waits for one and none
  for any other entry: no timer is leaked, doubled or cancelled by mistake.
\<close>

theorem weak_interaction_transitions:
  assumes "timerInv s" and "typed_config s"
  shows "statuses (WeakInteraction s) = map (nextStatus (idle s)) (statuses s) \<and> timerInv (WeakInteraction s)"
  using WeakInteraction_statuses [OF assms] by simp

lemma weak_interaction_transitions_witness:
  "statuses (WeakInteraction demo1) = [BOOST_END_STATUS] \<and> timerInv (WeakInteraction demo1)"
  using weak_interaction_transitions [of demo1] wrapInvD(4,5) [OF demo1_inv]
  by (simp add: confInv_def statuses_def new_InterAction_def nextStatus_def idle_def)

text \<open>
  C17 (functional): The exact effect of a limit request, by value or by level, on any record of
  the client: the limits recorded for the resource, by value and by level, are released with
  their recorded values and dropped, except one recorded as \<open>INVALID_VALUE\<close> (as
  \<open>2 ^ 31\<close> is), which is neither released nor dropped; a new value other than the
  sentinel and the reset value is recorded, unless such an entry is in its way, and posted after
  the releases. If no limit is recorded as \<open>INVALID_VALUE\<close>, the new value replaces
  what was recorded for the resource.
\<close>

theorem limit_request_replaces:
  assumes "client_ok c s" and "limitKeys resId = (k, l, ev)" and "k \<in> resIds s"
  shows "map_of (limitsOf c (SendLimitRequestEvent c (resId, v) s)) = recordLimit k l resId v (map_of (limitsOf c s))
    \<and> postedLimits (SendLimitRequestEvent c (resId, v) s) = postedLimits s
      @ releases k l (map_of (limitsOf c s)) @ (if limitOn v then [Some (ev, resId, EVENT_ON, v)] else [])
    \<and> ((\<forall>j. map_of (limitsOf c s) j \<noteq> Some INVALID_VALUE) \<longrightarrow>
        map_of (limitsOf c (SendLimitRequestEvent c (resId, v) s)) =
          (if limitOn v then (map_of (limitsOf c s))(k := None, l := None, resId \<mapsto> to_int32 v)
           else (map_of (limitsOf c s))(k := None, l := None)))"
  using SendLimitRequestEvent_spec(1,2) [OF assms] recordLimit_clean [OF _ assms(2), of "map_of (limitsOf c s)" v] by simp

lemma limit_request_replaces_witness:
  "postedLimits (SendLimitRequestEvent 1 (1001, 500) demo1) = [Some (INNER_EVENT_ID_DO_FREQ_ACTION, 1001, EVENT_ON, 500)]
   \<and> map_of (limitsOf 1 (SendLimitRequestEvent 1 (1001, 500) demo1)) = [1001 \<mapsto> 500]"
proof -
  have "client_ok 1 demo1" using demo1_limits(1) by (simp add: limits_clean_def)
  from limit_request_replaces [OF this, of 1001 1001 11001 INNER_EVENT_ID_DO_FREQ_ACTION 500] demo1_limits(2)
  show ?thesis
    by (simp add: limitKeys_def demoNodes_def releases_def releaseOf_def recordLimit_def dropLimit_def limitOn_def
        postedLimits_def to_int32_def)
qed

text \<open>
  C18 (functional): A request posts, as one pack to run at once, exactly the items its command
  asks for: for each action, in order, one item for every configured resource it names, and the
  items of the thermal level where that applies (\<open>wantedItems\<close>); and for every
  duration among them other than 0 one removal of exactly the items with that duration. A
  removal is delayed by the duration, in microseconds, exactly for durations from 0 to 2147483
  milliseconds: beyond, the product leaves the 32 bits.
\<close>

theorem requests_post_removals:
  "okE (\<lambda>s'. \<exists>items ds. map anon items = wantedItems s curMs as onOff type (as_actionList as) []
     \<and> distinct ds \<and> set ds = (\<lambda>it. ra_duration (it_resAction it)) ` set items - {0}
     \<and> postedTasks s' = postedTasks s @ (if items = [] then [] else [(0, TaskDoFreqActionPack items)])
          @ removals items ds
     \<and> (\<forall>d\<in>set ds. in_int32 d \<longrightarrow> (delayOfDuration d = d * 1000 \<longleftrightarrow> 0 \<le> d \<and> d \<le> 2147483)))
    (DoFreqActions curMs (Some as) onOff type s)"
  using delayOfDuration_exact by (intro okE_mono [OF DoFreqActions_wanted [OF refl]]) blast

lemma requests_post_removals_witness:
  "okE (\<lambda>s'. \<exists>items. map itemView items = [(1000, 1000, 100), (2000, 1, 100), (1001, 2000, 0)]
     \<and> postedTasks s' = [(0, TaskDoFreqActionPack items), (100000, TaskPostDelay (withDuration 100 items))])
   (DoFreqActions 5 (Some demoTouch) EVENT_ON ACTION_TYPE_PERF demo1)"
  by (rule okE_mono [OF requests_post_removals]) (auto dest!: demo_posted)

text \<open>
  C19 (safety): The rate limit of a command, over any history of requests: two switched-on
  requests for the command that both pass \<open>CheckTimeInterval\<close> are more than
  \<open>TIME_INTERVAL\<close> milliseconds apart, provided the clock readings do not decrease,
  fit in 63 bits and are not before the records the service has already, and no request of the
  history switches on the command \<open>CANCEL_CMDID_PREFIX\<close> (100000) below, the one
  that resets the record of this command. Any other requests may pass in between.
\<close>

theorem accepted_requests_spaced:
  assumes "clock_ok es" and "recordsBefore n s" and "\<forall>(now, b, j)\<in>set es. n \<le> now"
    and "\<forall>(now, b, j)\<in>set es. b \<longrightarrow> \<not> resets j k"
  shows "spaced k (acceptedCalls es s)"
  using assms by (rule acceptedCalls_spaced)

lemma accepted_requests_spaced_witness:
  "spaced 5 (acceptedCalls [(100, True, 5), (105, True, 5), (107, True, 6), (109, True, 5)] new_SocPerf)
   \<and> acceptedCalls [(100, True, 5), (105, True, 5), (107, True, 6), (109, True, 5)] new_SocPerf
       = [(100, True, 5), (107, True, 6), (109, True, 5)]"
proof -
  have "spaced 5 (acceptedCalls [(100, True, 5), (105, True, 5), (107, True, 6), (109, True, 5)] new_SocPerf)"
    by (rule accepted_requests_spaced [where n = 0])
       (simp_all add: clock_ok_def recordsBefore_def resets_def to_int32_def new_SocPerf_def)
  moreover have "acceptedCalls [(100, True, 5), (105, True, 5), (107, True, 6), (109, True, 5)] new_SocPerf
      = [(100, True, 5), (107, True, 6), (109, True, 5)]"
    by code_simp
  ultimately show ?thesis by simp
qed

text \<open>
  C20 (error): The records of switched-off requests share the table of the switched-on ones: a
  switched-on request for one command resets the record of the command
  \<open>CANCEL_CMDID_PREFIX\<close> (100000) above it, whatever it was, and the next switched-
  on request for that command passes the rate limit at once.
\<close>

theorem record_reset_by_other_command:
  assumes "to_int32 (j + CANCEL_CMDID_PREFIX) = k" and "uint TIME_INTERVAL < now" and "now < 2 ^ 63"
  shows "fst (CheckTimeInterval now True k (snd (CheckTimeInterval m True j s)))"
  using reset_passes [of j k now m s] assms by (simp add: resets_def)

lemma record_reset_by_other_command_witness:
  "fst (CheckTimeInterval 102 True 100005 (snd (CheckTimeInterval 101 True 5 (snd (CheckTimeInterval 100 True 100005 new_SocPerf)))))
   \<and> \<not> fst (CheckTimeInterval 102 True 100005 (snd (CheckTimeInterval 100 True 100005 new_SocPerf)))"
proof
  show "fst (CheckTimeInterval 102 True 100005 (snd (CheckTimeInterval 101 True 5 (snd (CheckTimeInterval 100 True 100005 new_SocPerf)))))"
    by (rule record_reset_by_other_command) (simp_all add: to_int32_def)
  show "\<not> fst (CheckTimeInterval 102 True 100005 (snd (CheckTimeInterval 100 True 100005 new_SocPerf)))"
    by code_simp
qed

text \<open>
  C21 (invariant): Every operation on the live actions changes the boost counter by exactly the
  change of the number of live interactive actions, provided the actions it matches agree with
  it on being interactive.
\<close>

theorem boost_count_tracks_live_actions:
  assumes "resInv UNIV s" and "stm s k = Some st" and "typed_action a" and "0 \<le> ra_type a"
    and "ra_type a < ACTION_TYPE_MAX" and "coherent a (actionsOf (ra_type a) st)"
  shows "okE (\<lambda>s'. boostResCnt s' - liveCount s' = boostResCnt s - liveCount s) (UpdateResActionList k a d s)"
  using assms by (rule UpdateResActionList_count)

lemma boost_count_tracks_live_actions_witness:
  "okE (\<lambda>s'. boostResCnt s' - liveCount s' = boostResCnt demo1 - liveCount demo1)
     (UpdateResActionList 1000 demoAction False demo1)"
  using boost_count_tracks_live_actions [of demo1 1000 new_ResStatus demoAction False] wrapInvD(1) [OF demo1_inv]
  by (simp add: demo1_stm coherent_def actionsOf_def new_ResStatus_def)

text \<open>
  C22 (safety): A handler runs the request of an authorised caller on the service and hands its
  result back; a request of any other caller is answered with
  \<open>ERR_PERMISSION_DENIED\<close> and leaves the service untouched.
\<close>

theorem server_dispatches_authorised:
  assumes "lru_inv (permissionCache s)" and "request r (socPerf s) = Inr p"
  shows "okE (\<lambda>(code, s'). if authorised caller s then code = ERR_OK \<and> socPerf s' = p
     else code = ERR_PERMISSION_DENIED \<and> socPerf s' = socPerf s) (handler caller r s)"
proof (cases "authorised caller s")
  case True
  then show ?thesis using handler_forwards [OF assms(1) True assms(2)] by simp
next
  case False
  then show ?thesis using handler_denies [OF assms(1) False] by simp
qed

lemma server_dispatches_authorised_witness:
  "okE (\<lambda>(code, s'). code = ERR_OK \<and> socPerf s' = SetThermalLevel 3 demoStarted)
     (handler (demoCaller\<lparr>cl_verify := \<lambda>p. 0\<rparr>) (ReqThermalLevel 3) (new_SocPerfServer\<lparr>socPerf := demoStarted\<rparr>))"
  by (rule okE_mono [OF server_dispatches_authorised [where p = "SetThermalLevel 3 demoStarted"]])
     (auto simp: demo_authorised new_cache)

text \<open>
  C23 (functional): \<open>HasPerfPermission\<close> lets a caller through when it is not an
  application outside the system and the answer remembered for its token, or otherwise the one
  of the token service, is the grant; it leaves the service untouched, and after a grant the
  grant is remembered.
\<close>

theorem permission_decision:
  assumes "lru_inv (permissionCache s)"
  shows "okE (\<lambda>(b, s'). b = authorised caller s \<and> socPerf s' = socPerf s \<and> lru_inv (permissionCache s')
     \<and> (b \<longrightarrow> storedIn (permissionCache s') (cl_tokenId caller) = Some 0)) (HasPerfPermission caller s)"
  using assms by (rule HasPerfPermission_spec)

lemma permission_decision_witness:
  "okE (\<lambda>(b, s'). \<not> b) (HasPerfPermission (demoCaller\<lparr>cl_verify := \<lambda>p. 1\<rparr>) (new_SocPerfServer\<lparr>socPerf := demoStarted\<rparr>))"
  by (rule okE_mono [OF permission_decision]) (auto simp: demo_authorised new_cache)

text \<open>
  C24 (refinement): The permission cache, a list of nodes with a map of iterators into it,
  implements a bounded recency list: \<open>get\<close> and \<open>put\<close> dereference only
  valid iterators, return what the recency list returns, keep map and list consistent and never
  exceed the capacity.
\<close>

theorem lru_refines_recency_list:
  assumes "lru_inv c"
  shows "okE (\<lambda>(r, c'). (r, entries c') = spec_get key (entries c) \<and> lru_inv c') (lru_get key c)
    \<and> okE (\<lambda>c'. entries c' = spec_put (capacity c) key value (entries c) \<and> lru_inv c') (lru_put key value c)"
  using lru_get_spec [OF assms, of key] lru_put_spec [OF assms, of key "value"]
  by (auto elim!: okE_mono)

lemma lru_refines_recency_list_witness:
  "okE (\<lambda>c'. entries c' = spec_put 32 5 1 [] \<and> lru_inv c') (lru_put (5::int) (1::int) (new_SocPerfLRUCache 32))"
proof -
  have "lru_inv (new_SocPerfLRUCache 32 :: (int, int) SocPerfLRUCache)"
    by (simp add: lru_inv_def new_SocPerfLRUCache_def)
  from lru_refines_recency_list [OF this, of 5 1] show ?thesis
    by (simp add: new_SocPerfLRUCache_def entries_def)
qed

text \<open>
  C25 (safety): Every one of the nine calls of the client library returns: when
  \<open>CheckClientValid\<close> succeeds and, for \<open>RequestDeviceMode\<close>, the mode
  has at most 64 characters, it makes exactly the remote call that belongs to it, once, on the
  proxy in use; otherwise it sends nothing. The six calls with a message that is tagged send it
  as \<open>pid=..|tid=..\<close>, followed by a bar and the message of the caller unless that
  is empty. \<open>RequestCmdIdCount\<close> hands back the reply, or the empty string without a
  proxy. The proxy is never used while it is null.
\<close>

theorem client_calls_guarded:
  assumes "(f, k, ok) \<in> set (clientCalls a pid tid n b tags configs msg reply)"
  shows "okE (\<lambda>c'. if fst (CheckClientValid a c) \<and> ok then \<exists>p. ct_client c' = Some p \<and> ct_sent c' = ct_sent c @ [(p, k)]
         else ct_sent c' = ct_sent c) (f c)
    \<and> okE (\<lambda>(r, c'). r = (if fst (CheckClientValid a c) then reply else [])) (Client_RequestCmdIdCount a msg reply c)"
  using clientCalls_guarded [OF assms] Client_RequestCmdIdCount_reply by blast

lemma client_calls_guarded_witness:
  "okE (\<lambda>c'. ct_sent c' = [(\<lparr>px_object = Some 1\<rparr>, CallPerfRequest 10010 ''pid=7|tid=8|touch'')])
     (Client_PerfRequest demoService 7 8 10010 ''touch'' new_SocPerfClient)
   \<and> okE (\<lambda>c'. ct_sent c' = []) (Client_SetThermalLevel demoSamgr 3 new_SocPerfClient)"
proof
  have call: "(Client_PerfRequest demoService 7 8 10010 ''touch'', CallPerfRequest 10010 ''pid=7|tid=8|touch'', True)
      \<in> set (clientCalls demoService 7 8 10010 True [] [] ''touch'' [])"
    by (simp add: clientCalls_def Let_def demo_tagged)
  show "okE (\<lambda>c'. ct_sent c' = [(\<lparr>px_object = Some 1\<rparr>, CallPerfRequest 10010 ''pid=7|tid=8|touch'')])
     (Client_PerfRequest demoService 7 8 10010 ''touch'' new_SocPerfClient)"
  proof -
    obtain c' where "Client_PerfRequest demoService 7 8 10010 ''touch'' new_SocPerfClient = Inr c'"
        "ct_client c' = Some \<lparr>px_object = Some 1\<rparr>"
      using demo_client(3) [of 7 8 10010 "''touch''"] by (auto simp: okE_iff)
    with client_calls_guarded [OF call, of new_SocPerfClient] show ?thesis by (auto simp: demo_client(1,2))
  qed
  have "(Client_SetThermalLevel demoSamgr 3, CallSetThermalLevel 3, True)
      \<in> set (clientCalls demoSamgr 0 0 3 True [] [] [] [])"
    by (simp add: clientCalls_def Let_def)
  from client_calls_guarded [OF this, of new_SocPerfClient]
  show "okE (\<lambda>c'. ct_sent c' = []) (Client_SetThermalLevel demoSamgr 3 new_SocPerfClient)"
    by (auto elim!: okE_mono simp: CheckClientValid_def new_SocPerfClient_def demoSamgr_def)
qed

text \<open>
  C26 (invariant): Entering a device mode forgets the other modes of its scene and records the
  mode if the scene lists it; leaving it forgets it. Modes of other scenes stay, and the record
  stays sorted and without duplicates.
\<close>

theorem one_mode_per_scene:
  assumes "modes_ok (recordDeviceMode s)"
  shows "modes_ok (recordDeviceMode (snd (MatchDeviceMode mode status items s)))
    \<and> set (recordDeviceMode (snd (MatchDeviceMode mode status items s))) =
        (if status then (set (recordDeviceMode s) - (si_name ` set items - {mode}))
                          \<union> (if mode \<in> si_name ` set items then {mode} else {})
         else set (recordDeviceMode s) - {mode})"
  using assms by (rule MatchDeviceMode_modes)

lemma one_mode_per_scene_witness:
  "set (recordDeviceMode (snd (MatchDeviceMode ''game'' True [\<lparr>si_name = ''video'', si_req = 1\<rparr>, \<lparr>si_name = ''game'', si_req = 1\<rparr>] (demo1\<lparr>recordDeviceMode := [''video'']\<rparr>)))) = {''game''}"
  using one_mode_per_scene [of "demo1\<lparr>recordDeviceMode := [''video'']\<rparr>" "''game''" True] by (simp add: modes_ok_def)

text \<open>
  C27 (bounds): A request by level gets one of the available values of the resource: level 0 the
  largest, a higher level never a larger value, any level beyond the list the smallest, and a
  negative level none.
\<close>

theorem levels_select_values:
  assumes "nodeAt k s = Some n" and "rn_available n \<noteq> []" and "0 \<le> l" and "l \<le> m"
  shows "\<exists>v w. GetResValueByLevel k l s = Some v \<and> GetResValueByLevel k m s = Some w
     \<and> v \<in> set (rn_available n) \<and> w \<in> set (rn_available n) \<and> w \<le> v
     \<and> (l = 0 \<longrightarrow> v = Max (set (rn_available n)))
     \<and> (int (card (set (rn_available n))) \<le> m + 1 \<longrightarrow> w = Min (set (rn_available n)))
     \<and> GetResValueByLevel k (- 1 - l) s = None"
proof -
  note spec = GetResValueByLevel_spec [OF assms(1,2)]
  obtain v where v: "v \<in> set (rn_available n)" "GetResValueByLevel k l s = Some v" using spec(1) [OF assms(3)] by blast
  obtain w where w: "w \<in> set (rn_available n)" "GetResValueByLevel k m s = Some w" using spec(1) [of m] assms(3,4) by auto
  have "w \<le> v" using spec(2) [OF assms(3,4)] v(2) w(2) by simp
  moreover have "l = 0 \<longrightarrow> v = Max (set (rn_available n))" using spec(3) v(2) by auto
  moreover have "int (card (set (rn_available n))) \<le> m + 1 \<longrightarrow> w = Min (set (rn_available n))"
    using spec(4) [of m] w(2) assms(3,4) by auto
  moreover have "GetResValueByLevel k (- 1 - l) s = None" using spec(5) [of "- 1 - l"] assms(3) by simp
  ultimately show ?thesis using v w by blast
qed

lemma levels_select_values_witness: "GetResValueByLevel 1000 0 demo1 = Some 2000"
proof -
  obtain n where "nodeAt 1000 demo1 = Some n" "rn_available n = [500, 1000, 2000]"
    by (simp add: nodeAt_def ptrAt_def demoNodes_def)
  with levels_select_values [of 1000 demo1 n 0 0] show ?thesis by auto
qed

text \<open>
  C28 (functional): The action \<open>DoPerfRequestThremalLvl\<close> picks for the current
  thermal level: the last one among the actions with the greatest level that is not above the
  current one, and none only when every action is for a higher level.
\<close>

theorem thermal_level_action:
  "case nearestAction lvl as None of
     None \<Rightarrow> \<forall>a\<in>set as. lvl < ac_thermalLvl a
   | Some a \<Rightarrow> nearest lvl as a"
  by (rule nearestAction_spec)

lemma thermal_level_action_witness:
  "nearest 3 [new_Action\<lparr>ac_thermalLvl := 1\<rparr>, new_Action\<lparr>ac_thermalLvl := 2\<rparr>, new_Action\<lparr>ac_thermalLvl := 4\<rparr>]
     (new_Action\<lparr>ac_thermalLvl := 2\<rparr>)"
  using thermal_level_action [of
    "[new_Action\<lparr>ac_thermalLvl := 1\<rparr>, new_Action\<lparr>ac_thermalLvl := 2\<rparr>, new_Action\<lparr>ac_thermalLvl := 4\<rparr>]" 3]
  by (simp add: new_Action_def)

text \<open>
  C29 (error): A request for a command that is not configured is ignored; but a lookup of its
  actions, as a thermal command or an interaction makes it, leaves a null entry behind, and the
  same request then dereferences the null pointer.
\<close>

theorem lookup_makes_request_fail:
  assumes "enabled s" and "perfRequestEnable s" and "fst (CheckTimeInterval now True k s)"
    and "recordDeviceMode s = []" and "map_of (modeActions DEFAULT_CONFIG_MODE s) k = None" and "k \<noteq> INVALID_CMD_ID"
  shows "okE (\<lambda>t. socperfQueue t = socperfQueue s) (PerfRequest now curMs k msg s)
    \<and> PerfRequest now curMs k msg (snd (GetActionsInfo k s)) = Inl NullDeref"
  using lookup_leaves_null [OF assms] by simp

lemma lookup_makes_request_fail_witness:
  "PerfRequest 100 5 77 [] (snd (GetActionsInfo 77 demo1)) = Inl NullDeref"
proof -
  have "enabled demo1" "perfRequestEnable demo1" "recordDeviceMode demo1 = []" "fst (CheckTimeInterval 100 True 77 demo1)"
      "map_of (modeActions DEFAULT_CONFIG_MODE demo1) 77 = None"
    by code_simp+
  with lookup_makes_request_fail [of demo1 100 77 5 "[]"] show ?thesis by simp
qed

text \<open>
  C30 (bounds): A limit that is recorded and then released by a reset is released with the value
  it was set with exactly when that value fits in 32 bits: the record is an
  \<open>int32_t\<close>, the limit an \<open>int64_t\<close>. For a wider value the release
  names another value than the one in force. No limit of the client is recorded as
  \<open>INVALID_VALUE\<close> before (see \<open>limit_request_replaces\<close>), and the new
  one is not either.
\<close>

theorem limit_release_matches:
  assumes "limits_clean c s" and "limitKeys resId = (k, l, ev)" and "k \<in> resIds s"
    and "limitOn v" and "to_int32 v \<noteq> INVALID_VALUE"
  shows "last (postedLimits (SendLimitRequestEvent c (resId, RESET_VALUE) (SendLimitRequestEvent c (resId, v) s)))
      = Some (ev, resId, EVENT_OFF, v) \<longleftrightarrow> in_int32 v"
  using limit_then_reset [OF assms] by (simp add: to_int32_eq_iff)

lemma limit_release_matches_witness:
  "last (postedLimits (SendLimitRequestEvent 1 (1001, RESET_VALUE) (SendLimitRequestEvent 1 (1001, 2 ^ 32 + 500) demo1)))
     \<noteq> Some (INNER_EVENT_ID_DO_FREQ_ACTION, 1001, EVENT_OFF, 2 ^ 32 + 500)"
  using limit_release_matches [OF demo1_limits(1), of 1001 1001 11001 INNER_EVENT_ID_DO_FREQ_ACTION "2 ^ 32 + 500"]
  by (simp add: limitKeys_def demoNodes_def limitOn_def to_int32_def in_int32_def)

text \<open>
  C31 (safety): Clearing all requests removes every live boost action of every resource but
  leaves the boost counter as it was: with a counter that is not zero, every weak interaction is
  afterwards back in the boost status although no boost action is alive.
\<close>

theorem clear_all_keeps_boost_count:
  assumes "wrapInv s"
  shows "okE (\<lambda>s'. wrapInv s' \<and> boostResCnt s' = boostResCnt s
     \<and> (\<forall>k st. stm s' k = Some st \<longrightarrow> actionsOf ACTION_TYPE_PERF st = [])
     \<and> (boostResCnt s \<noteq> 0 \<longrightarrow> (\<forall>x\<in>set (statuses s'). x = BOOST_STATUS))) (clearAllAliveRequestFunc s)"
  using clearAll_effect [OF wrapInv_mid [OF assms]] .

lemma clear_all_keeps_boost_count_witness:
  "okE (\<lambda>s'. boostResCnt s' = 0) (clearAllAliveRequestFunc demo1)"
  using clear_all_keeps_boost_count [OF demo1_inv] by (auto elim: okE_mono)

text \<open>
  C32 (error): \<open>LoadInterAction\<close> fails exactly when some child is a
  \<open>weak\<close> node without one of its attributes \<open>id\<close>, \<open>type\<close>,
  \<open>delay\<close>: \<open>atoi\<close> then reads a null pointer. No other document makes
  it fail.
\<close>

theorem interaction_attributes:
  "LoadInterAction x s = Inl NullDeref \<longleftrightarrow> \<not> list_all weakAttributes (xn_children x)"
  by (rule LoadInterAction_fails)

text \<open>
  C33 (functional): The camera configuration is optional and its result is ignored. On any
  files, once the resource and boost files are loaded and the camera files name no resource
  file, \<open>Init\<close> succeeds whatever loading the camera files answers; they change no
  resource, and every command of the other files keeps its definition. For a single camera
  document whose commands can be read, the configuration is the one with these commands, also
  when the final check refuses them: a rejected camera configuration stays in force.
\<close>

theorem rejected_camera_file_stays:
  assumes "LoadAllConfigXmlFile env SOCPERF_RESOURCE_CONFIG_XML s = Inr (True, s1)"
    and "loopE (LoadConfigXmlFile env) (boostPaths env) s1 = Inr (True, s2)" and "camera_apart env"
    and "LoadAllConfigXmlFile env CAMERA_AWARE_CONFIG_XML s2 = Inr (ok, s3)"
  shows "Config_Init env s = Inr (True, s3\<lparr>g_resStrToIdInfo := []\<rparr>) \<and> extends_config s2 s3
    \<and> (\<forall>x t. camera_document env x \<and> readCommands x s2 = Inr (True, t) \<longrightarrow>
        s3 = t \<and> CheckActionResIdAndValueValid t = Inr ok)"
  using Config_Init_camera [OF assms] by blast

lemma rejected_camera_file_stays_witness:
  "\<exists>(s2 :: SocPerf) s3. Config_Init cameraEnv new_SocPerf = Inr (True, s3\<lparr>g_resStrToIdInfo := []\<rparr>) \<and> extends_config s2 s3
     \<and> asks 10010 1000 2000 s2 \<and> asks 555 1000 7 s3 \<and> CheckActionResIdAndValueValid s3 = Inr False"
proof -
  obtain s1 s2 s3 t where run: "LoadAllConfigXmlFile cameraEnv SOCPERF_RESOURCE_CONFIG_XML new_SocPerf = Inr (True, s1)"
      "loopE (LoadConfigXmlFile cameraEnv) (boostPaths cameraEnv) s1 = Inr (True, s2)" "asks 10010 1000 2000 s2"
      "LoadAllConfigXmlFile cameraEnv CAMERA_AWARE_CONFIG_XML s2 = Inr (False, s3)"
      "readCommands cameraDoc s2 = Inr (True, t)" "asks 555 1000 7 t"
    by (rule camera_run)
  note stays = rejected_camera_file_stays [OF run(1,2) camera_files(1) run(4)]
  have "s3 = t \<and> CheckActionResIdAndValueValid t = Inr False"
    using stays [THEN conjunct2, THEN conjunct2, rule_format, of cameraDoc t] camera_files(2) run(5) by simp
  then show ?thesis using stays run(3,6) by (intro exI [of _ s2] exI [of _ s3]) simp
qed

text \<open>
  C34 (safety): An answer of \<open>HasPerfPermission\<close>, grant or denial, is given again
  to the same token after any further checks, as long as fewer other tokens are checked in
  between than the cache has entries: each check moves its entry to the front, so only that many
  others can push it out. The token service may answer differently by then (\<open>again\<close>
  is any caller with that token); a revoked permission keeps being granted.
\<close>

theorem cached_answer_stays:
  assumes "lru_inv (permissionCache s)" and "\<not> foreign caller"
    and "card (cl_tokenId ` set cs - {cl_tokenId caller}) < capacity (permissionCache s)"
    and "cl_tokenId again = cl_tokenId caller" and "\<not> foreign again"
  shows "okE (\<lambda>(b, t). okE (\<lambda>u. okE (\<lambda>(b', _). b' = b) (HasPerfPermission again u)) (checks cs t))
    (HasPerfPermission caller s)"
  using assms by (rule answers_repeat)

lemma cached_answer_stays_witness:
  "okE (\<lambda>(b, t). okE (\<lambda>u. okE (\<lambda>(b', _). b') (HasPerfPermission demoCaller u)) (checks [demoOther] t))
     (HasPerfPermission (demoCaller\<lparr>cl_verify := \<lambda>p. 0\<rparr>) (new_SocPerfServer\<lparr>socPerf := demoStarted\<rparr>))
   \<and> cl_verify demoCaller NEEDED_PERMISSION \<noteq> 0"
proof
  have granted: "okE (\<lambda>(b, t). b)
      (HasPerfPermission (demoCaller\<lparr>cl_verify := \<lambda>p. 0\<rparr>) (new_SocPerfServer\<lparr>socPerf := demoStarted\<rparr>))"
    by (rule okE_mono [OF HasPerfPermission_spec]) (auto simp: new_cache demo_authorised)
  have repeated: "okE (\<lambda>(b, t). okE (\<lambda>u. okE (\<lambda>(b', _). b' = b) (HasPerfPermission demoCaller u)) (checks [demoOther] t))
      (HasPerfPermission (demoCaller\<lparr>cl_verify := \<lambda>p. 0\<rparr>) (new_SocPerfServer\<lparr>socPerf := demoStarted\<rparr>))"
    by (rule cached_answer_stays) (simp_all add: demo_others new_cache)
  from granted repeated
  show "okE (\<lambda>(b, t). okE (\<lambda>u. okE (\<lambda>(b', _). b') (HasPerfPermission demoCaller u)) (checks [demoOther] t))
     (HasPerfPermission (demoCaller\<lparr>cl_verify := \<lambda>p. 0\<rparr>) (new_SocPerfServer\<lparr>socPerf := demoStarted\<rparr>))"
    by (auto simp: okE_iff)
  show "cl_verify demoCaller NEEDED_PERMISSION \<noteq> 0" by (simp add: demoCaller_def)
qed

text \<open>
  C35 (safety): When the death recipient cannot be set up, \<open>CheckClientValid\<close> fails
  but keeps the proxy: the next call finds it and succeeds although nobody is told when the
  service dies, so a dead proxy is then used for good.
\<close>

theorem proxy_stays_unwatched:
  assumes "ct_client c = None" and "sm_manager a" and "sm_object a" and "sm_cast a = Some p" and "\<not> sm_alloc a"
  shows "\<not> fst (CheckClientValid a c) \<and> fst (CheckClientValid b (snd (CheckClientValid a c)))
    \<and> ct_watched (snd (CheckClientValid b (snd (CheckClientValid a c)))) = ct_watched c"
  using proxy_without_recipient [OF assms] by simp

lemma proxy_stays_unwatched_witness:
  "ct_watched (snd (CheckClientValid
     \<lparr>sm_manager = True, sm_object = True, sm_cast = Some \<lparr>px_object = Some 1\<rparr>, sm_alloc = True\<rparr>
     (snd (CheckClientValid \<lparr>sm_manager = True, sm_object = True, sm_cast = Some \<lparr>px_object = Some 1\<rparr>, sm_alloc = False\<rparr> new_SocPerfClient))))
   = ct_watched new_SocPerfClient"
  using proxy_stays_unwatched [of new_SocPerfClient "\<lparr>sm_manager = True, sm_object = True, sm_cast = Some \<lparr>px_object = Some 1\<rparr>, sm_alloc = False\<rparr>" "\<lparr>px_object = Some 1\<rparr>"]
  by (simp add: new_SocPerfClient_def)

text \<open>
  C36 (liveness): The statistics closure keeps going: while the timer is on, a run reports the
  counts of the day unless there are none, clears them, and posts itself again a day later;
  after \<open>StopStatisticsTimer\<close> a run changes nothing.
\<close>

theorem statistics_rearm:
  "(statisticsTimerRunning s \<longrightarrow> dailyCmdIdCount (statisticsFunc s) = []
     \<and> statisticsInfo (statisticsFunc s) = statisticsInfo s @
         (if dailyCmdIdCount s = [] then [] else [printCounts '';'' (dailyCmdIdCount s)])
     \<and> postedTasks (statisticsFunc s) = postedTasks s @ [(STATISTICS_REPORT_INTERVAL_US, TaskStatistics)])
   \<and> statisticsFunc (StopStatisticsTimer s) = StopStatisticsTimer s"
  using statistics_cycle [of s] by (simp add: postedTasks_def)

lemma statistics_rearm_witness:
  "postedTasks (statisticsFunc (new_SocPerf\<lparr>statisticsTimerRunning := True\<rparr>)) = [(STATISTICS_REPORT_INTERVAL_US, TaskStatistics)]"
  using statistics_rearm [of "new_SocPerf\<lparr>statisticsTimerRunning := True\<rparr>"] by (simp add: postedTasks_def new_SocPerf_def)

text \<open>
  C37 (roundtrip): \<open>ParseModeCmd\<close> reads back a printed mode table: entries
  \<open>mode=command\<close> joined by bars, for any number of distinct non-empty modes without
  the separators and any 32-bit commands, become exactly these entries, in order.
\<close>

theorem mode_table_parsed:
  assumes "modes_printable ms" and "ms \<noteq> []" and "as_modeMap as = []"
  shows "ParseModeCmd (join_with (CHR ''|'') (map modeEntry ms)) as = Inr (as\<lparr>as_modeMap := ms\<rparr>)"
  using assms by (rule ParseModeCmd_inverts)

lemma mode_table_parsed_witness:
  "\<exists>as. ParseModeCmd ''game=39101|video=9101'' (new_Actions 1 ''x'') = Inr as
     \<and> map (\<lambda>m. (mm_mode m, mm_cmdId m)) (as_modeMap as) = [(''game'', 39101), (''video'', 9101)]"
proof -
  have "ParseModeCmd ''game=39101|video=9101'' (new_Actions 1 ''x'') = Inr ((new_Actions 1 ''x'')\<lparr>as_modeMap := demoModes\<rparr>)"
    using mode_table_parsed [OF demo_modes(1,2), of "new_Actions 1 ''x''"]
    unfolding demo_modes(3) by (simp add: new_Actions_def)
  then show ?thesis by (simp add: demoModes_def)
qed

text \<open>
  C38 (roundtrip): What \<open>RequestCmdIdCount\<close> prints can be read back: splitting at
  the commas and colons (nothing when the string is empty) gives the recorded commands with
  their counts, in order, whatever their number.
\<close>

theorem printed_counts_read_back:
  "readCounts (RequestCmdIdCount msg s) = Some (map (\<lambda>(k, n). (k, uint n)) (boostCmdCount s))"
  by (simp add: RequestCmdIdCount_def readCounts_print)

text \<open>
  C39 (roundtrip): \<open>Split\<close> with a one-character separator returns, and cuts a
  string joined from pieces without that character into these pieces again; joining the pieces
  of any string gives the string back.
\<close>

theorem split_inverts_join:
  assumes "ps \<noteq> []" and "\<forall>p\<in>set ps. c \<notin> set p"
  shows "Split (join_with c ps) [c] = Some ps \<and> map_option (join_with c) (Split str [c]) = Some str"
  using Split_char split_on_join [OF assms] join_split_on by simp

lemma split_inverts_join_witness: "Split ''actionmode:weakaction'' '':'' = Some [''actionmode'', ''weakaction'']"
  using split_inverts_join [of "[''actionmode'', ''weakaction'']" "CHR '':''"] by simp

text \<open>
  C40 (functional): The strings \<open>IsNumber\<close> accepts are exactly an optional minus
  sign followed by any number of digits, none included: every digit of an attribute is checked,
  but the empty string and a lone minus pass as numbers as well.
\<close>

theorem number_strings:
  "IsNumber str \<longleftrightarrow> (\<exists>sign digits. str = sign @ digits \<and> sign \<in> {[], ''-''} \<and> list_all is_digit digits)"
  by (rule IsNumber_language)

end
